(* ===== verification/Prelude.thy ===== *)
theory Prelude
  imports Main "HOL-Library.Word" "HOL-Library.AList" "HOL-Library.Multiset"
begin

text \<open>
  Shared vocabulary of the development: the Go integer and array types, the outcome types
  of fallible operations, big-endian byte encodings with their round-trip laws, association
  lists as Go maps, and a few generic list lemmas.

  A Go array \<^verbatim>\<open>[n]byte\<close> (a hash, an address, a channel identifier) is the word of \<open>8 * n\<close>
  bits whose big-endian bytes it holds; \<open>word_bytes\<close> and \<open>bytes_word\<close> convert between the two.
  A Go slice \<^verbatim>\<open>[]byte\<close> is a list of bytes.
\<close>

section \<open>Integers, arrays and outcomes\<close>

type_synonym byte = "8 word"
type_synonym u16 = "16 word"
type_synonym u32 = "32 word"
type_synonym u64 = "64 word"
type_synonym hash = "256 word"
type_synonym address = "160 word"
type_synonym bytes = "byte list"

text \<open>The text of an error value, as a tag that names the place it was built.\<close>

type_synonym cause = string

text \<open>
  Simplification rules for byte encodings, and the frame rules that say which part of a
  state an operation leaves alone.
\<close>

named_theorems byte_simps
named_theorems frame_simps

section \<open>Big-endian byte strings\<close>

text \<open>\<open>be_bytes n x\<close> is the last \<open>n\<close> base-256 digits of \<open>x\<close>, most significant first.\<close>

primrec be_bytes :: "nat \<Rightarrow> nat \<Rightarrow> bytes" where
  "be_bytes 0 x = []"
| "be_bytes (Suc n) x = be_bytes n (x div 256) @ [word_of_nat (x mod 256)]"

definition be_val :: "bytes \<Rightarrow> nat" where
  "be_val bs = foldl (\<lambda>a b. a * 256 + unat b) 0 bs"

lemma length_be_bytes [simp, byte_simps]: "length (be_bytes n x) = n"
  by (induction n arbitrary: x) auto

lemma be_bytes_eq_Nil [simp]: "be_bytes n x = [] \<longleftrightarrow> n = 0"
  by (cases n) auto

lemma be_val_Nil [simp]: "be_val [] = 0"
  by (simp add: be_val_def)

lemma be_val_snoc [simp]: "be_val (bs @ [b]) = be_val bs * 256 + unat b"
  by (simp add: be_val_def)

lemma unat_byte_less [simp]: "unat (b :: byte) < 256"
  using unsigned_less [of b] by simp

lemma unat_u16_less [simp]: "unat (w :: u16) < 65536"
  using unsigned_less [of w] by simp

lemma unat_u32_less [simp]: "unat (w :: u32) < 4294967296"
  using unsigned_less [of w] by simp

lemma unat_u64_less [simp]: "unat (w :: u64) < 18446744073709551616"
  using unsigned_less [of w] by simp

lemma unat_inc:
  assumes "(a :: u64) < b"
  shows "unat (a + 1) = Suc (unat a)"
proof -
  have "Suc (unat a) < 18446744073709551616"
    using assms unat_u64_less [of b] unfolding word_less_nat_alt by linarith
  then show ?thesis by (simp add: unat_word_ariths)
qed

lemma unat_of_nat_byte: "unat (word_of_nat (x mod 256) :: byte) = x mod 256"
  by (simp add: unat_of_nat)

lemma be_val_be_bytes: "be_val (be_bytes n x) = x mod 256 ^ n"
proof (induction n arbitrary: x)
  case (Suc n)
  have "x mod (256 * 256 ^ n) = 256 * (x div 256 mod 256 ^ n) + x mod 256"
    by (rule mod_mult2_eq)
  with Suc show ?case by (simp add: unat_of_nat_byte)
qed simp

lemma be_val_less: "be_val bs < 256 ^ length bs"
proof (induction bs rule: rev_induct)
  case (snoc b bs)
  have "be_val bs * 256 + unat b < (be_val bs + 1) * 256" by simp
  also have "\<dots> \<le> 256 ^ length bs * 256"
    using snoc by (intro mult_right_mono) auto
  finally show ?case by (simp add: mult.commute)
qed simp

lemma be_bytes_be_val: "be_bytes (length bs) (be_val bs) = bs"
  by (induction bs rule: rev_induct) (simp_all add: div_mult_self3)

lemma be_bytes_eq_of_val: "length bs = n \<Longrightarrow> be_bytes n (be_val bs) = bs"
  using be_bytes_be_val [of bs] by simp

lemma be_bytes_mod: "be_bytes n (x mod 256 ^ n) = be_bytes n x"
  using be_bytes_be_val [of "be_bytes n x"] by (simp add: be_val_be_bytes)

lemma be_val_inject:
  assumes "length bs = length cs" and "be_val bs = be_val cs"
  shows "bs = cs"
  using assms be_bytes_be_val by metis

lemma be_val_replicate_zero [simp]: "be_val (replicate n 0 @ bs) = be_val bs"
proof (induction bs rule: rev_induct)
  case Nil
  show ?case by (induction n) (auto simp: replicate_append_same [symmetric])
next
  case (snoc b bs)
  then show ?case by (simp flip: append_assoc)
qed

lemma be_val_zeros [simp]: "be_val (replicate n 0) = 0"
  using be_val_replicate_zero [of n "[]"] by simp

lemma be_bytes_pad:
  assumes "x < 256 ^ m"
  shows "be_bytes (n + m) x = replicate n 0 @ be_bytes m x"
proof (rule be_val_inject)
  have "(256::nat) ^ m \<le> 256 ^ (n + m)" by (rule power_increasing) auto
  with assms have "x < 256 ^ (n + m)" by (rule less_le_trans)
  with assms show "be_val (be_bytes (n + m) x) = be_val (replicate n 0 @ be_bytes m x)"
    by (simp add: be_val_be_bytes)
qed simp

lemma be_val_append: "be_val (as @ bs) = be_val as * 256 ^ length bs + be_val bs"
  by (induction bs rule: rev_induct) (simp_all add: algebra_simps flip: append_assoc)

section \<open>Fixed-width words as byte arrays\<close>

definition word_bytes :: "'a::len word \<Rightarrow> bytes" where
  "word_bytes w = be_bytes (LENGTH('a) div 8) (unat w)"

definition bytes_word :: "bytes \<Rightarrow> 'a::len word" where
  "bytes_word bs = word_of_nat (be_val bs)"

lemma length_word_bytes [simp, byte_simps]:
  "length (word_bytes (w :: 'a::len word)) = LENGTH('a) div 8"
  by (simp add: word_bytes_def)

lemma pow256_word: "8 dvd LENGTH('a::len) \<Longrightarrow> (256::nat) ^ (LENGTH('a) div 8) = 2 ^ LENGTH('a)"
proof -
  assume d: "8 dvd LENGTH('a)"
  have "(256::nat) ^ (LENGTH('a) div 8) = (2 ^ 8) ^ (LENGTH('a) div 8)" by simp
  also have "\<dots> = 2 ^ (8 * (LENGTH('a) div 8))" by (rule power_mult [symmetric])
  finally show ?thesis using d by simp
qed

lemma be_val_word_bytes:
  "8 dvd LENGTH('a::len) \<Longrightarrow> be_val (word_bytes (w :: 'a word)) = unat w"
  by (simp add: word_bytes_def be_val_be_bytes pow256_word)

lemma bytes_word_word_bytes:
  "8 dvd LENGTH('a::len) \<Longrightarrow> bytes_word (word_bytes (w :: 'a word)) = w"
  by (simp add: bytes_word_def be_val_word_bytes)

lemma word_bytes_bytes_word:
  assumes "8 dvd LENGTH('a::len)" and "length bs = LENGTH('a) div 8"
  shows "word_bytes (bytes_word bs :: 'a word) = bs"
proof -
  have "be_val bs < 2 ^ LENGTH('a)"
    using be_val_less [of bs] assms by (simp add: pow256_word)
  then have "unat (word_of_nat (be_val bs) :: 'a word) = be_val bs"
    by (simp add: unat_of_nat)
  with assms show ?thesis
    by (simp add: word_bytes_def bytes_word_def be_bytes_eq_of_val)
qed

lemma word_bytes_inject:
  "8 dvd LENGTH('a::len) \<Longrightarrow> word_bytes (v :: 'a word) = word_bytes w \<longleftrightarrow> v = w"
  using bytes_word_word_bytes by metis

lemma bytes_word_u16 [simp, byte_simps]: "bytes_word (word_bytes (w :: u16)) = w"
  by (rule bytes_word_word_bytes) simp

lemma bytes_word_u32 [simp, byte_simps]: "bytes_word (word_bytes (w :: u32)) = w"
  by (rule bytes_word_word_bytes) simp

lemma bytes_word_u64 [simp, byte_simps]: "bytes_word (word_bytes (w :: u64)) = w"
  by (rule bytes_word_word_bytes) simp

lemma bytes_word_hash [simp, byte_simps]: "bytes_word (word_bytes (w :: hash)) = w"
  by (rule bytes_word_word_bytes) simp

lemma bytes_word_address [simp, byte_simps]: "bytes_word (word_bytes (w :: address)) = w"
  by (rule bytes_word_word_bytes) simp

lemma be_val_u64 [simp, byte_simps]: "be_val (word_bytes (w :: u64)) = unat w"
  by (rule be_val_word_bytes) simp

section \<open>Reading a fixed prefix\<close>

lemma take_append_len: "length xs = n \<Longrightarrow> take n (xs @ ys) = xs"
  by simp

lemma drop_append_len: "length xs = n \<Longrightarrow> drop n (xs @ ys) = ys"
  by simp

lemmas prefix_simps = take_append_len drop_append_len

section \<open>Association lists as Go maps\<close>

text \<open>
  Go maps whose whole contents the code traverses are association lists with distinct keys.
  The order of the pairs stands for Go's unspecified iteration order, so nothing the theorems
  state depends on it.
\<close>

abbreviation keys :: "('k \<times> 'v) list \<Rightarrow> 'k list" where
  "keys m \<equiv> map fst m"

lemma set_keys_update [simp]: "set (keys (AList.update k v m)) = insert k (set (keys m))"
  by (simp add: dom_update)

lemma set_keys_delete [simp]: "set (keys (AList.delete k m)) = set (keys m) - {k}"
  by (simp add: delete_keys del: set_map)

lemma distinct_keys_update: "distinct (keys m) \<Longrightarrow> distinct (keys (AList.update k v m))"
  by (rule distinct_update)

lemma distinct_keys_delete: "distinct (keys m) \<Longrightarrow> distinct (keys (AList.delete k m))"
  by (rule distinct_delete)

lemma key_lookup: "k \<in> set (keys m) \<Longrightarrow> \<exists>v. map_of m k = Some v"
  by (induction m) auto

lemma sum_list_delete:
  fixes f :: "'v \<Rightarrow> 'a::ab_group_add"
  assumes "distinct (keys m)" and "map_of m k = Some v"
  shows "(\<Sum>(k, v)\<leftarrow>AList.delete k m. f v) = (\<Sum>(k, v)\<leftarrow>m. f v) - f v"
  using assms
proof (induction m)
  case (Cons p m)
  obtain k' v' where p: "p = (k', v')" by (cases p)
  show ?case
  proof (cases "k' = k")
    case True
    with Cons.prems p have "k \<notin> set (keys m)" by auto
    with True Cons.prems p show ?thesis by simp
  next
    case False
    with Cons p show ?thesis by auto
  qed
qed simp

section \<open>Parsers that consume a buffer item by item\<close>

text \<open>
  The contract of the decoding loops of the code base: an encoder for one item and a loop that
  takes items off the front of a buffer and appends them to what it has read. Whatever the loop
  does with an encoded item at the front of its buffer, it does with a whole sequence of them.
\<close>

locale stream_parser =
  fixes encode :: "'a \<Rightarrow> bytes"
    and ok :: "'a \<Rightarrow> bool"
    and loop :: "bytes \<Rightarrow> 'a list \<Rightarrow> 'r"
  assumes loop_item: "ok x \<Longrightarrow> loop (encode x @ r) acc = loop r (acc @ [x])"
begin

lemma loop_items:
  "list_all ok xs \<Longrightarrow> loop (concat (map encode xs) @ r) acc = loop r (acc @ xs)"
  by (induction xs arbitrary: acc) (auto simp: loop_item)

end

end
