(* ===== verification/Rollup_Types.thy ===== *)
theory Rollup_Types
  imports Prelude
begin

text \<open>
  The data the op-node components exchange: block references (\<^verbatim>\<open>op-node/eth/id.go\<close>), engine API
  values (\<^verbatim>\<open>op-node/eth/types.go\<close>), the rollup configuration (\<^verbatim>\<open>op-node/rollup/types.go\<close>) and the
  error values of the derivation pipeline (\<^verbatim>\<open>op-node/rollup/derive/error.go\<close>).
\<close>

section \<open>Block references\<close>

record block_id =
  id_Hash :: hash
  id_Number :: u64

record l1_block_ref =
  l1_Hash :: hash
  l1_Number :: u64
  l1_ParentHash :: hash
  l1_Time :: u64

record l2_block_ref =
  l2_Hash :: hash
  l2_Number :: u64
  l2_ParentHash :: hash
  l2_Time :: u64
  l2_L1Origin :: block_id
  l2_SequenceNumber :: u64

text \<open>The zero values of the structs.\<close>

definition zero_id :: block_id where
  "zero_id = \<lparr>id_Hash = 0, id_Number = 0\<rparr>"

definition zero_l1 :: l1_block_ref where
  "zero_l1 = \<lparr>l1_Hash = 0, l1_Number = 0, l1_ParentHash = 0, l1_Time = 0\<rparr>"

definition zero_l2 :: l2_block_ref where
  "zero_l2 = \<lparr>l2_Hash = 0, l2_Number = 0, l2_ParentHash = 0, l2_Time = 0,
     l2_L1Origin = zero_id, l2_SequenceNumber = 0\<rparr>"

definition L1BlockRef_ID :: "l1_block_ref \<Rightarrow> block_id" where
  "L1BlockRef_ID b = \<lparr>id_Hash = l1_Hash b, id_Number = l1_Number b\<rparr>"

definition L2BlockRef_ID :: "l2_block_ref \<Rightarrow> block_id" where
  "L2BlockRef_ID b = \<lparr>id_Hash = l2_Hash b, id_Number = l2_Number b\<rparr>"

lemma L1BlockRef_ID_sel [simp]:
  "id_Hash (L1BlockRef_ID b) = l1_Hash b" "id_Number (L1BlockRef_ID b) = l1_Number b"
  by (simp_all add: L1BlockRef_ID_def)

lemma L1BlockRef_ID_eq: "i = L1BlockRef_ID b \<longleftrightarrow> id_Hash i = l1_Hash b \<and> id_Number i = l1_Number b"
  by (cases i) (auto simp: L1BlockRef_ID_def)

section \<open>Engine API values\<close>

record execution_payload =
  pl_ParentHash :: hash
  pl_FeeRecipient :: address
  pl_StateRoot :: hash
  pl_ReceiptsRoot :: hash
  pl_LogsBloom :: "2048 word"
  pl_PrevRandao :: hash
  pl_BlockNumber :: u64
  pl_GasLimit :: u64
  pl_GasUsed :: u64
  pl_Timestamp :: u64
  pl_ExtraData :: bytes
  pl_BaseFeePerGas :: "256 word"
  pl_BlockHash :: hash
  pl_Transactions :: "bytes list"

record payload_attributes =
  at_Timestamp :: u64
  at_PrevRandao :: hash
  at_SuggestedFeeRecipient :: address
  at_Transactions :: "bytes list"
  at_NoTxPool :: bool

datatype exec_status =
    ExecutionValid
  | ExecutionInvalid
  | ExecutionSyncing
  | ExecutionAccepted
  | ExecutionInvalidBlockHash
  | ExecutionInvalidTerminalBlock
  | ExecutionOther string

record forkchoice_state =
  fc_Head :: hash
  fc_Safe :: hash
  fc_Finalized :: hash

text \<open>The two fields of \<^verbatim>\<open>ForkchoiceUpdatedResult\<close> that are read; the identifier may be nil.\<close>

record forkchoice_result =
  fcr_Status :: exec_status
  fcr_PayloadID :: "u64 option"

text \<open>
  An error of an engine call: an \<^verbatim>\<open>eth.InputError\<close> with its code, or any other error
  (an RPC failure), which may be \<^verbatim>\<open>ethereum.NotFound\<close>.
\<close>

datatype error_code = UnknownPayload | InvalidForkchoiceState | InvalidPayloadAttributes | OtherCode int

datatype rpc_error = InputError error_code | NotFound | RpcFailure cause

section \<open>Rollup configuration\<close>

record genesis =
  gen_L1 :: block_id
  gen_L2 :: block_id
  gen_L2Time :: u64

record config =
  Genesis :: genesis
  BlockTime :: u64
  MaxSequencerDrift :: u64
  SeqWindowSize :: u64
  ChannelTimeout :: u64
  L1ChainID :: "int option"
  L2ChainID :: "int option"
  P2PSequencerAddress :: address
  FeeRecipientAddress :: address
  BatchInboxAddress :: address
  BatchSenderAddress :: address
  DepositContractAddress :: address

text \<open>\<^verbatim>\<open>Config.Check\<close>: \<open>None\<close> is the nil error. The chain identifiers may be nil pointers.\<close>

definition Config_Check :: "config \<Rightarrow> cause option" where
  "Config_Check cfg =
    (if BlockTime cfg = 0 then Some ''block time cannot be 0''
     else if ChannelTimeout cfg = 0 then Some ''channel timeout must be set''
     else if SeqWindowSize cfg < 2 then Some ''sequencing window size must at least be 2''
     else if id_Hash (gen_L1 (Genesis cfg)) = 0 then Some ''genesis l1 hash cannot be empty''
     else if id_Hash (gen_L2 (Genesis cfg)) = 0 then Some ''genesis l2 hash cannot be empty''
     else if id_Hash (gen_L2 (Genesis cfg)) = id_Hash (gen_L1 (Genesis cfg))
       then Some ''L1 and L2 genesis cannot be the same''
     else if gen_L2Time (Genesis cfg) = 0 then Some ''missing L2 genesis time''
     else if P2PSequencerAddress cfg = 0 then Some ''missing p2p sequencer address''
     else if FeeRecipientAddress cfg = 0 then Some ''missing fee recipient address''
     else if BatchInboxAddress cfg = 0 then Some ''missing batch inbox address''
     else if BatchSenderAddress cfg = 0 then Some ''missing batch sender address''
     else if DepositContractAddress cfg = 0 then Some ''missing deposit contract address''
     else case L1ChainID cfg of
         None \<Rightarrow> Some ''l1 chain ID must not be nil''
       | Some c1 \<Rightarrow> (case L2ChainID cfg of
           None \<Rightarrow> Some ''l2 chain ID must not be nil''
         | Some c2 \<Rightarrow> (if c1 = c2 then Some ''l1 and l2 chain IDs must be different'' else None)))"

lemma Config_Check_NoneD:
  assumes "Config_Check cfg = None"
  shows "BlockTime cfg \<noteq> 0" "ChannelTimeout cfg \<noteq> 0" "2 \<le> SeqWindowSize cfg"
    "id_Hash (gen_L2 (Genesis cfg)) \<noteq> id_Hash (gen_L1 (Genesis cfg))"
  using assms by (auto simp: Config_Check_def not_less split: if_splits)

section \<open>Errors of the derivation pipeline\<close>

datatype level = LevelTemporary | LevelReset | LevelCritical

text \<open>
  The errors that travel between the stages: the sentinels \<^verbatim>\<open>io.EOF\<close> and \<^verbatim>\<open>NotEnoughData\<close>, a leveled
  error built by \<^verbatim>\<open>NewTemporaryError\<close>, \<^verbatim>\<open>NewResetError\<close> or \<^verbatim>\<open>NewCriticalError\<close>, any other error, and a
  Go panic, which no caller recovers from.
\<close>

datatype derr =
    EOF
  | NotEnoughData
  | Leveled level cause
  | Plain cause
  | Panic cause

abbreviation NewTemporaryError :: "cause \<Rightarrow> derr" where
  "NewTemporaryError \<equiv> Leveled LevelTemporary"

abbreviation NewResetError :: "cause \<Rightarrow> derr" where
  "NewResetError \<equiv> Leveled LevelReset"

abbreviation NewCriticalError :: "cause \<Rightarrow> derr" where
  "NewCriticalError \<equiv> Leveled LevelCritical"

text \<open>\<^verbatim>\<open>errors.Is(err, ErrReset)\<close> and its siblings: only the level is compared.\<close>

fun Error_Is :: "derr \<Rightarrow> level \<Rightarrow> bool" where
  "Error_Is (Leveled l c) t \<longleftrightarrow> l = t"
| "Error_Is _ t \<longleftrightarrow> False"

fun is_panic :: "derr \<Rightarrow> bool" where
  "is_panic (Panic c) \<longleftrightarrow> True"
| "is_panic _ \<longleftrightarrow> False"

text \<open>The result of a stage call: an error or a value, with the new state of the stage.\<close>

type_synonym ('a, 's) outcome = "(derr + 'a) \<times> 's"

text \<open>A configuration that passes the check, used to instantiate the theorems.\<close>

definition sample_config :: config where
  "sample_config = \<lparr>Genesis = \<lparr>gen_L1 = \<lparr>id_Hash = 1, id_Number = 0\<rparr>,
      gen_L2 = \<lparr>id_Hash = 2, id_Number = 0\<rparr>, gen_L2Time = 100\<rparr>,
     BlockTime = 2, MaxSequencerDrift = 600, SeqWindowSize = 3, ChannelTimeout = 20,
     L1ChainID = Some 900, L2ChainID = Some 901, P2PSequencerAddress = 11, FeeRecipientAddress = 12,
     BatchInboxAddress = 13, BatchSenderAddress = 14, DepositContractAddress = 15\<rparr>"

lemma Config_Check_sample: "Config_Check sample_config = None"
  by (simp add: Config_Check_def sample_config_def)

end
