(* ===== verification/Stage_Interfaces.thy ===== *)
theory Stage_Interfaces
  imports Rollup_Types
begin

text \<open>
  The interfaces between the pull stages of the derivation pipeline. In the code they are the Go
  interfaces \<^verbatim>\<open>NextBlockProvider\<close>, \<^verbatim>\<open>NextDataProvider\<close> and \<^verbatim>\<open>NextBatchProvider\<close>: a method that pulls the
  next item and a method \<^verbatim>\<open>Origin\<close> that tells which L1 block is being read. The stages rely on more
  than the signatures say: pulling an item never moves the origin and never corrupts the stage
  (\<open>pull_stage\<close>), and it never panics (\<open>pull_provider\<close>). Every stage up to the channel reader is shown
  to turn a previous stage that satisfies all of these laws into one that does; the batch queue, which
  can panic, keeps the first two.
\<close>

locale pull_stage =
  fixes inv :: "'s \<Rightarrow> bool"
    and origin :: "'s \<Rightarrow> l1_block_ref"
    and pull :: "'s \<Rightarrow> ('a, 's) outcome"
  assumes pull_inv: "inv s \<Longrightarrow> pull s = (r, s') \<Longrightarrow> inv s'"
    and pull_origin: "inv s \<Longrightarrow> pull s = (r, s') \<Longrightarrow> origin s' = origin s"

locale pull_provider = pull_stage inv origin pull
  for inv :: "'s \<Rightarrow> bool" and origin :: "'s \<Rightarrow> l1_block_ref" and pull :: "'s \<Rightarrow> ('a, 's) outcome" +
  assumes pull_safe: "inv s \<Longrightarrow> pull s = (Inl e, s') \<Longrightarrow> \<not> is_panic e"

text \<open>The three interfaces differ in what is pulled: L1 blocks, raw data, batches.\<close>

locale block_provider = pull_provider inv origin pull
  for inv :: "'s \<Rightarrow> bool" and origin :: "'s \<Rightarrow> l1_block_ref"
    and pull :: "'s \<Rightarrow> (l1_block_ref, 's) outcome" +
  assumes pull_block: "inv s \<Longrightarrow> pull s = (Inr b, s') \<Longrightarrow> b = origin s"

locale data_provider = pull_provider inv origin pull
  for inv :: "'s \<Rightarrow> bool" and origin :: "'s \<Rightarrow> l1_block_ref"
    and pull :: "'s \<Rightarrow> (bytes, 's) outcome"

text \<open>
  Pulling repeatedly until an error is returned: the items pulled, the error, and the final state.
  \<open>None\<close> in place of the error means that the given number of pulls was not enough to reach one.
\<close>

fun pull_all :: "nat \<Rightarrow> ('s \<Rightarrow> ('a, 's) outcome) \<Rightarrow> 's \<Rightarrow> 'a list \<times> derr option \<times> 's" where
  "pull_all 0 pull s = ([], None, s)"
| "pull_all (Suc n) pull s =
    (case pull s of
       (Inl e, s) \<Rightarrow> ([], Some e, s)
     | (Inr x, s) \<Rightarrow> (case pull_all n pull s of (xs, e, s) \<Rightarrow> (x # xs, e, s)))"

end
