(* ===== verification/L1_Source.thy ===== *)
theory L1_Source
  imports Stage_Interfaces
begin

text \<open>
  Reading the L1 chain: \<^verbatim>\<open>l1_traversal.go\<close>, \<^verbatim>\<open>l1_retrieval.go\<close> and \<^verbatim>\<open>calldata_source.go\<close> of
  \<^verbatim>\<open>op-node/rollup/derive\<close>. The L1 RPC client and the transaction signer are parameters: a record of
  the answers the client gives, which may be different at every step, and a function that recovers
  the sender of a transaction.
\<close>

section \<open>The L1 client\<close>

datatype block_label = Unsafe | Safe | Finalized

record l1_tx =
  tx_To :: "address option"
  tx_Data :: bytes
  tx_Signature :: bytes

record block_info =
  bi_Hash :: hash
  bi_ParentHash :: hash
  bi_Coinbase :: address
  bi_Root :: hash
  bi_NumberU64 :: u64
  bi_Time :: u64
  bi_MixDigest :: hash
  bi_BaseFee :: int
  bi_ReceiptHash :: hash

record event_log =
  lg_Address :: address
  lg_Topics :: "hash list"
  lg_Data :: bytes
  lg_BlockHash :: hash
  lg_Index :: u64

record receipt =
  rc_Status :: u64
  rc_Logs :: "event_log list"

text \<open>
  A receipts fetcher: what successive calls of \<^verbatim>\<open>Fetch\<close> return until it signals completion with
  \<^verbatim>\<open>io.EOF\<close> (\<open>None\<close> for nil), and what \<^verbatim>\<open>Result\<close> returns then.
\<close>

record receipts_fetcher =
  rf_Fetches :: "rpc_error option list"
  rf_Result :: "cause + receipt list"

record l1_fetcher =
  L1BlockRefByLabel :: "block_label \<Rightarrow> rpc_error + l1_block_ref"
  L1BlockRefByNumber :: "u64 \<Rightarrow> rpc_error + l1_block_ref"
  L1BlockRefByHash :: "hash \<Rightarrow> rpc_error + l1_block_ref"
  InfoByHash :: "hash \<Rightarrow> rpc_error + block_info"
  FetchReceipts :: "hash \<Rightarrow> rpc_error + (block_info \<times> receipts_fetcher)"
  InfoAndTxsByHash :: "hash \<Rightarrow> rpc_error + l1_tx list"

text \<open>\<^verbatim>\<open>InfoToL1BlockRef\<close> of \<^verbatim>\<open>eth/block_info.go\<close>.\<close>

definition InfoToL1BlockRef :: "block_info \<Rightarrow> l1_block_ref" where
  "InfoToL1BlockRef info = \<lparr>l1_Hash = bi_Hash info, l1_Number = bi_NumberU64 info,
     l1_ParentHash = bi_ParentHash info, l1_Time = bi_Time info\<rparr>"

section \<open>L1 traversal\<close>

record l1_traversal =
  lt_block :: l1_block_ref
  lt_done :: bool

definition NewL1Traversal :: l1_traversal where
  "NewL1Traversal = \<lparr>lt_block = zero_l1, lt_done = False\<rparr>"

definition L1Traversal_Origin :: "l1_traversal \<Rightarrow> l1_block_ref" where
  "L1Traversal_Origin l1t = lt_block l1t"

definition NextL1Block :: "l1_traversal \<Rightarrow> (l1_block_ref, l1_traversal) outcome" where
  "NextL1Block l1t =
    (if \<not> lt_done l1t then (Inr (lt_block l1t), l1t\<lparr>lt_done := True\<rparr>) else (Inl EOF, l1t))"

text \<open>The error is \<open>None\<close> where \<^verbatim>\<open>AdvanceL1Block\<close> returns nil.\<close>

definition AdvanceL1Block :: "l1_fetcher \<Rightarrow> l1_traversal \<Rightarrow> derr option \<times> l1_traversal" where
  "AdvanceL1Block l1 l1t =
    (case L1BlockRefByNumber l1 (l1_Number (lt_block l1t) + 1) of
       Inl NotFound \<Rightarrow> (Some EOF, l1t)
     | Inl _ \<Rightarrow> (Some (NewTemporaryError ''failed to find L1 block info by number''), l1t)
     | Inr nextL1Origin \<Rightarrow>
         if l1_Hash (lt_block l1t) \<noteq> l1_ParentHash nextL1Origin
         then (Some (NewResetError ''detected L1 reorg''), l1t)
         else (None, l1t\<lparr>lt_block := nextL1Origin, lt_done := False\<rparr>))"

text \<open>Every \<^verbatim>\<open>Reset\<close> of a pull stage returns \<^verbatim>\<open>io.EOF\<close>, so only the new state is modelled.\<close>

definition L1Traversal_Reset :: "l1_block_ref \<Rightarrow> l1_traversal \<Rightarrow> l1_traversal" where
  "L1Traversal_Reset base l1t = l1t\<lparr>lt_block := base, lt_done := False\<rparr>"

section \<open>Calldata source\<close>

text \<open>The sender recovery of \<^verbatim>\<open>config.L1Signer()\<close>: \<open>None\<close> for an invalid signature.\<close>

type_synonym tx_signer = "config \<Rightarrow> l1_tx \<Rightarrow> address option"

fun DataFromEVMTransactions :: "config \<Rightarrow> tx_signer \<Rightarrow> l1_tx list \<Rightarrow> bytes list" where
  "DataFromEVMTransactions cfg Sender [] = []"
| "DataFromEVMTransactions cfg Sender (tx # txs) =
    (if tx_To tx = Some (BatchInboxAddress cfg) then
       (case Sender cfg tx of
          None \<Rightarrow> DataFromEVMTransactions cfg Sender txs
        | Some seqDataSubmitter \<Rightarrow>
            if seqDataSubmitter \<noteq> BatchSenderAddress cfg then DataFromEVMTransactions cfg Sender txs
            else tx_Data tx # DataFromEVMTransactions cfg Sender txs)
     else DataFromEVMTransactions cfg Sender txs)"

record data_source =
  ds_open :: bool
  ds_data :: "bytes list"
  ds_id :: block_id

definition NewDataSource :: "config \<Rightarrow> tx_signer \<Rightarrow> l1_fetcher \<Rightarrow> block_id \<Rightarrow> data_source" where
  "NewDataSource cfg Sender l1 block =
    (case InfoAndTxsByHash l1 (id_Hash block) of
       Inl _ \<Rightarrow> \<lparr>ds_open = False, ds_data = [], ds_id = block\<rparr>
     | Inr txs \<Rightarrow> \<lparr>ds_open = True, ds_data = DataFromEVMTransactions cfg Sender txs, ds_id = zero_id\<rparr>)"

definition DataSource_Next ::
    "config \<Rightarrow> tx_signer \<Rightarrow> l1_fetcher \<Rightarrow> data_source \<Rightarrow> (bytes, data_source) outcome" where
  "DataSource_Next cfg Sender l1 ds =
    (let opened =
       (if \<not> ds_open ds then
          (case InfoAndTxsByHash l1 (id_Hash (ds_id ds)) of
             Inr txs \<Rightarrow> Inr (ds\<lparr>ds_open := True, ds_data := DataFromEVMTransactions cfg Sender txs\<rparr>)
           | Inl NotFound \<Rightarrow> Inl (NewResetError ''failed to open calldata source'')
           | Inl _ \<Rightarrow> Inl (NewTemporaryError ''failed to open calldata source''))
        else Inr ds)
     in case opened of
          Inl e \<Rightarrow> (Inl e, ds)
        | Inr ds \<Rightarrow>
            (case ds_data ds of
               [] \<Rightarrow> (Inl EOF, ds)
             | d # rest \<Rightarrow> (Inr d, ds\<lparr>ds_data := rest\<rparr>)))"

section \<open>L1 retrieval\<close>

record 'p l1_retrieval =
  lr_datas :: "data_source option"
  lr_prev :: 'p

definition L1Retrieval_Origin :: "('p \<Rightarrow> l1_block_ref) \<Rightarrow> 'p l1_retrieval \<Rightarrow> l1_block_ref" where
  "L1Retrieval_Origin origin l1r = origin (lr_prev l1r)"

definition L1Retrieval_NextData ::
    "config \<Rightarrow> tx_signer \<Rightarrow> l1_fetcher \<Rightarrow> ('p \<Rightarrow> (l1_block_ref, 'p) outcome)
     \<Rightarrow> 'p l1_retrieval \<Rightarrow> (bytes, 'p l1_retrieval) outcome" where
  "L1Retrieval_NextData cfg Sender l1 NextBlock l1r =
    (let opened =
       (case lr_datas l1r of
          Some ds \<Rightarrow> (Inr ds, l1r)
        | None \<Rightarrow>
            (case NextBlock (lr_prev l1r) of
               (Inl e, p) \<Rightarrow> (Inl e, l1r\<lparr>lr_prev := p\<rparr>)
             | (Inr next, p) \<Rightarrow>
                 let ds = NewDataSource cfg Sender l1 (L1BlockRef_ID next)
                 in (Inr ds, l1r\<lparr>lr_prev := p, lr_datas := Some ds\<rparr>)))
     in case opened of
          (Inl e, l1r) \<Rightarrow> (Inl e, l1r)
        | (Inr ds, l1r) \<Rightarrow>
            (case DataSource_Next cfg Sender l1 ds of
               (Inl EOF, ds) \<Rightarrow> (Inl EOF, l1r\<lparr>lr_datas := None\<rparr>)
             | (Inl e, ds) \<Rightarrow> (Inl e, l1r\<lparr>lr_datas := Some ds\<rparr>)
             | (Inr data, ds) \<Rightarrow> (Inr data, l1r\<lparr>lr_datas := Some ds\<rparr>)))"

definition L1Retrieval_Reset ::
    "config \<Rightarrow> tx_signer \<Rightarrow> l1_fetcher \<Rightarrow> l1_block_ref \<Rightarrow> 'p l1_retrieval \<Rightarrow> 'p l1_retrieval" where
  "L1Retrieval_Reset cfg Sender l1 base l1r =
     l1r\<lparr>lr_datas := Some (NewDataSource cfg Sender l1 (L1BlockRef_ID base))\<rparr>"

section \<open>Properties\<close>

text \<open>L1 traversal provides blocks; retrieval turns any block provider into a data provider.\<close>

interpretation traversal: block_provider "\<lambda>_. True" L1Traversal_Origin NextL1Block
  by unfold_locales (auto simp: NextL1Block_def L1Traversal_Origin_def split: if_splits)

lemma DataSource_Next_no_panic: "DataSource_Next cfg Sender l1 ds = (Inl e, ds') \<Longrightarrow> \<not> is_panic e"
  by (auto simp: DataSource_Next_def Let_def split: if_splits sum.splits rpc_error.splits list.splits)

lemma L1Retrieval_NextData_prev:
  assumes "L1Retrieval_NextData cfg Sender l1 NextBlock l1r = (r, l1r')"
  shows "lr_prev l1r' = lr_prev l1r \<or> (\<exists>v. NextBlock (lr_prev l1r) = (v, lr_prev l1r'))"
  using assms
  by (auto simp: L1Retrieval_NextData_def Let_def split: option.splits prod.splits sum.splits derr.splits)

lemma L1Retrieval_NextData_panic:
  assumes "L1Retrieval_NextData cfg Sender l1 NextBlock l1r = (Inl e, l1r')" and "is_panic e"
  shows "\<exists>p. NextBlock (lr_prev l1r) = (Inl e, p)"
  using assms DataSource_Next_no_panic
  by (fastforce simp: L1Retrieval_NextData_def Let_def
      split: option.splits prod.splits sum.splits derr.splits)

locale l1_retrieval_stage = block_provider inv origin pull
  for inv :: "'s \<Rightarrow> bool" and origin :: "'s \<Rightarrow> l1_block_ref"
    and pull :: "'s \<Rightarrow> (l1_block_ref, 's) outcome" +
  fixes cfg :: config and Sender :: tx_signer and l1 :: l1_fetcher
begin

lemma retrieval_pull:
  assumes "inv (lr_prev l1r)" and "L1Retrieval_NextData cfg Sender l1 pull l1r = (r, l1r')"
  shows "inv (lr_prev l1r')" and "origin (lr_prev l1r') = origin (lr_prev l1r)"
  using L1Retrieval_NextData_prev [OF assms(2)] assms(1) pull_inv pull_origin by metis+

end

sublocale l1_retrieval_stage \<subseteq> retrieval: data_provider
  "\<lambda>l1r. inv (lr_prev l1r)" "L1Retrieval_Origin origin" "L1Retrieval_NextData cfg Sender l1 pull"
  using retrieval_pull L1Retrieval_NextData_panic pull_safe
  by unfold_locales (simp_all add: L1Retrieval_Origin_def, blast)

interpretation l1_source: l1_retrieval_stage "\<lambda>_. True" L1Traversal_Origin NextL1Block cfg Sender l1
  for cfg Sender l1
  by unfold_locales

text \<open>A transaction that carries batcher data: sent to the inbox, and signed by the batch sender.\<close>

definition batcher_tx :: "config \<Rightarrow> tx_signer \<Rightarrow> l1_tx \<Rightarrow> bool" where
  "batcher_tx cfg Sender tx \<longleftrightarrow>
     tx_To tx = Some (BatchInboxAddress cfg) \<and> Sender cfg tx = Some (BatchSenderAddress cfg)"

lemma DataFromEVMTransactions_filter:
  "DataFromEVMTransactions cfg Sender txs = map tx_Data (filter (batcher_tx cfg Sender) txs)"
  by (induction txs) (auto simp: batcher_tx_def split: option.splits)

lemma DataSource_Next_open:
  "ds_open ds \<Longrightarrow> DataSource_Next cfg Sender l1 ds =
    (case ds_data ds of [] \<Rightarrow> (Inl EOF, ds) | d # rest \<Rightarrow> (Inr d, ds\<lparr>ds_data := rest\<rparr>))"
  by (simp add: DataSource_Next_def)

lemma L1Retrieval_NextData_open:
  "lr_datas l1r = Some ds \<Longrightarrow> ds_open ds \<Longrightarrow> L1Retrieval_NextData cfg Sender l1 NextBlock l1r =
    (case ds_data ds of [] \<Rightarrow> (Inl EOF, l1r\<lparr>lr_datas := None\<rparr>)
     | d # rest \<Rightarrow> (Inr d, l1r\<lparr>lr_datas := Some (ds\<lparr>ds_data := rest\<rparr>)\<rparr>))"
  by (simp add: L1Retrieval_NextData_def DataSource_Next_open split: list.splits)

lemma retrieval_drain_open:
  fixes l1r :: "'p l1_retrieval"
  assumes "lr_datas l1r = Some ds" and "ds_open ds" and "length (ds_data ds) < n"
  shows "pull_all n (L1Retrieval_NextData cfg Sender l1 NextBlock) l1r
    = (ds_data ds, Some EOF, l1r\<lparr>lr_datas := None\<rparr>)"
  using assms
proof (induction n arbitrary: ds l1r)
  case (Suc n)
  then show ?case by (cases "ds_data ds") (simp_all add: L1Retrieval_NextData_open)
qed simp

text \<open>
  Reading an L1 block: once the traversal offers a block whose transactions the client can
  fetch, pulling from L1 retrieval yields the calldata of exactly those transactions of the block
  that were sent to the batch inbox and signed by the batch sender, in block order, then \<^verbatim>\<open>io.EOF\<close>;
  the block is consumed and the origin stays on it.
\<close>

lemma retrieval_reads_block:
  fixes l1r :: "l1_traversal l1_retrieval"
  assumes "lr_datas l1r = None" and "\<not> lt_done (lr_prev l1r)"
    and "InfoAndTxsByHash l1 (l1_Hash (lt_block (lr_prev l1r))) = Inr txs"
    and "length txs < n"
  shows "pull_all n (L1Retrieval_NextData cfg Sender l1 NextL1Block) l1r
    = (map tx_Data (filter (batcher_tx cfg Sender) txs), Some EOF,
       l1r\<lparr>lr_prev := (lr_prev l1r)\<lparr>lt_done := True\<rparr>\<rparr>)"
proof -
  let ?ds = "\<lparr>ds_open = True, ds_data = map tx_Data (filter (batcher_tx cfg Sender) txs), ds_id = zero_id\<rparr>"
  let ?l1r = "l1r\<lparr>lr_prev := (lr_prev l1r)\<lparr>lt_done := True\<rparr>, lr_datas := Some ?ds\<rparr>"
  have new: "NewDataSource cfg Sender l1 (L1BlockRef_ID (lt_block (lr_prev l1r))) = ?ds"
    using assms(3) by (simp add: NewDataSource_def DataFromEVMTransactions_filter)
  have step: "L1Retrieval_NextData cfg Sender l1 NextL1Block l1r
      = L1Retrieval_NextData cfg Sender l1 NextL1Block ?l1r"
    using assms(1,2) by (simp add: L1Retrieval_NextData_def NextL1Block_def new Let_def)
  have len: "length (ds_data ?ds) < n"
    using assms(4) by (simp add: le_less_trans [OF length_filter_le])
  have "pull_all n (L1Retrieval_NextData cfg Sender l1 NextL1Block) l1r
      = pull_all n (L1Retrieval_NextData cfg Sender l1 NextL1Block) ?l1r"
    using len by (cases n) (simp_all add: step)
  also have "\<dots> = (ds_data ?ds, Some EOF, ?l1r\<lparr>lr_datas := None\<rparr>)"
    by (rule retrieval_drain_open) (use len in simp_all)
  finally show ?thesis using assms(1) by (cases l1r) simp
qed

text \<open>A client that has no data, the base of the concrete clients below.\<close>

definition no_l1 :: l1_fetcher where
  "no_l1 = \<lparr>L1BlockRefByLabel = \<lambda>_. Inl NotFound, L1BlockRefByNumber = \<lambda>_. Inl NotFound,
     L1BlockRefByHash = \<lambda>_. Inl NotFound, InfoByHash = \<lambda>_. Inl NotFound,
     FetchReceipts = \<lambda>_. Inl NotFound, InfoAndTxsByHash = \<lambda>_. Inl NotFound\<rparr>"

end
