(* ===== verification/L1_Info.thy ===== *)
theory L1_Info
  imports L1_Source
begin

text \<open>
  The L1 attributes deposit, the first transaction of every L2 block: \<^verbatim>\<open>l1_block_info.go\<close>,
  \<^verbatim>\<open>deposit_source.go\<close> and \<^verbatim>\<open>payload_util.go\<close> of \<^verbatim>\<open>op-node/rollup/derive\<close>. The hash function and the
  transaction encoding of go-ethereum are parameters.
\<close>

type_synonym keccak = "bytes \<Rightarrow> hash"

definition string_bytes :: "string \<Rightarrow> bytes" where
  "string_bytes s = map of_char s"

text \<open>\<^verbatim>\<open>data[a:b]\<close>.\<close>

definition slice :: "nat \<Rightarrow> nat \<Rightarrow> bytes \<Rightarrow> bytes" where
  "slice a b data = take (b - a) (drop a data)"

lemma slice_append:
  "length xs = a \<Longrightarrow> slice (a + m) (a + n) (xs @ ys) = slice m n ys"
  by (simp add: slice_def)

section \<open>L1 block info\<close>

record l1_info =
  li_Number :: u64
  li_Time :: u64
  li_BaseFee :: int
  li_BlockHash :: hash
  li_SequenceNumber :: u64

definition L1InfoFuncSignature :: string where
  "L1InfoFuncSignature = ''setL1BlockValues(uint64,uint64,uint256,bytes32,uint64)''"

definition L1InfoFuncBytes4 :: "keccak \<Rightarrow> bytes" where
  "L1InfoFuncBytes4 Keccak256 = take 4 (word_bytes (Keccak256 (string_bytes L1InfoFuncSignature)))"

text \<open>\<^verbatim>\<open>big.Int.FillBytes\<close> into 32 bytes: the absolute value, a panic (\<open>None\<close>) if it does not fit.\<close>

definition FillBytes32 :: "int \<Rightarrow> bytes option" where
  "FillBytes32 x = (if nat \<bar>x\<bar> < 256 ^ 32 then Some (be_bytes 32 (nat \<bar>x\<bar>)) else None)"

definition padded_u64 :: "u64 \<Rightarrow> bytes" where
  "padded_u64 w = replicate 24 0 @ word_bytes w"

definition L1BlockInfo_MarshalBinary :: "keccak \<Rightarrow> l1_info \<Rightarrow> bytes option" where
  "L1BlockInfo_MarshalBinary Keccak256 info =
    (case FillBytes32 (li_BaseFee info) of
       None \<Rightarrow> None
     | Some fee \<Rightarrow> Some (L1InfoFuncBytes4 Keccak256
         @ padded_u64 (li_Number info) @ padded_u64 (li_Time info) @ fee
         @ word_bytes (li_BlockHash info) @ padded_u64 (li_SequenceNumber info)))"

definition L1BlockInfo_UnmarshalBinary :: "bytes \<Rightarrow> cause + l1_info" where
  "L1BlockInfo_UnmarshalBinary data =
    (if length data \<noteq> 4 + 32 + 32 + 32 + 32 + 32 then Inl ''data is unexpected length''
     else if slice 4 28 data \<noteq> replicate 24 0 then Inl ''l1 info number exceeds uint64 bounds''
     else if slice 36 60 data \<noteq> replicate 24 0 then Inl ''l1 info time exceeds uint64 bounds''
     else if slice 132 156 data \<noteq> replicate 24 0
       then Inl ''l1 info sequence number exceeds uint64 bounds''
     else Inr \<lparr>li_Number = bytes_word (slice 28 36 data), li_Time = bytes_word (slice 60 68 data),
       li_BaseFee = int (be_val (slice 68 100 data)), li_BlockHash = bytes_word (slice 100 132 data),
       li_SequenceNumber = bytes_word (slice 156 164 data)\<rparr>)"

definition L1InfoDepositTxData :: "bytes \<Rightarrow> cause + l1_info" where
  "L1InfoDepositTxData data = L1BlockInfo_UnmarshalBinary data"

section \<open>Source hashes\<close>

definition UserDepositSourceDomain :: u64 where "UserDepositSourceDomain = 0"
definition L1InfoDepositSourceDomain :: u64 where "L1InfoDepositSourceDomain = 1"

text \<open>The two inputs both \<^verbatim>\<open>SourceHash\<close> methods hash: the deposit identity, then the domain.\<close>

definition deposit_id_input :: "hash \<Rightarrow> u64 \<Rightarrow> bytes" where
  "deposit_id_input h n = word_bytes h @ padded_u64 n"

definition domain_input :: "u64 \<Rightarrow> hash \<Rightarrow> bytes" where
  "domain_input d h = padded_u64 d @ word_bytes h"

definition UserDepositSource_SourceHash :: "keccak \<Rightarrow> hash \<Rightarrow> u64 \<Rightarrow> hash" where
  "UserDepositSource_SourceHash Keccak256 l1BlockHash logIndex =
     Keccak256 (domain_input UserDepositSourceDomain (Keccak256 (deposit_id_input l1BlockHash logIndex)))"

definition L1InfoDepositSource_SourceHash :: "keccak \<Rightarrow> hash \<Rightarrow> u64 \<Rightarrow> hash" where
  "L1InfoDepositSource_SourceHash Keccak256 l1BlockHash seqNumber =
     Keccak256 (domain_input L1InfoDepositSourceDomain (Keccak256 (deposit_id_input l1BlockHash seqNumber)))"

section \<open>The deposit transaction\<close>

record deposit_tx =
  dep_SourceHash :: hash
  dep_From :: address
  dep_To :: "address option"
  dep_Mint :: "int option"
  dep_Value :: int
  dep_Gas :: u64
  dep_IsSystemTransaction :: bool
  dep_Data :: bytes

definition DepositTxType :: byte where "DepositTxType = 0x7E"

definition L1InfoDepositerAddress :: address where
  "L1InfoDepositerAddress = 0xdeaddeaddeaddeaddeaddeaddeaddeaddead0001"

definition L1BlockAddress :: address where
  "L1BlockAddress = 0x4200000000000000000000000000000000000015"

text \<open>
  A decoded L2 transaction, as far as the code looks at it, and the two functions of go-ethereum
  that encode a deposit and decode any transaction.
\<close>

record l2_tx =
  tx2_Type :: byte
  tx2_Data :: bytes

record tx_codec =
  MarshalDepositTx :: "deposit_tx \<Rightarrow> cause + bytes"
  UnmarshalTx :: "bytes \<Rightarrow> cause + l2_tx"

text \<open>The result is \<open>None\<close> where encoding the base fee panics.\<close>

definition L1InfoDeposit :: "keccak \<Rightarrow> u64 \<Rightarrow> block_info \<Rightarrow> deposit_tx option" where
  "L1InfoDeposit Keccak256 seqNumber block =
    (case L1BlockInfo_MarshalBinary Keccak256
        \<lparr>li_Number = bi_NumberU64 block, li_Time = bi_Time block, li_BaseFee = bi_BaseFee block,
         li_BlockHash = bi_Hash block, li_SequenceNumber = seqNumber\<rparr> of
       None \<Rightarrow> None
     | Some data \<Rightarrow> Some
        \<lparr>dep_SourceHash = L1InfoDepositSource_SourceHash Keccak256 (bi_Hash block) seqNumber,
         dep_From = L1InfoDepositerAddress, dep_To = Some L1BlockAddress, dep_Mint = None,
         dep_Value = 0, dep_Gas = 150000000, dep_IsSystemTransaction = True, dep_Data = data\<rparr>)"

definition L1InfoDepositBytes :: "keccak \<Rightarrow> tx_codec \<Rightarrow> u64 \<Rightarrow> block_info \<Rightarrow> derr + bytes" where
  "L1InfoDepositBytes Keccak256 codec seqNumber l1Info =
    (case L1InfoDeposit Keccak256 seqNumber l1Info of
       None \<Rightarrow> Inl (Panic ''math/big: buffer too small to fit value'')
     | Some dep \<Rightarrow>
         (case MarshalDepositTx codec dep of
            Inl c \<Rightarrow> Inl (Plain ''failed to encode L1 info tx'')
          | Inr opaqueL1Tx \<Rightarrow> Inr opaqueL1Tx))"

section \<open>Block references of payloads\<close>

definition PayloadToBlockRef :: "tx_codec \<Rightarrow> execution_payload \<Rightarrow> genesis \<Rightarrow> cause + l2_block_ref" where
  "PayloadToBlockRef codec payload gen =
    (let origin =
       (if pl_BlockNumber payload = id_Number (gen_L2 gen) then
          (if pl_BlockHash payload \<noteq> id_Hash (gen_L2 gen)
           then Inl ''expected L2 genesis hash to match L2 block at genesis block number''
           else Inr (gen_L1 gen, 0))
        else (case pl_Transactions payload of
            [] \<Rightarrow> Inl ''l2 block is missing L1 info deposit tx''
          | opaque # _ \<Rightarrow>
              (case UnmarshalTx codec opaque of
                 Inl c \<Rightarrow> Inl ''failed to decode first tx to read l1 info from''
               | Inr tx \<Rightarrow>
                   if tx2_Type tx \<noteq> DepositTxType then Inl ''first payload tx has unexpected tx type''
                   else (case L1InfoDepositTxData (tx2_Data tx) of
                       Inl c \<Rightarrow> Inl ''failed to parse L1 info deposit tx from L2 block''
                     | Inr info \<Rightarrow>
                         Inr (\<lparr>id_Hash = li_BlockHash info, id_Number = li_Number info\<rparr>,
                              li_SequenceNumber info)))))
     in case origin of
          Inl c \<Rightarrow> Inl c
        | Inr (l1Origin, sequenceNumber) \<Rightarrow>
            Inr \<lparr>l2_Hash = pl_BlockHash payload, l2_Number = pl_BlockNumber payload,
              l2_ParentHash = pl_ParentHash payload, l2_Time = pl_Timestamp payload,
              l2_L1Origin = l1Origin, l2_SequenceNumber = sequenceNumber\<rparr>)"

lemma PayloadToBlockRef_fields:
  assumes "PayloadToBlockRef codec payload gen = Inr ref"
  shows "l2_Hash ref = pl_BlockHash payload" "l2_Number ref = pl_BlockNumber payload"
    "l2_ParentHash ref = pl_ParentHash payload" "l2_Time ref = pl_Timestamp payload"
  using assms
  by (auto simp: PayloadToBlockRef_def Let_def split: if_splits list.splits sum.splits)

section \<open>Round trips\<close>

lemma length_L1InfoFuncBytes4 [simp]: "length (L1InfoFuncBytes4 K) = 4"
  by (simp add: L1InfoFuncBytes4_def)

lemma length_padded_u64 [simp]: "length (padded_u64 w) = 32"
  by (simp add: padded_u64_def)

lemma FillBytes32_length: "FillBytes32 x = Some bs \<Longrightarrow> length bs = 32"
  by (auto simp: FillBytes32_def split: if_splits)

lemma FillBytes32_val: "FillBytes32 x = Some bs \<Longrightarrow> int (be_val bs) = \<bar>x\<bar>"
  by (auto simp: FillBytes32_def be_val_be_bytes split: if_splits)

text \<open>What the decoder sees in a well-formed call of \<^verbatim>\<open>setL1BlockValues\<close>.\<close>

lemma L1BlockInfo_Unmarshal_layout:
  assumes "length sel = 4" and "length fee = 32"
  shows "L1BlockInfo_UnmarshalBinary
      (sel @ padded_u64 n @ padded_u64 t @ fee @ word_bytes h @ padded_u64 s)
    = Inr \<lparr>li_Number = n, li_Time = t, li_BaseFee = int (be_val fee), li_BlockHash = h,
           li_SequenceNumber = s\<rparr>"
  using assms
  by (simp add: L1BlockInfo_UnmarshalBinary_def slice_def padded_u64_def)

text \<open>
  The L1 attributes survive the trip through an L2 block: what \<^verbatim>\<open>MarshalBinary\<close> writes,
  \<^verbatim>\<open>UnmarshalBinary\<close> reads back unchanged, for every block number, time, hash, sequence number and
  every base fee of at most 256 bits.
\<close>

lemma L1BlockInfo_roundtrip:
  assumes "0 \<le> li_BaseFee info" and "li_BaseFee info < 2 ^ 256"
  shows "\<exists>data. L1BlockInfo_MarshalBinary K info = Some data \<and> L1BlockInfo_UnmarshalBinary data = Inr info"
proof -
  have "nat \<bar>li_BaseFee info\<bar> < 256 ^ 32"
    using assms by (simp add: nat_less_iff)
  then obtain fee where fee: "FillBytes32 (li_BaseFee info) = Some fee"
    by (simp add: FillBytes32_def)
  from FillBytes32_length [OF fee] FillBytes32_val [OF fee] assms(1) fee show ?thesis
    by (simp add: L1BlockInfo_MarshalBinary_def L1BlockInfo_Unmarshal_layout)
qed

text \<open>What the L1 attributes deposit of an L1 block says when it is read back.\<close>

lemma L1InfoDepositTxData_deposit:
  assumes "L1InfoDepositBytes K codec seq info = Inr opaque"
  obtains dep fee where "MarshalDepositTx codec dep = Inr opaque"
    "L1InfoDepositTxData (dep_Data dep) = Inr \<lparr>li_Number = bi_NumberU64 info, li_Time = bi_Time info,
       li_BaseFee = int (be_val fee), li_BlockHash = bi_Hash info, li_SequenceNumber = seq\<rparr>"
proof -
  from assms obtain fee where fee: "FillBytes32 (bi_BaseFee info) = Some fee"
    by (auto simp: L1InfoDepositBytes_def L1InfoDeposit_def L1BlockInfo_MarshalBinary_def split: option.splits)
  with assms obtain dep where "MarshalDepositTx codec dep = Inr opaque"
    "dep_Data dep = L1InfoFuncBytes4 K @ padded_u64 (bi_NumberU64 info) @ padded_u64 (bi_Time info) @ fee
       @ word_bytes (bi_Hash info) @ padded_u64 seq"
    by (auto simp: L1InfoDepositBytes_def L1InfoDeposit_def L1BlockInfo_MarshalBinary_def split: sum.splits)
  with FillBytes32_length [OF fee] show ?thesis
    by (intro that [of dep fee]) (simp_all add: L1InfoDepositTxData_def L1BlockInfo_Unmarshal_layout)
qed

text \<open>
  An L2 block that starts with the L1 attributes deposit of an L1 block reports that block as its
  origin: provided go-ethereum decodes the deposit transaction it encoded, \<^verbatim>\<open>PayloadToBlockRef\<close> of a
  payload after genesis, whose first transaction is \<^verbatim>\<open>L1InfoDepositBytes\<close> for sequence number \<open>seq\<close> and
  L1 block \<open>info\<close>, has that block's hash and number as L1 origin and \<open>seq\<close> as sequence number.
\<close>

lemma PayloadToBlockRef_origin:
  assumes codec: "\<And>dep bs. MarshalDepositTx codec dep = Inr bs \<Longrightarrow>
      UnmarshalTx codec bs = Inr \<lparr>tx2_Type = DepositTxType, tx2_Data = dep_Data dep\<rparr>"
    and first: "L1InfoDepositBytes K codec seq info = Inr opaque"
    and payload: "pl_Transactions payload = opaque # txs" "pl_BlockNumber payload \<noteq> id_Number (gen_L2 gen)"
  shows "\<exists>ref. PayloadToBlockRef codec payload gen = Inr ref
    \<and> l2_L1Origin ref = \<lparr>id_Hash = bi_Hash info, id_Number = bi_NumberU64 info\<rparr>
    \<and> l2_SequenceNumber ref = seq
    \<and> l2_Hash ref = pl_BlockHash payload \<and> l2_Number ref = pl_BlockNumber payload"
proof -
  obtain dep fee where dep: "MarshalDepositTx codec dep = Inr opaque"
    "L1InfoDepositTxData (dep_Data dep) = Inr \<lparr>li_Number = bi_NumberU64 info, li_Time = bi_Time info,
       li_BaseFee = int (be_val fee), li_BlockHash = bi_Hash info, li_SequenceNumber = seq\<rparr>"
    by (rule L1InfoDepositTxData_deposit [OF first])
  from payload codec [OF dep(1)] dep(2) show ?thesis by (simp add: PayloadToBlockRef_def)
qed

text \<open>A codec with the round trip: the transaction type, then the call data.\<close>

definition sample_codec :: tx_codec where
  "sample_codec = \<lparr>MarshalDepositTx = (\<lambda>dep. Inr (DepositTxType # dep_Data dep)),
     UnmarshalTx = (\<lambda>bs. case bs of [] \<Rightarrow> Inl ''empty typed transaction bytes''
       | b # d \<Rightarrow> Inr \<lparr>tx2_Type = b, tx2_Data = d\<rparr>)\<rparr>"

lemma sample_codec_roundtrip:
  "MarshalDepositTx sample_codec dep = Inr bs \<Longrightarrow>
     UnmarshalTx sample_codec bs = Inr \<lparr>tx2_Type = DepositTxType, tx2_Data = dep_Data dep\<rparr>"
  by (auto simp: sample_codec_def)

definition sample_info :: block_info where
  "sample_info = \<lparr>bi_Hash = 42, bi_ParentHash = 41, bi_Coinbase = 0, bi_Root = 0, bi_NumberU64 = 5, bi_Time = 100,
     bi_MixDigest = 0, bi_BaseFee = 7, bi_ReceiptHash = 0\<rparr>"

definition sample_payload :: execution_payload where
  "sample_payload = \<lparr>pl_ParentHash = 1, pl_FeeRecipient = 0, pl_StateRoot = 0, pl_ReceiptsRoot = 0,
     pl_LogsBloom = 0, pl_PrevRandao = 0, pl_BlockNumber = 9, pl_GasLimit = 0, pl_GasUsed = 0,
     pl_Timestamp = 102, pl_ExtraData = [], pl_BaseFeePerGas = 0, pl_BlockHash = 2,
     pl_Transactions = [projr (L1InfoDepositBytes (\<lambda>bs. 0) sample_codec 3 sample_info)]\<rparr>"

end
