(* ===== verification/Batches.thy ===== *)
theory Batches
  imports L1_Info
begin

text \<open>
  Batches: \<^verbatim>\<open>batch.go\<close> and \<^verbatim>\<open>batches.go\<close> of \<^verbatim>\<open>op-node/rollup/derive\<close>. The RLP encoding of go-ethereum
  and the zlib format are parameters of the encoding functions; \<^verbatim>\<open>CheckBatch\<close> needs neither.
\<close>

record batch_data =
  bt_ParentHash :: hash
  bt_EpochNum :: u64
  bt_EpochHash :: hash
  bt_Timestamp :: u64
  bt_Transactions :: "bytes list"

definition BatchV1_Epoch :: "batch_data \<Rightarrow> block_id" where
  "BatchV1_Epoch b = \<lparr>id_Hash = bt_EpochHash b, id_Number = bt_EpochNum b\<rparr>"

definition BatchV1Type :: byte where "BatchV1Type = 0"

section \<open>Encoding\<close>

text \<open>
  A decompressing reader as its caller sees it: the bytes still to come, what follows them (\<open>None\<close> for
  the end of the stream, otherwise the error), and how many more bytes the RLP stream may read.
\<close>

record rlp_stream =
  rs_data :: bytes
  rs_end :: "cause option"
  rs_limit :: nat

datatype read_err = ReadEOF | ReadError cause

record batch_codec =
  rlp_EncodeBatchV1 :: "batch_data \<Rightarrow> bytes"
  rlp_DecodeBatchV1 :: "bytes \<Rightarrow> cause + batch_data"
  rlp_EncodeBytes :: "bytes \<Rightarrow> bytes"
  rlp_Stream_Bytes :: "rlp_stream \<Rightarrow> (read_err + bytes) \<times> rlp_stream"
  zlib_NewReader :: "bytes \<Rightarrow> cause + bytes \<times> cause option"

definition BatchData_encodeTyped :: "batch_codec \<Rightarrow> batch_data \<Rightarrow> bytes" where
  "BatchData_encodeTyped C b = BatchV1Type # rlp_EncodeBatchV1 C b"

definition BatchData_MarshalBinary :: "batch_codec \<Rightarrow> batch_data \<Rightarrow> bytes" where
  "BatchData_MarshalBinary C b = BatchData_encodeTyped C b"

definition BatchData_EncodeRLP :: "batch_codec \<Rightarrow> batch_data \<Rightarrow> bytes" where
  "BatchData_EncodeRLP C b = rlp_EncodeBytes C (BatchData_encodeTyped C b)"

definition BatchData_decodeTyped :: "batch_codec \<Rightarrow> bytes \<Rightarrow> cause + batch_data" where
  "BatchData_decodeTyped C data =
    (case data of
       [] \<Rightarrow> Inl ''batch too short''
     | t # d \<Rightarrow> if t = BatchV1Type then rlp_DecodeBatchV1 C d else Inl ''unrecognized batch type'')"

definition BatchData_UnmarshalBinary :: "batch_codec \<Rightarrow> bytes \<Rightarrow> cause + batch_data" where
  "BatchData_UnmarshalBinary C data = BatchData_decodeTyped C data"

definition BatchData_DecodeRLP :: "batch_codec \<Rightarrow> rlp_stream \<Rightarrow> (read_err + batch_data) \<times> rlp_stream" where
  "BatchData_DecodeRLP C s =
    (case rlp_Stream_Bytes C s of
       (Inl e, s) \<Rightarrow> (Inl e, s)
     | (Inr v, s) \<Rightarrow>
         (case BatchData_decodeTyped C v of
            Inl c \<Rightarrow> (Inl (ReadError c), s)
          | Inr b \<Rightarrow> (Inr b, s)))"

section \<open>Validity of a batch\<close>

record batch_with_l1 =
  bw_L1InclusionBlock :: l1_block_ref
  bw_Batch :: batch_data

datatype batch_validity = BatchDrop | BatchAccept | BatchUndecided | BatchFuture

text \<open>The loop over the transactions: it finds the first that is empty or a deposit.\<close>

fun has_invalid_tx :: "bytes list \<Rightarrow> bool" where
  "has_invalid_tx [] = False"
| "has_invalid_tx (txBytes # txs) =
    (if length txBytes = 0 then True
     else if txBytes ! 0 = DepositTxType then True
     else has_invalid_tx txs)"

text \<open>The choice of \<^verbatim>\<open>batchOrigin\<close> among the epoch and the L1 blocks after it, or the verdict.\<close>

definition select_batch_origin ::
    "l1_block_ref \<Rightarrow> l1_block_ref list \<Rightarrow> u64 \<Rightarrow> batch_validity + l1_block_ref" where
  "select_batch_origin epoch l1Rest epochNum =
    (if epochNum < l1_Number epoch then Inl BatchDrop
     else if epochNum = l1_Number epoch then Inr epoch
     else if epochNum = l1_Number epoch + 1 then
       (case l1Rest of [] \<Rightarrow> Inl BatchUndecided | nextBlock # _ \<Rightarrow> Inr nextBlock)
     else Inl BatchDrop)"

definition CheckBatch ::
    "config \<Rightarrow> l1_block_ref list \<Rightarrow> l2_block_ref \<Rightarrow> batch_with_l1 \<Rightarrow> batch_validity" where
  "CheckBatch cfg l1Blocks l2SafeHead batch =
    (let b = bw_Batch batch in
     case l1Blocks of
       [] \<Rightarrow> BatchUndecided
     | epoch # l1Rest \<Rightarrow>
    if l1_Hash epoch \<noteq> id_Hash (l2_L1Origin l2SafeHead) then BatchUndecided
    else let nextTimestamp = l2_Time l2SafeHead + BlockTime cfg in
    if bt_Timestamp b > nextTimestamp then BatchFuture
    else if bt_Timestamp b < nextTimestamp then BatchDrop
    else if bt_ParentHash b \<noteq> l2_Hash l2SafeHead then BatchDrop
    else if bt_EpochNum b + SeqWindowSize cfg < l1_Number (bw_L1InclusionBlock batch) then BatchDrop
    else case select_batch_origin epoch l1Rest (bt_EpochNum b) of
        Inl verdict \<Rightarrow> verdict
      | Inr batchOrigin \<Rightarrow>
    if bt_EpochHash b \<noteq> l1_Hash batchOrigin then BatchDrop
    else if bt_Timestamp b > l1_Time batchOrigin + MaxSequencerDrift cfg then BatchDrop
    else if has_invalid_tx (bt_Transactions b) then BatchDrop
    else BatchAccept)"

lemma has_invalid_tx_iff:
  "has_invalid_tx txs \<longleftrightarrow> (\<exists>tx\<in>set txs. tx = [] \<or> hd tx = DepositTxType)"
  by (induction txs) (auto simp: hd_conv_nth)

text \<open>
  The L1 origin a batch asks for, among the L1 blocks known so far: the epoch of the safe head or the
  block after it.
\<close>

definition batch_origin :: "l1_block_ref list \<Rightarrow> batch_data \<Rightarrow> l1_block_ref option" where
  "batch_origin bs b = find (\<lambda>o'. l1_Number o' = bt_EpochNum b) (take 2 bs)"

text \<open>
  The rules for a valid next batch, in the terms of the derivation specification: it extends the safe
  head by one block time, was included within the sequencing window, adopts the origin of the safe
  head or the L1 block after it, does not run ahead of that origin by more than the allowed drift and
  carries no empty transactions and no deposits.
\<close>

definition valid_batch :: "config \<Rightarrow> l1_block_ref list \<Rightarrow> l2_block_ref \<Rightarrow> batch_with_l1 \<Rightarrow> bool" where
  "valid_batch cfg bs safe bw \<longleftrightarrow>
     (let b = bw_Batch bw in
      bs \<noteq> [] \<and> l1_Hash (hd bs) = id_Hash (l2_L1Origin safe)
      \<and> bt_Timestamp b = l2_Time safe + BlockTime cfg
      \<and> bt_ParentHash b = l2_Hash safe
      \<and> l1_Number (bw_L1InclusionBlock bw) \<le> bt_EpochNum b + SeqWindowSize cfg
      \<and> (\<exists>origin. batch_origin bs b = Some origin
           \<and> bt_EpochHash b = l1_Hash origin
           \<and> bt_Timestamp b \<le> l1_Time origin + MaxSequencerDrift cfg)
      \<and> (\<forall>tx\<in>set (bt_Transactions b). tx \<noteq> [] \<and> hd tx \<noteq> DepositTxType))"

text \<open>The L1 blocks the batch queue hands to \<^verbatim>\<open>CheckBatch\<close>: consecutive and linked by their hashes.\<close>

definition l1_chain :: "l1_block_ref list \<Rightarrow> bool" where
  "l1_chain bs \<longleftrightarrow> successively
     (\<lambda>a b. unat (l1_Number b) = unat (l1_Number a) + 1 \<and> l1_ParentHash b = l1_Hash a) bs"

lemma l1_chain_simps [simp]:
  "l1_chain []" "l1_chain [b]"
  "l1_chain (a # b # bs) \<longleftrightarrow>
     unat (l1_Number b) = unat (l1_Number a) + 1 \<and> l1_ParentHash b = l1_Hash a \<and> l1_chain (b # bs)"
  by (auto simp: l1_chain_def)

lemma l1_chain_tl: "l1_chain bs \<Longrightarrow> l1_chain (tl bs)"
  by (cases bs rule: remdups_adj.cases) auto

lemma l1_chain_append:
  "l1_chain (bs @ [b]) \<longleftrightarrow> l1_chain bs \<and>
     (bs = [] \<or> (unat (l1_Number b) = unat (l1_Number (last bs)) + 1 \<and> l1_ParentHash b = l1_Hash (last bs)))"
  by (auto simp: l1_chain_def successively_append_iff)

lemma unat_succ_word:
  assumes "unat (b :: u64) = unat a + 1"
  shows "b = a + 1"
proof -
  have "b = word_of_nat (unat b)" by simp
  also have "\<dots> = a + 1" by (simp only: assms of_nat_add of_nat_unat ucast_id of_nat_1)
  finally show ?thesis .
qed

lemma l1_chain_next:
  assumes "l1_chain (a # b # bs)"
  shows "l1_Number b = l1_Number a + 1" "l1_Number a < l1_Number b" "l1_Number b \<noteq> l1_Number a"
  using assms unat_succ_word by (auto simp: word_less_nat_alt)

section \<open>Correctness of \<^verbatim>\<open>CheckBatch\<close>\<close>

lemma select_batch_origin_never_accepts [simp]: "select_batch_origin e r n \<noteq> Inl BatchAccept"
  by (simp add: select_batch_origin_def split: list.split)

text \<open>The verdict by the timestamp of the batch, and for one that has the next timestamp.\<close>

lemma CheckBatch_wrong_epoch:
  "l1_Hash epoch \<noteq> id_Hash (l2_L1Origin safe) \<Longrightarrow> CheckBatch cfg (epoch # rest) safe bw = BatchUndecided"
  by (simp add: CheckBatch_def Let_def)

lemma CheckBatch_other_time:
  assumes "l1_Hash epoch = id_Hash (l2_L1Origin safe)"
    and "bt_Timestamp (bw_Batch bw) \<noteq> l2_Time safe + BlockTime cfg"
  shows "CheckBatch cfg (epoch # rest) safe bw =
    (if l2_Time safe + BlockTime cfg < bt_Timestamp (bw_Batch bw) then BatchFuture else BatchDrop)"
proof (cases "l2_Time safe + BlockTime cfg < bt_Timestamp (bw_Batch bw)")
  case True
  with assms show ?thesis by (simp add: CheckBatch_def Let_def)
next
  case False
  with assms(2) have "bt_Timestamp (bw_Batch bw) < l2_Time safe + BlockTime cfg" by simp
  with assms False show ?thesis by (simp add: CheckBatch_def Let_def)
qed

lemma CheckBatch_on_time:
  assumes "l1_Hash epoch = id_Hash (l2_L1Origin safe)"
    and "bt_Timestamp (bw_Batch bw) = l2_Time safe + BlockTime cfg"
  shows "CheckBatch cfg (epoch # rest) safe bw =
    (if bt_ParentHash (bw_Batch bw) \<noteq> l2_Hash safe
       \<or> bt_EpochNum (bw_Batch bw) + SeqWindowSize cfg < l1_Number (bw_L1InclusionBlock bw)
     then BatchDrop
     else case select_batch_origin epoch rest (bt_EpochNum (bw_Batch bw)) of
         Inl verdict \<Rightarrow> verdict
       | Inr origin \<Rightarrow>
           if bt_EpochHash (bw_Batch bw) \<noteq> l1_Hash origin
             \<or> l1_Time origin + MaxSequencerDrift cfg < bt_Timestamp (bw_Batch bw)
             \<or> has_invalid_tx (bt_Transactions (bw_Batch bw))
           then BatchDrop else BatchAccept)"
  using assms by (simp add: CheckBatch_def Let_def split: sum.split)

lemma CheckBatch_accept_cases:
  "CheckBatch cfg (epoch # rest) safe bw = BatchAccept \<longleftrightarrow>
     l1_Hash epoch = id_Hash (l2_L1Origin safe)
     \<and> bt_Timestamp (bw_Batch bw) = l2_Time safe + BlockTime cfg
     \<and> bt_ParentHash (bw_Batch bw) = l2_Hash safe
     \<and> l1_Number (bw_L1InclusionBlock bw) \<le> bt_EpochNum (bw_Batch bw) + SeqWindowSize cfg
     \<and> (\<exists>origin. select_batch_origin epoch rest (bt_EpochNum (bw_Batch bw)) = Inr origin
        \<and> bt_EpochHash (bw_Batch bw) = l1_Hash origin
        \<and> bt_Timestamp (bw_Batch bw) \<le> l1_Time origin + MaxSequencerDrift cfg)
     \<and> \<not> has_invalid_tx (bt_Transactions (bw_Batch bw))"
proof (cases "l1_Hash epoch = id_Hash (l2_L1Origin safe) \<and> bt_Timestamp (bw_Batch bw) = l2_Time safe + BlockTime cfg")
  case True
  then show ?thesis
    using select_batch_origin_never_accepts [of epoch rest "bt_EpochNum (bw_Batch bw)"]
    by (cases "select_batch_origin epoch rest (bt_EpochNum (bw_Batch bw))")
      (auto simp: CheckBatch_on_time not_less)
next
  case False
  then show ?thesis
    by (cases "l1_Hash epoch = id_Hash (l2_L1Origin safe)")
      (auto simp: CheckBatch_wrong_epoch CheckBatch_other_time)
qed

lemma select_batch_origin_iff:
  assumes "l1_chain (epoch # rest)"
  shows "select_batch_origin epoch rest (bt_EpochNum b) = Inr origin
    \<longleftrightarrow> batch_origin (epoch # rest) b = Some origin"
proof (cases rest)
  case Nil
  then show ?thesis by (auto simp: batch_origin_def select_batch_origin_def)
next
  case (Cons n ns)
  have n: "l1_Number n = l1_Number epoch + 1" "l1_Number epoch < l1_Number n"
    using l1_chain_next [of epoch n ns] assms Cons by blast+
  show ?thesis
  proof (cases "bt_EpochNum b = l1_Number n")
    case True
    with n show ?thesis by (simp add: Cons batch_origin_def select_batch_origin_def)
  next
    case False
    with n show ?thesis by (simp add: Cons batch_origin_def select_batch_origin_def)
  qed
qed

lemma select_batch_origin_stable:
  "select_batch_origin epoch rest n \<noteq> Inl BatchUndecided \<Longrightarrow>
     select_batch_origin epoch (rest @ later) n = select_batch_origin epoch rest n"
  by (cases rest) (auto simp: select_batch_origin_def)

lemma CheckBatch_accept_valid:
  assumes "l1_chain bs"
  shows "CheckBatch cfg bs safe bw = BatchAccept \<longleftrightarrow> valid_batch cfg bs safe bw"
proof (cases bs)
  case Nil
  then show ?thesis by (simp add: CheckBatch_def valid_batch_def Let_def)
next
  case (Cons epoch rest)
  with select_batch_origin_iff assms have
    "select_batch_origin epoch rest (bt_EpochNum b) = Inr origin \<longleftrightarrow> batch_origin (epoch # rest) b = Some origin"
    for b origin by blast
  then show ?thesis
    unfolding Cons CheckBatch_accept_cases valid_batch_def Let_def has_invalid_tx_iff list.sel by blast
qed


definition sample_l1 :: "l1_block_ref list" where
  "sample_l1 = [\<lparr>l1_Hash = 10, l1_Number = 5, l1_ParentHash = 9, l1_Time = 100\<rparr>,
     \<lparr>l1_Hash = 11, l1_Number = 6, l1_ParentHash = 10, l1_Time = 112\<rparr>]"

definition sample_safe :: l2_block_ref where
  "sample_safe = \<lparr>l2_Hash = 77, l2_Number = 3, l2_ParentHash = 76, l2_Time = 104,
     l2_L1Origin = \<lparr>id_Hash = 10, id_Number = 5\<rparr>, l2_SequenceNumber = 0\<rparr>"

definition sample_batch :: batch_with_l1 where
  "sample_batch = \<lparr>bw_L1InclusionBlock = sample_l1 ! 1,
     bw_Batch = \<lparr>bt_ParentHash = 77, bt_EpochNum = 5, bt_EpochHash = 10, bt_Timestamp = 106,
       bt_Transactions = [[2, 1]]\<rparr>\<rparr>"

lemmas sample_batch_defs = sample_l1_def sample_safe_def sample_batch_def sample_config_def


text \<open>
  Deciding early is safe: a verdict other than undecided, reached with the L1 blocks known so far,
  stays the same when more L1 blocks become known. So the eager algorithm never diverges from one that
  waits for all L1 blocks.
\<close>

lemma CheckBatch_stable:
  assumes "CheckBatch cfg bs safe bw \<noteq> BatchUndecided"
  shows "CheckBatch cfg (bs @ later) safe bw = CheckBatch cfg bs safe bw"
proof (cases bs)
  case Nil
  with assms show ?thesis by (simp add: CheckBatch_def Let_def)
next
  case (Cons epoch rest)
  let ?sel = "\<lambda>rest. select_batch_origin epoch rest (bt_EpochNum (bw_Batch bw))"
  show ?thesis
  proof (cases "?sel rest = Inl BatchUndecided")
    case True
    have "l1_Hash epoch = id_Hash (l2_L1Origin safe)"
      using assms CheckBatch_wrong_epoch Cons by blast
    with assms True show ?thesis
      by (cases "bt_Timestamp (bw_Batch bw) = l2_Time safe + BlockTime cfg")
        (auto simp: Cons CheckBatch_on_time CheckBatch_other_time split: if_split_asm)
  next
    case False
    then have "?sel (rest @ later) = ?sel rest" by (rule select_batch_origin_stable)
    then show ?thesis by (simp add: Cons CheckBatch_def Let_def)
  qed
qed

text \<open>
  \<^verbatim>\<open>CheckBatch\<close> does not keep the L2 time at or above the time of the L1 origin: a batch that adopts the
  next L1 block as its origin is accepted although its timestamp lies before the time of that block.
  The check of \<^verbatim>\<open>timestamp >= batchOrigin.Time\<close> is missing.
\<close>

lemma CheckBatch_accepts_origin_ahead_of_time:
  "\<exists>bw. CheckBatch sample_config sample_l1 sample_safe bw = BatchAccept
     \<and> batch_origin sample_l1 (bw_Batch bw) = Some (sample_l1 ! 1)
     \<and> bt_Timestamp (bw_Batch bw) < l1_Time (sample_l1 ! 1)"
  by (rule exI [of _ "\<lparr>bw_L1InclusionBlock = sample_l1 ! 1,
       bw_Batch = \<lparr>bt_ParentHash = 77, bt_EpochNum = 6, bt_EpochHash = 11, bt_Timestamp = 106,
         bt_Transactions = []\<rparr>\<rparr>"])
    (simp add: CheckBatch_def select_batch_origin_def batch_origin_def sample_batch_defs Let_def)

end
