(* ===== verification/Frames.thy ===== *)
theory Frames
  imports Rollup_Types
begin

text \<open>
  Frames of the batcher's data transactions: \<^verbatim>\<open>op-node/rollup/derive/frame.go\<close> and the constants of
  \<^verbatim>\<open>params.go\<close>. A frame is serialised as
  \<^verbatim>\<open>channel_id (16) ++ frame_number (2) ++ frame_data_length (4) ++ frame_data ++ is_last (1)\<close>.
\<close>

type_synonym channel_id = "128 word"

definition MaxFrameLen :: nat where "MaxFrameLen = 1000000"
definition frameOverhead :: u64 where "frameOverhead = 200"
definition DerivationVersion0 :: byte where "DerivationVersion0 = 0"

record frame =
  f_ID :: channel_id
  f_FrameNumber :: u16
  f_Data :: bytes
  f_IsLast :: bool

definition zero_frame :: frame where
  "zero_frame = \<lparr>f_ID = 0, f_FrameNumber = 0, f_Data = [], f_IsLast = False\<rparr>"

text \<open>\<^verbatim>\<open>Frame.MarshalBinary\<close> into a buffer, whose writes never fail.\<close>

definition Frame_MarshalBinary :: "frame \<Rightarrow> bytes" where
  "Frame_MarshalBinary f =
     word_bytes (f_ID f) @ word_bytes (f_FrameNumber f)
     @ word_bytes (word_of_nat (length (f_Data f)) :: u32) @ f_Data f
     @ (if f_IsLast f then [1] else [0])"

text \<open>
  \<^verbatim>\<open>io.ReadFull\<close> on a \<^verbatim>\<open>bytes.Buffer\<close>: the bytes read, or \<open>None\<close> with the buffer drained.
  A read error other than \<^verbatim>\<open>io.EOF\<close> of the last byte is wrapped by the caller, so it never
  compares equal to \<^verbatim>\<open>io.EOF\<close>.
\<close>

definition ReadFull :: "nat \<Rightarrow> bytes \<Rightarrow> bytes option \<times> bytes" where
  "ReadFull n buf = (if n \<le> length buf then (Some (take n buf), drop n buf) else (None, []))"

datatype frame_err = IoEOF | FrameError cause

text \<open>
  \<^verbatim>\<open>Frame.UnmarshalBinary\<close>: the error (\<open>None\<close> for nil), the frame as far as it was filled in, and the
  rest of the buffer. \<^verbatim>\<open>ReadByte\<close> on an empty buffer returns the byte 0 together with \<^verbatim>\<open>io.EOF\<close>.
\<close>

definition Frame_UnmarshalBinary :: "frame \<Rightarrow> bytes \<Rightarrow> frame_err option \<times> frame \<times> bytes" where
  "Frame_UnmarshalBinary f r =
    (case ReadFull 16 r of (None, r) \<Rightarrow> (Some (FrameError ''error reading ID''), f, r)
     | (Some ident, r) \<Rightarrow> let f = f\<lparr>f_ID := bytes_word ident\<rparr> in
    (case ReadFull 2 r of (None, r) \<Rightarrow> (Some (FrameError ''error reading frame number''), f, r)
     | (Some num, r) \<Rightarrow> let f = f\<lparr>f_FrameNumber := bytes_word num\<rparr> in
    (case ReadFull 4 r of (None, r) \<Rightarrow> (Some (FrameError ''error reading frame length''), f, r)
     | (Some len, r) \<Rightarrow> let frameLength = unat (bytes_word len :: u32) in
    if frameLength > MaxFrameLen then (Some (FrameError ''frameLength is too large''), f, r)
    else
    (case ReadFull frameLength r of (None, r) \<Rightarrow> (Some (FrameError ''error reading frame data''), f, r)
     | (Some d, r) \<Rightarrow> let f = f\<lparr>f_Data := d\<rparr>;
         (isLastByte, err, r) = (case r of [] \<Rightarrow> (0, Some IoEOF, []) | b # r' \<Rightarrow> (b, None, r')) in
       if isLastByte = 0 then (err, f\<lparr>f_IsLast := False\<rparr>, r)
       else if isLastByte = 1 then (err, f\<lparr>f_IsLast := True\<rparr>, r)
       else (Some (FrameError ''invalid byte as is_last''), f, r)))))"

lemma ReadFull_append [simp]: "length xs = n \<Longrightarrow> ReadFull n (xs @ ys) = (Some xs, ys)"
  by (simp add: ReadFull_def)

lemma ReadFull_all [simp]: "ReadFull (length xs) xs = (Some xs, [])"
  by (simp add: ReadFull_def)

lemma ReadFull_None [simp]: "length xs < n \<Longrightarrow> ReadFull n xs = (None, [])"
  by (simp add: ReadFull_def)

lemma ReadFull_length:
  "ReadFull n buf = (Some bs, r) \<Longrightarrow> length bs = n \<and> buf = bs @ r"
  by (auto simp: ReadFull_def split: if_splits)

lemma bytes_word_channel_id [simp, byte_simps]: "bytes_word (word_bytes (w :: channel_id)) = w"
  by (rule bytes_word_word_bytes) simp

lemma Frame_UnmarshalBinary_consumes:
  assumes "Frame_UnmarshalBinary f buf = (e, g, r)" and "e = None \<or> e = Some IoEOF"
  shows "length r < length buf"
  using assms
  by (auto simp: Frame_UnmarshalBinary_def Let_def dest!: ReadFull_length
      split: option.splits prod.splits if_splits list.splits)

text \<open>The loop of \<^verbatim>\<open>ParseFrames\<close> over the buffer.\<close>

function ParseFrames_loop :: "bytes \<Rightarrow> frame list \<Rightarrow> cause + frame list" where
  "ParseFrames_loop buf frames =
    (if buf = [] then Inr frames
     else case Frame_UnmarshalBinary zero_frame buf of
         (Some (FrameError c), f, r) \<Rightarrow> Inl c
       | (None, f, r) \<Rightarrow> ParseFrames_loop r (frames @ [f])
       | (Some IoEOF, f, r) \<Rightarrow> ParseFrames_loop r (frames @ [f]))"
  by pat_completeness auto
termination
  by (relation "measure (\<lambda>(buf, frames). length buf)")
    (auto dest: Frame_UnmarshalBinary_consumes [OF sym])

declare ParseFrames_loop.simps [simp del]

text \<open>
  \<^verbatim>\<open>ParseFrames\<close>. The loop ends with an empty buffer only, so the code's later check that nothing is
  left over cannot fire.
\<close>

definition ParseFrames :: "bytes \<Rightarrow> cause + frame list" where
  "ParseFrames data =
    (case data of
       [] \<Rightarrow> Inl ''data array must not be empty''
     | v # buf \<Rightarrow>
         if v \<noteq> DerivationVersion0 then Inl ''invalid derivation format byte''
         else (case ParseFrames_loop buf [] of
             Inl c \<Rightarrow> Inl c
           | Inr frames \<Rightarrow>
               if frames = [] then Inl ''was not able to find any frames'' else Inr frames))"

section \<open>Round trip\<close>

definition wf_frame :: "frame \<Rightarrow> bool" where
  "wf_frame f \<longleftrightarrow> length (f_Data f) \<le> MaxFrameLen"

lemma frame_length_word: "n \<le> MaxFrameLen \<Longrightarrow> unat (word_of_nat n :: u32) = n"
  by (simp add: MaxFrameLen_def unat_of_nat)

text \<open>The header and the data of a frame, without its final byte.\<close>

definition frame_body :: "frame \<Rightarrow> bytes" where
  "frame_body f =
     word_bytes (f_ID f) @ word_bytes (f_FrameNumber f)
     @ word_bytes (word_of_nat (length (f_Data f)) :: u32) @ f_Data f"

lemma Frame_MarshalBinary_body:
  "Frame_MarshalBinary f = frame_body f @ [if f_IsLast f then 1 else 0]"
  by (simp add: Frame_MarshalBinary_def frame_body_def)

lemma length_frame_body: "length (frame_body f) = 22 + length (f_Data f)"
  by (simp add: frame_body_def)

lemma Frame_UnmarshalBinary_body:
  assumes "wf_frame f"
  shows "Frame_UnmarshalBinary g (frame_body f @ r) =
    (case r of [] \<Rightarrow> (Some IoEOF, f\<lparr>f_IsLast := False\<rparr>, [])
     | b # r' \<Rightarrow>
        if b = 0 then (None, f\<lparr>f_IsLast := False\<rparr>, r')
        else if b = 1 then (None, f\<lparr>f_IsLast := True\<rparr>, r')
        else (Some (FrameError ''invalid byte as is_last''), f\<lparr>f_IsLast := f_IsLast g\<rparr>, r'))"
proof -
  have "length (f_Data f) \<le> MaxFrameLen" using assms by (simp add: wf_frame_def)
  then show ?thesis
    by (cases f; cases g)
      (simp add: frame_body_def Frame_UnmarshalBinary_def Let_def
        frame_length_word split: list.splits)
qed

lemma Frame_roundtrip:
  "wf_frame f \<Longrightarrow> Frame_UnmarshalBinary g (Frame_MarshalBinary f @ r) = (None, f, r)"
  by (cases f) (simp add: Frame_MarshalBinary_body Frame_UnmarshalBinary_body)

lemma Frame_MarshalBinary_nonempty [simp]: "Frame_MarshalBinary f \<noteq> []"
  by (simp add: Frame_MarshalBinary_def)

lemma ParseFrames_loop_Nil [simp]: "ParseFrames_loop [] acc = Inr acc"
  by (simp add: ParseFrames_loop.simps)

interpretation frame_stream: stream_parser Frame_MarshalBinary wf_frame ParseFrames_loop
  by unfold_locales (subst ParseFrames_loop.simps, simp add: Frame_roundtrip)

lemma ParseFrames_loop_frames:
  "list_all wf_frame fs \<Longrightarrow> ParseFrames_loop (concat (map Frame_MarshalBinary fs)) acc = Inr (acc @ fs)"
  using frame_stream.loop_items [of fs "[]" acc] by simp

lemma ParseFrames_loop_truncated:
  assumes "wf_frame f" and "\<not> f_IsLast f"
  shows "ParseFrames_loop (frame_body f) acc = Inr (acc @ [f])"
proof -
  have "f\<lparr>f_IsLast := False\<rparr> = f" using assms(2) by (cases f) simp
  moreover have "frame_body f \<noteq> []" using length_frame_body [of f] by auto
  ultimately show ?thesis
    using Frame_UnmarshalBinary_body [OF assms(1), of zero_frame "[]"]
    by (subst ParseFrames_loop.simps) simp
qed

lemma ParseFrames_one:
  "wf_frame f \<Longrightarrow> ParseFrames (DerivationVersion0 # Frame_MarshalBinary f) = Inr [f]"
  using ParseFrames_loop_frames [of "[f]" "[]"] by (simp add: ParseFrames_def)

text \<open>
  C32. Encoding and parsing frames is a round trip: a data transaction that holds the version byte
  and the serialisation of one or more frames, each with at most \<open>MaxFrameLen\<close> bytes of data, is
  parsed by \<^verbatim>\<open>ParseFrames\<close> into exactly those frames, in order.
\<close>

theorem ParseFrames_roundtrip:
  assumes "fs \<noteq> []" and "list_all wf_frame fs"
  shows "ParseFrames (DerivationVersion0 # concat (map Frame_MarshalBinary fs)) = Inr fs"
  using assms by (simp add: ParseFrames_def ParseFrames_loop_frames)

theorem ParseFrames_roundtrip_witness:
  "ParseFrames (DerivationVersion0 # concat (map Frame_MarshalBinary
      [\<lparr>f_ID = 7, f_FrameNumber = 0, f_Data = [1, 2], f_IsLast = False\<rparr>,
       \<lparr>f_ID = 7, f_FrameNumber = 1, f_Data = [], f_IsLast = True\<rparr>]))
   = Inr [\<lparr>f_ID = 7, f_FrameNumber = 0, f_Data = [1, 2], f_IsLast = False\<rparr>,
          \<lparr>f_ID = 7, f_FrameNumber = 1, f_Data = [], f_IsLast = True\<rparr>]"
  by (rule ParseFrames_roundtrip) (simp_all add: wf_frame_def MaxFrameLen_def)

text \<open>
  The final byte of the last frame may be missing: \<^verbatim>\<open>ReadByte\<close> then returns the byte 0 with
  \<^verbatim>\<open>io.EOF\<close>, which neither \<^verbatim>\<open>UnmarshalBinary\<close> nor \<^verbatim>\<open>ParseFrames\<close> treats as an error, so a data
  transaction cut off right before the \<^verbatim>\<open>is_last\<close> byte parses as if that byte were 0.
\<close>

lemma ParseFrames_accepts_missing_is_last:
  assumes "list_all wf_frame fs" and "wf_frame f" and "\<not> f_IsLast f"
  shows "ParseFrames (DerivationVersion0 # concat (map Frame_MarshalBinary fs) @ frame_body f)
    = Inr (fs @ [f])"
  using assms frame_stream.loop_items [of fs "frame_body f" "[]"]
  by (simp add: ParseFrames_def ParseFrames_loop_truncated)

end
