(* ===== verification/Channels.thy ===== *)
theory Channels
  imports Frames
begin

text \<open>
  Channels: \<^verbatim>\<open>op-node/rollup/derive/channel.go\<close>. A channel collects the frames of one batcher channel,
  in any order, until the frame marked last and all frames before it have arrived.
\<close>

record channel =
  ch_id :: channel_id
  ch_openBlock :: l1_block_ref
  ch_size :: u64
  ch_closed :: bool
  ch_endFrameNumber :: u16
  ch_inputs :: "(u64 \<times> bytes) list"
  ch_highestL1InclusionBlock :: l1_block_ref

definition NewChannel :: "channel_id \<Rightarrow> l1_block_ref \<Rightarrow> channel" where
  "NewChannel i b =
     \<lparr>ch_id = i, ch_openBlock = b, ch_size = 0, ch_closed = False, ch_endFrameNumber = 0,
      ch_inputs = [], ch_highestL1InclusionBlock = zero_l1\<rparr>"

text \<open>\<^verbatim>\<open>Channel.AddFrame\<close>: the error, \<open>None\<close> for nil, and the channel afterwards.\<close>

definition AddFrame :: "frame \<Rightarrow> l1_block_ref \<Rightarrow> channel \<Rightarrow> cause option \<times> channel" where
  "AddFrame fr l1InclusionBlock ch =
    (if f_ID fr \<noteq> ch_id ch then (Some ''frame id does not match channel id'', ch)
     else if f_IsLast fr \<and> ch_closed ch
       then (Some ''cannot add ending frame to a closed channel'', ch)
     else if map_of (ch_inputs ch) (ucast (f_FrameNumber fr)) \<noteq> None then (Some ''duplicate frame'', ch)
     else
       let ch = (if f_IsLast fr
                 then ch\<lparr>ch_endFrameNumber := f_FrameNumber fr, ch_closed := True\<rparr> else ch);
           ch = (if l1_Number (ch_highestL1InclusionBlock ch) < l1_Number l1InclusionBlock
                 then ch\<lparr>ch_highestL1InclusionBlock := l1InclusionBlock\<rparr> else ch)
       in (None, ch\<lparr>ch_inputs := AList.update (ucast (f_FrameNumber fr)) (f_Data fr) (ch_inputs ch),
             ch_size := ch_size ch + (word_of_nat (length (f_Data fr)) + frameOverhead)\<rparr>))"

definition OpenBlockNumber :: "channel \<Rightarrow> u64" where
  "OpenBlockNumber ch = l1_Number (ch_openBlock ch)"

text \<open>The counter values of \<^verbatim>\<open>for i := uint64(0); i <= uint64(ch.endFrameNumber); i++\<close>.\<close>

definition frame_indices :: "channel \<Rightarrow> u64 list" where
  "frame_indices ch = map word_of_nat [0..<Suc (unat (ch_endFrameNumber ch))]"

definition IsReady :: "channel \<Rightarrow> bool" where
  "IsReady ch \<longleftrightarrow>
     ch_closed ch
     \<and> length (ch_inputs ch) = unat (ch_endFrameNumber ch) + 1
     \<and> list_all (\<lambda>i. map_of (ch_inputs ch) i \<noteq> None) (frame_indices ch)"

text \<open>
  \<^verbatim>\<open>Channel.Reader\<close>, read to its end: the data of the frames in order, \<open>None\<close> where the code panics
  because a frame is missing.
\<close>

definition Reader :: "channel \<Rightarrow> bytes option" where
  "Reader ch = map_option concat (those (map (map_of (ch_inputs ch)) (frame_indices ch)))"

section \<open>The channel invariant\<close>

definition frame_key :: "frame \<Rightarrow> u64" where
  "frame_key f = ucast (f_FrameNumber f)"

lemma unat_frame_key: "unat (ucast (n :: u16) :: u64) = unat n"
proof -
  have "unat n < 2 ^ 64" using unat_u16_less [of n] by (simp del: unat_u16_less)
  then show ?thesis by (simp add: unsigned_ucast_eq take_bit_nat_eq_self)
qed

lemma frame_key_inject [simp]: "frame_key f = frame_key g \<longleftrightarrow> f_FrameNumber f = f_FrameNumber g"
  by (metis frame_key_def unat_frame_key word_unat_eq_iff)

definition frame_cost :: "bytes \<Rightarrow> u64" where
  "frame_cost d = word_of_nat (length d) + frameOverhead"

definition wf_channel :: "channel \<Rightarrow> bool" where
  "wf_channel ch \<longleftrightarrow>
     distinct (keys (ch_inputs ch))
     \<and> ch_size ch = (\<Sum>(k, d)\<leftarrow>ch_inputs ch. frame_cost d)
     \<and> (\<forall>k\<in>set (keys (ch_inputs ch)). unat k < 2 ^ 16)
     \<and> (ch_closed ch \<longrightarrow> ucast (ch_endFrameNumber ch) \<in> set (keys (ch_inputs ch)))"

lemma update_absent: "k \<notin> set (keys m) \<Longrightarrow> AList.update k v m = m @ [(k, v)]"
  by (induction m) auto

lemma map_of_eq_None_keys: "map_of m k = None \<longleftrightarrow> k \<notin> set (keys m)"
  by (simp add: map_of_eq_None_iff)

lemma wf_NewChannel [simp, intro]: "wf_channel (NewChannel i b)"
  by (simp add: wf_channel_def NewChannel_def)

text \<open>What a successful \<open>AddFrame\<close> does, and that a failed one changes nothing.\<close>

lemma AddFrame_fail: "AddFrame f b ch = (Some c, ch') \<Longrightarrow> ch' = ch"
  by (auto simp: AddFrame_def Let_def split: if_splits)

lemma AddFrame_ok:
  assumes "AddFrame f b ch = (None, ch')"
  shows "f_ID f = ch_id ch" "ch_id ch' = ch_id ch" "ch_openBlock ch' = ch_openBlock ch"
    "frame_key f \<notin> set (keys (ch_inputs ch))"
    "ch_inputs ch' = ch_inputs ch @ [(frame_key f, f_Data f)]"
    "ch_size ch' = ch_size ch + frame_cost (f_Data f)"
    "ch_closed ch' \<longleftrightarrow> ch_closed ch \<or> f_IsLast f"
    "ch_endFrameNumber ch' = (if f_IsLast f then f_FrameNumber f else ch_endFrameNumber ch)"
    "f_IsLast f \<Longrightarrow> \<not> ch_closed ch"
  using assms
  by (auto simp: AddFrame_def Let_def frame_key_def frame_cost_def map_of_eq_None_keys
      update_absent simp del: set_map split: if_splits)

lemma AddFrame_succeeds:
  assumes "f_ID f = ch_id ch" and "f_IsLast f \<Longrightarrow> \<not> ch_closed ch"
    and "frame_key f \<notin> set (keys (ch_inputs ch))"
  shows "\<exists>ch'. AddFrame f b ch = (None, ch')"
  using assms
  by (auto simp: AddFrame_def Let_def frame_key_def map_of_eq_None_keys simp del: set_map)

lemma wf_AddFrame:
  assumes "wf_channel ch" and "AddFrame f b ch = (e, ch')"
  shows "wf_channel ch'"
proof (cases e)
  case None
  have key: "unat (frame_key f) < 2 ^ 16"
    by (simp add: frame_key_def unat_frame_key)
  from AddFrame_ok [OF assms(2) [unfolded None]] assms(1) key show ?thesis
    by (auto simp: wf_channel_def frame_key_def)
next
  case (Some c)
  with assms AddFrame_fail show ?thesis by blast
qed

lemma AddFrame_keeps_id [frame_simps]:
  "ch_id (snd (AddFrame f b ch)) = ch_id ch" "ch_openBlock (snd (AddFrame f b ch)) = ch_openBlock ch"
  by (simp_all add: AddFrame_def Let_def)

section \<open>When a channel is ready\<close>

lemma unat_of_index: "n < 2 ^ 16 \<Longrightarrow> unat (word_of_nat n :: u64) = n"
  by (simp add: unat_of_nat)

lemma set_frame_indices: "set (frame_indices ch) = {i. unat i \<le> unat (ch_endFrameNumber ch)}"
proof (intro set_eqI iffI)
  fix i assume "i \<in> set (frame_indices ch)"
  then obtain n where n: "n \<le> unat (ch_endFrameNumber ch)" "i = word_of_nat n"
    by (force simp: frame_indices_def less_Suc_eq_le simp del: upt_Suc)
  then have "n < 2 ^ 16" using le_less_trans [OF n(1) unat_u16_less] by simp
  with n show "i \<in> {i. unat i \<le> unat (ch_endFrameNumber ch)}" by (simp add: unat_of_index)
next
  fix i :: u64 assume "i \<in> {i. unat i \<le> unat (ch_endFrameNumber ch)}"
  then have "unat i \<in> {0..<Suc (unat (ch_endFrameNumber ch))}" "i = word_of_nat (unat i)" by auto
  then show "i \<in> set (frame_indices ch)" unfolding frame_indices_def set_map set_upt by blast
qed

lemma distinct_frame_indices: "distinct (frame_indices ch)"
proof -
  have "unat (ch_endFrameNumber ch) < 2 ^ 16" by simp
  then have "inj_on (word_of_nat :: nat \<Rightarrow> u64) {0..<Suc (unat (ch_endFrameNumber ch))}"
    by (intro inj_onI) (metis atLeastLessThan_iff less_Suc_eq_le le_less_trans unat_of_index)
  then show ?thesis by (simp add: frame_indices_def distinct_map del: upt_Suc)
qed

lemma length_frame_indices: "length (frame_indices ch) = unat (ch_endFrameNumber ch) + 1"
  by (simp add: frame_indices_def)

lemma those_total: "list_all (\<lambda>x. f x \<noteq> None) xs \<Longrightarrow> those (map f xs) = Some (map (\<lambda>x. the (f x)) xs)"
  by (induction xs) auto

text \<open>
  A channel that was filled by \<^verbatim>\<open>AddFrame\<close> is ready exactly when its last frame has arrived and
  the frames it holds are those numbered from 0 to the last one, no more and no fewer.
\<close>

lemma IsReady_iff:
  assumes "wf_channel ch"
  shows "IsReady ch \<longleftrightarrow>
    ch_closed ch \<and> set (keys (ch_inputs ch)) = {i. unat i \<le> unat (ch_endFrameNumber ch)}"
proof -
  have len: "length (ch_inputs ch) = card (set (keys (ch_inputs ch)))"
    using assms distinct_card [of "keys (ch_inputs ch)"] by (simp add: wf_channel_def)
  have card: "card {i :: u64. unat i \<le> unat (ch_endFrameNumber ch)} = unat (ch_endFrameNumber ch) + 1"
    using distinct_card [OF distinct_frame_indices [of ch]]
    by (simp add: set_frame_indices length_frame_indices)
  have all: "list_all (\<lambda>i. map_of (ch_inputs ch) i \<noteq> None) (frame_indices ch) \<longleftrightarrow>
      {i. unat i \<le> unat (ch_endFrameNumber ch)} \<subseteq> set (keys (ch_inputs ch))"
    by (auto simp: list_all_iff set_frame_indices map_of_eq_None_keys simp del: set_map not_None_eq)
  have "card (set (keys (ch_inputs ch))) = unat (ch_endFrameNumber ch) + 1
      \<and> {i. unat i \<le> unat (ch_endFrameNumber ch)} \<subseteq> set (keys (ch_inputs ch))
    \<longleftrightarrow> set (keys (ch_inputs ch)) = {i. unat i \<le> unat (ch_endFrameNumber ch)}"
    by (metis card card_subset_eq List.finite_set order_refl)
  then show ?thesis unfolding IsReady_def all len by simp
qed

text \<open>A ready channel can be read: \<open>Reader\<close> does not panic.\<close>

lemma Reader_ready: "IsReady ch \<Longrightarrow> \<exists>d. Reader ch = Some d"
  by (simp add: IsReady_def Reader_def those_total)

section \<open>Frames may arrive in any order\<close>

text \<open>
  The frames a batcher cuts a channel into: one per piece of data, numbered from 0, the last one
  marked as such.
\<close>

definition frame_sequence :: "channel_id \<Rightarrow> bytes list \<Rightarrow> frame list" where
  "frame_sequence i ds =
     map (\<lambda>n. \<lparr>f_ID = i, f_FrameNumber = word_of_nat n, f_Data = ds ! n, f_IsLast = (Suc n = length ds)\<rparr>)
       [0..<length ds]"

text \<open>Adding a sequence of frames, each with the L1 block it was found in, as the channel bank does.\<close>

definition AddFrames :: "(frame \<times> l1_block_ref) list \<Rightarrow> channel \<Rightarrow> channel" where
  "AddFrames ps ch = foldl (\<lambda>ch (f, b). snd (AddFrame f b ch)) ch ps"

lemma AddFrames_snoc: "AddFrames (ps @ [(f, b)]) ch = snd (AddFrame f b (AddFrames ps ch))"
  by (simp add: AddFrames_def)

lemma AddFrames_all:
  assumes "\<And>p. p \<in> set ps \<Longrightarrow> f_ID (fst p) = i"
    and "distinct (map (f_FrameNumber \<circ> fst) ps)"
    and "\<And>p q. \<lbrakk>p \<in> set ps; q \<in> set ps; f_IsLast (fst p); f_IsLast (fst q)\<rbrakk>
          \<Longrightarrow> f_FrameNumber (fst p) = f_FrameNumber (fst q)"
  shows "ch_id (AddFrames ps (NewChannel i ob)) = i
    \<and> ch_inputs (AddFrames ps (NewChannel i ob)) = map (\<lambda>(f, b). (frame_key f, f_Data f)) ps
    \<and> (ch_closed (AddFrames ps (NewChannel i ob)) \<longleftrightarrow> (\<exists>p\<in>set ps. f_IsLast (fst p)))
    \<and> (\<forall>p\<in>set ps. f_IsLast (fst p) \<longrightarrow>
          ch_endFrameNumber (AddFrames ps (NewChannel i ob)) = f_FrameNumber (fst p))"
  using assms
proof (induction ps rule: rev_induct)
  case Nil
  show ?case by (simp add: AddFrames_def NewChannel_def)
next
  case (snoc p ps)
  obtain f b where p: "p = (f, b)" by (cases p)
  let ?ch = "AddFrames ps (NewChannel i ob)"
  have IH: "ch_id ?ch = i" "ch_inputs ?ch = map (\<lambda>(f, b). (frame_key f, f_Data f)) ps"
    "ch_closed ?ch \<longleftrightarrow> (\<exists>p\<in>set ps. f_IsLast (fst p))"
    "\<And>p. p \<in> set ps \<Longrightarrow> f_IsLast (fst p) \<Longrightarrow> ch_endFrameNumber ?ch = f_FrameNumber (fst p)"
    using snoc by auto
  have new: "f_FrameNumber f \<notin> (f_FrameNumber \<circ> fst) ` set ps"
    using snoc.prems(2) p by auto
  have nolast: "\<not> ch_closed ?ch" if "f_IsLast f"
  proof
    assume "ch_closed ?ch"
    with IH(3) obtain q where q: "q \<in> set ps" "f_IsLast (fst q)" by blast
    with snoc.prems(3) [of p q] that p have "f_FrameNumber f = (f_FrameNumber \<circ> fst) q" by simp
    with new q(1) show False by blast
  qed
  have "frame_key f \<notin> set (keys (ch_inputs ?ch))"
    using new by (force simp: IH(2))
  then obtain ch' where ch': "AddFrame f b ?ch = (None, ch')"
    using AddFrame_succeeds [of f ?ch b] IH(1) nolast snoc.prems(1) [of p] p by auto
  from AddFrame_ok [OF ch'] IH nolast show ?case
    by (auto simp: p AddFrames_snoc ch')
qed

lemma frame_sequence_sel:
  "n < length ds \<Longrightarrow> frame_sequence i ds ! n =
     \<lparr>f_ID = i, f_FrameNumber = word_of_nat n, f_Data = ds ! n, f_IsLast = (Suc n = length ds)\<rparr>"
  by (simp add: frame_sequence_def)

lemma length_frame_sequence [simp]: "length (frame_sequence i ds) = length ds"
  by (simp add: frame_sequence_def)

lemma distinct_frame_numbers:
  assumes "length ds \<le> 2 ^ 16"
  shows "distinct (map f_FrameNumber (frame_sequence i ds))"
proof -
  have "inj_on (word_of_nat :: nat \<Rightarrow> u16) {0..<length ds}"
    using assms by (intro inj_onI) (auto simp: word_of_nat_eq_iff take_bit_nat_eq_self)
  then show ?thesis by (simp add: frame_sequence_def distinct_map comp_def)
qed

text \<open>The facts about a permuted frame sequence that adding its frames rests on.\<close>

lemma permuted_frames:
  assumes "length ds \<le> 2 ^ 16" and perm: "mset (map fst ps) = mset (frame_sequence i ds)"
  shows "length ps = length ds"
    "\<And>p. p \<in> set ps \<Longrightarrow> f_ID (fst p) = i"
    "distinct (map (f_FrameNumber \<circ> fst) ps)"
    "\<And>p q. \<lbrakk>p \<in> set ps; q \<in> set ps; f_IsLast (fst p); f_IsLast (fst q)\<rbrakk>
      \<Longrightarrow> f_FrameNumber (fst p) = f_FrameNumber (fst q)"
    "\<And>n. n < length ds \<Longrightarrow> \<exists>p\<in>set ps. fst p = frame_sequence i ds ! n"
proof -
  let ?fs = "frame_sequence i ds"
  have set: "fst ` set ps = set ?fs" using perm by (metis list.set_map set_mset_mset)
  have mem: "p \<in> set ps \<Longrightarrow> \<exists>n<length ds. fst p = ?fs ! n" for p
    using set by (metis image_eqI in_set_conv_nth length_frame_sequence)
  show "length ps = length ds" using perm by (metis length_frame_sequence length_map size_mset)
  show "f_ID (fst p) = i" if "p \<in> set ps" for p using mem [OF that] by (auto simp: frame_sequence_sel)
  have "distinct (map f_FrameNumber (map fst ps))"
    using distinct_frame_numbers [OF assms(1), of i] perm by (metis mset_eq_imp_distinct_iff mset_map)
  then show "distinct (map (f_FrameNumber \<circ> fst) ps)" by simp
  show "f_FrameNumber (fst p) = f_FrameNumber (fst q)"
    if "p \<in> set ps" "q \<in> set ps" "f_IsLast (fst p)" "f_IsLast (fst q)" for p q
    using mem [OF that(1)] mem [OF that(2)] that(3,4)
    by (auto simp: frame_sequence_sel) (metis nat.inject)
  show "\<exists>p\<in>set ps. fst p = ?fs ! n" if "n < length ds" for n
    using that set by (metis image_iff length_frame_sequence nth_mem)
qed

text \<open>What a channel holds once all frames of a sequence were added.\<close>

lemma AddFrames_permuted_inputs:
  assumes "ds \<noteq> []" and len: "length ds \<le> 2 ^ 16"
    and perm: "mset (map fst ps) = mset (frame_sequence i ds)"
  shows "ch_closed (AddFrames ps (NewChannel i ob))"
    "Suc (unat (ch_endFrameNumber (AddFrames ps (NewChannel i ob)))) = length ds"
    "length (ch_inputs (AddFrames ps (NewChannel i ob))) = length ds"
    "\<And>n. n < length ds \<Longrightarrow> map_of (ch_inputs (AddFrames ps (NewChannel i ob))) (word_of_nat n) = Some (ds ! n)"
proof -
  let ?ch = "AddFrames ps (NewChannel i ob)"
  note frames = permuted_frames [OF len perm]
  from AddFrames_all [of ps i ob, OF frames(2-4)]
  have inv: "ch_inputs ?ch = map (\<lambda>(f, b). (frame_key f, f_Data f)) ps"
    "ch_closed ?ch \<longleftrightarrow> (\<exists>p\<in>set ps. f_IsLast (fst p))"
    "\<And>p. p \<in> set ps \<Longrightarrow> f_IsLast (fst p) \<Longrightarrow> ch_endFrameNumber ?ch = f_FrameNumber (fst p)"
    by blast+
  obtain q where q: "q \<in> set ps" "fst q = frame_sequence i ds ! (length ds - 1)"
    using frames(5) [of "length ds - 1"] assms(1) by auto
  have "unat (word_of_nat (length ds - 1) :: u16) = length ds - 1"
    using assms(1) len by (simp add: unat_of_nat)
  with q inv assms(1) show "ch_closed ?ch" and "Suc (unat (ch_endFrameNumber ?ch)) = length ds"
    by (auto simp: frame_sequence_sel intro!: bexI [of _ q])
  show "length (ch_inputs ?ch) = length ds" using frames(1) by (simp add: inv(1))
  have "distinct (map fst (ch_inputs ?ch))"
    using frames(3) by (auto simp: inv(1) distinct_map inj_on_def comp_def case_prod_beta)
  moreover have "(word_of_nat n, ds ! n) \<in> set (ch_inputs ?ch)" if n: "n < length ds" for n
  proof -
    from frames(5) [OF n] obtain p where p: "p \<in> set ps" "fst p = frame_sequence i ds ! n" by blast
    have "(ucast (word_of_nat n :: u16) :: u64) = word_of_nat n"
      using n len by (simp add: word_unat_eq_iff unat_frame_key unat_of_nat)
    moreover have "(\<lambda>(f, b). (frame_key f, f_Data f)) p \<in> set (ch_inputs ?ch)"
      using p(1) by (simp add: inv(1))
    ultimately show ?thesis
      using p(2) n by (simp add: case_prod_beta frame_sequence_sel frame_key_def)
  qed
  ultimately show "map_of (ch_inputs ?ch) (word_of_nat n) = Some (ds ! n)" if "n < length ds" for n
    using that map_of_is_SomeI by fastforce
qed

lemma AddFrames_permuted:
  assumes "ds \<noteq> []" and "length ds \<le> 2 ^ 16" and "mset (map fst ps) = mset (frame_sequence i ds)"
  shows "IsReady (AddFrames ps (NewChannel i ob))"
    "Reader (AddFrames ps (NewChannel i ob)) = Some (concat ds)"
proof -
  let ?ch = "AddFrames ps (NewChannel i ob)"
  note inputs = AddFrames_permuted_inputs [OF assms, where ob = ob]
  show ready: "IsReady ?ch"
    using inputs by (auto simp: IsReady_def list_all_iff frame_indices_def simp del: upt_Suc)
  have "map (\<lambda>i. the (map_of (ch_inputs ?ch) i)) (frame_indices ?ch) = ds"
    by (rule nth_equalityI) (simp_all add: frame_indices_def inputs del: upt_Suc)
  with ready show "Reader ?ch = Some (concat ds)" by (simp add: Reader_def IsReady_def those_total)
qed

text \<open>
  C33. Frames may be ingested in any order: if the frames of a channel, at most \<open>65536\<close> of them, arrive
  in any permutation and in any L1 blocks, then the channel becomes ready and reading it yields the
  concatenation of the pieces in their original order.
\<close>

theorem AddFrames_any_order:
  assumes "ds \<noteq> []" and "length ds \<le> 2 ^ 16"
    and "mset (map fst ps) = mset (frame_sequence i ds)"
  shows "IsReady (AddFrames ps (NewChannel i ob))
    \<and> Reader (AddFrames ps (NewChannel i ob)) = Some (concat ds)"
  using AddFrames_permuted [OF assms] by blast

theorem AddFrames_any_order_witness:
  "IsReady (AddFrames
      [(\<lparr>f_ID = 3, f_FrameNumber = 1, f_Data = [20], f_IsLast = True\<rparr>, zero_l1),
       (\<lparr>f_ID = 3, f_FrameNumber = 0, f_Data = [10], f_IsLast = False\<rparr>, zero_l1)] (NewChannel 3 zero_l1))
   \<and> Reader (AddFrames
      [(\<lparr>f_ID = 3, f_FrameNumber = 1, f_Data = [20], f_IsLast = True\<rparr>, zero_l1),
       (\<lparr>f_ID = 3, f_FrameNumber = 0, f_Data = [10], f_IsLast = False\<rparr>, zero_l1)] (NewChannel 3 zero_l1))
     = Some (concat [[10], [20]])"
  by (rule AddFrames_any_order) (simp_all add: frame_sequence_def)

end
