(* ===== verification/Channel_Bank.thy ===== *)
theory Channel_Bank
  imports Channels L1_Source
begin

text \<open>
  The channel bank: \<^verbatim>\<open>op-node/rollup/derive/channel_bank.go\<close>. It assigns the frames of the data
  transactions to channels, prunes the oldest channels when it holds too much, and hands out the
  data of the first channel once that is complete.
\<close>

definition MaxChannelBankSize :: u64 where "MaxChannelBankSize = 100000000"

record 'p channel_bank =
  cb_channels :: "(channel_id \<times> channel) list"
  cb_channelQueue :: "channel_id list"
  cb_prev :: 'p

definition NewChannelBank :: "'p \<Rightarrow> 'p channel_bank" where
  "NewChannelBank prev = \<lparr>cb_channels = [], cb_channelQueue = [], cb_prev = prev\<rparr>"

definition ChannelBank_Origin :: "('p \<Rightarrow> l1_block_ref) \<Rightarrow> 'p channel_bank \<Rightarrow> l1_block_ref" where
  "ChannelBank_Origin origin cb = origin (cb_prev cb)"

text \<open>
  \<^verbatim>\<open>prune\<close>: the loop reads \<^verbatim>\<open>cb.channelQueue[0]\<close> and then the size of that channel; \<open>None\<close> is the
  panic of an empty queue or of a queued identifier without a channel.
\<close>

function prune_loop :: "u64 \<Rightarrow> 'p channel_bank \<Rightarrow> 'p channel_bank option" where
  "prune_loop totalSize cb =
    (if totalSize \<le> MaxChannelBankSize then Some cb
     else case cb_channelQueue cb of
         [] \<Rightarrow> None
       | i # queue \<Rightarrow>
           (case map_of (cb_channels cb) i of
              None \<Rightarrow> None
            | Some ch \<Rightarrow> prune_loop (totalSize - ch_size ch)
                (cb\<lparr>cb_channelQueue := queue, cb_channels := AList.delete i (cb_channels cb)\<rparr>)))"
  by pat_completeness auto
termination
  by (relation "measure (\<lambda>(t, cb). length (cb_channelQueue cb))") auto

declare prune_loop.simps [simp del]

definition bank_size :: "(channel_id \<times> channel) list \<Rightarrow> u64" where
  "bank_size chs = (\<Sum>(i, ch)\<leftarrow>chs. ch_size ch)"

definition prune :: "'p channel_bank \<Rightarrow> 'p channel_bank option" where
  "prune cb = prune_loop (bank_size (cb_channels cb)) cb"

text \<open>The body of the loop of \<^verbatim>\<open>IngestData\<close>, for one frame.\<close>

definition ingest_frame :: "config \<Rightarrow> l1_block_ref \<Rightarrow> frame \<Rightarrow> 'p channel_bank \<Rightarrow> 'p channel_bank" where
  "ingest_frame cfg origin f cb =
    (let (currentCh, cb) =
       (case map_of (cb_channels cb) (f_ID f) of
          Some ch \<Rightarrow> (ch, cb)
        | None \<Rightarrow>
            let ch = NewChannel (f_ID f) origin
            in (ch, cb\<lparr>cb_channels := AList.update (f_ID f) ch (cb_channels cb),
                      cb_channelQueue := cb_channelQueue cb @ [f_ID f]\<rparr>))
     in if OpenBlockNumber currentCh + ChannelTimeout cfg < l1_Number origin then cb
        else case AddFrame f origin currentCh of
            (Some err, _) \<Rightarrow> cb
          | (None, ch) \<Rightarrow> cb\<lparr>cb_channels := AList.update (f_ID f) ch (cb_channels cb)\<rparr>)"

definition IngestData ::
    "config \<Rightarrow> ('p \<Rightarrow> l1_block_ref) \<Rightarrow> bytes \<Rightarrow> 'p channel_bank \<Rightarrow> 'p channel_bank option" where
  "IngestData cfg origin data cb =
    (let l1origin = ChannelBank_Origin origin cb in
     case prune cb of
       None \<Rightarrow> None
     | Some cb \<Rightarrow>
         (case ParseFrames data of
            Inl err \<Rightarrow> Some cb
          | Inr frames \<Rightarrow> Some (foldl (\<lambda>cb f. ingest_frame cfg l1origin f cb) cb frames)))"

definition ChannelBank_Read ::
    "config \<Rightarrow> ('p \<Rightarrow> l1_block_ref) \<Rightarrow> 'p channel_bank \<Rightarrow> (bytes, 'p channel_bank) outcome" where
  "ChannelBank_Read cfg origin cb =
    (case cb_channelQueue cb of
       [] \<Rightarrow> (Inl EOF, cb)
     | first # queue \<Rightarrow>
         (case map_of (cb_channels cb) first of
            None \<Rightarrow> (Inl (Panic ''nil channel''), cb)
          | Some ch \<Rightarrow>
              let removed = cb\<lparr>cb_channelQueue := queue, cb_channels := AList.delete first (cb_channels cb)\<rparr>
              in if OpenBlockNumber ch + ChannelTimeout cfg < l1_Number (ChannelBank_Origin origin cb)
                 then (Inl EOF, removed)
                 else if \<not> IsReady ch then (Inl EOF, cb)
                 else case Reader ch of
                     None \<Rightarrow> (Inl (Panic ''dev error in channel.Reader''), removed)
                   | Some data \<Rightarrow> (Inr data, removed)))"

definition ChannelBank_NextData ::
    "config \<Rightarrow> ('p \<Rightarrow> l1_block_ref) \<Rightarrow> ('p \<Rightarrow> (bytes, 'p) outcome)
     \<Rightarrow> 'p channel_bank \<Rightarrow> (bytes, 'p channel_bank) outcome" where
  "ChannelBank_NextData cfg origin pull cb =
    (case ChannelBank_Read cfg origin cb of
       (Inr data, cb) \<Rightarrow> (Inr data, cb)
     | (Inl EOF, cb) \<Rightarrow>
         (case pull (cb_prev cb) of
            (Inl e, p) \<Rightarrow> (Inl e, cb\<lparr>cb_prev := p\<rparr>)
          | (Inr data, p) \<Rightarrow>
              (case IngestData cfg origin data (cb\<lparr>cb_prev := p\<rparr>) of
                 None \<Rightarrow> (Inl (Panic ''prune''), cb\<lparr>cb_prev := p\<rparr>)
               | Some cb \<Rightarrow> (Inl NotEnoughData, cb)))
     | (Inl e, cb) \<Rightarrow> (Inl e, cb))"

definition ChannelBank_Reset :: "l1_block_ref \<Rightarrow> 'p channel_bank \<Rightarrow> 'p channel_bank" where
  "ChannelBank_Reset base cb = cb\<lparr>cb_channels := [], cb_channelQueue := []\<rparr>"

section \<open>The bank invariant\<close>

text \<open>
  The queue lists exactly the channels of the map, each once, and every channel is well formed and
  stored under its own identifier.
\<close>

definition wf_bank :: "'p channel_bank \<Rightarrow> bool" where
  "wf_bank cb \<longleftrightarrow>
     distinct (cb_channelQueue cb)
     \<and> distinct (keys (cb_channels cb))
     \<and> set (cb_channelQueue cb) = set (keys (cb_channels cb))
     \<and> (\<forall>i ch. map_of (cb_channels cb) i = Some ch \<longrightarrow> ch_id ch = i \<and> wf_channel ch)"

lemma wf_bank_empty [simp]: "wf_bank (NewChannelBank p)" "wf_bank (ChannelBank_Reset b cb)"
  by (simp_all add: wf_bank_def NewChannelBank_def ChannelBank_Reset_def)

lemma wf_bank_prev [simp]: "wf_bank (cb\<lparr>cb_prev := p\<rparr>) \<longleftrightarrow> wf_bank cb"
  by (simp add: wf_bank_def)

lemma wf_bank_lookup:
  "wf_bank cb \<Longrightarrow> i \<in> set (cb_channelQueue cb) \<Longrightarrow> \<exists>ch. map_of (cb_channels cb) i = Some ch"
  unfolding wf_bank_def by (metis key_lookup)

lemma wf_bank_remove:
  assumes "wf_bank cb" and "cb_channelQueue cb = i # queue"
  shows "wf_bank (cb\<lparr>cb_channelQueue := queue, cb_channels := AList.delete i (cb_channels cb)\<rparr>)"
  using assms
  by (auto simp: wf_bank_def delete_conv' distinct_keys_delete simp del: set_map split: if_splits)

lemma wf_bank_update:
  assumes "wf_bank cb" and "ch_id ch = i" and "wf_channel ch" and "i \<in> set (cb_channelQueue cb)"
  shows "wf_bank (cb\<lparr>cb_channels := AList.update i ch (cb_channels cb)\<rparr>)"
  using assms
  by (auto simp: wf_bank_def update_conv' distinct_keys_update simp del: set_map split: if_splits)

lemma wf_bank_insert:
  assumes "wf_bank cb" and "map_of (cb_channels cb) i = None"
  shows "wf_bank (cb\<lparr>cb_channels := AList.update i (NewChannel i b) (cb_channels cb),
      cb_channelQueue := cb_channelQueue cb @ [i]\<rparr>)"
proof -
  have "i \<notin> set (cb_channelQueue cb)"
    using wf_bank_lookup [OF assms(1)] assms(2) by fastforce
  then show ?thesis
    using assms(1)
    by (auto simp: wf_bank_def update_conv' distinct_keys_update NewChannel_def [THEN arg_cong [of _ _ ch_id]]
        simp del: set_map split: if_splits)
qed

lemma ch_id_NewChannel [simp]: "ch_id (NewChannel i b) = i"
  by (simp add: NewChannel_def)

lemma wf_add_frame:
  assumes "wf_bank cb" and "map_of (cb_channels cb) (f_ID f) = Some ch"
    and "AddFrame f b ch = (e, ch')"
  shows "wf_bank (cb\<lparr>cb_channels := AList.update (f_ID f) ch' (cb_channels cb)\<rparr>)"
proof (rule wf_bank_update [OF assms(1)])
  have ch: "ch_id ch = f_ID f" "wf_channel ch" using assms(1,2) by (auto simp: wf_bank_def)
  show "ch_id ch' = f_ID f" using AddFrame_keeps_id(1) [of f b ch] ch(1) assms(3) by simp
  show "wf_channel ch'" using wf_AddFrame [OF ch(2) assms(3)] .
  have "f_ID f \<in> set (keys (cb_channels cb))"
    using assms(2) map_of_eq_None_keys [of "cb_channels cb" "f_ID f"] by (simp del: set_map)
  then show "f_ID f \<in> set (cb_channelQueue cb)" using assms(1) by (simp add: wf_bank_def)
qed

lemma wf_ingest_frame:
  assumes "wf_bank cb"
  shows "wf_bank (ingest_frame cfg b f cb)"
proof (cases "map_of (cb_channels cb) (f_ID f)")
  case None
  let ?cb = "cb\<lparr>cb_channels := AList.update (f_ID f) (NewChannel (f_ID f) b) (cb_channels cb),
    cb_channelQueue := cb_channelQueue cb @ [f_ID f]\<rparr>"
  have wf: "wf_bank ?cb" by (rule wf_bank_insert [OF assms None])
  have "map_of (cb_channels ?cb) (f_ID f) = Some (NewChannel (f_ID f) b)" by (simp add: update_conv')
  from wf wf_add_frame [OF wf this, of b] None show ?thesis
    by (auto simp: ingest_frame_def Let_def split: prod.splits option.splits)
next
  case (Some ch)
  from assms wf_add_frame [OF assms Some, of b] Some show ?thesis
    by (auto simp: ingest_frame_def Let_def split: prod.splits option.splits)
qed

lemma cb_prev_ingest_frame [simp]: "cb_prev (ingest_frame cfg b f cb) = cb_prev cb"
  by (simp add: ingest_frame_def Let_def split: option.splits prod.splits)

lemma wf_ingest_frames:
  "wf_bank cb \<Longrightarrow> wf_bank (foldl (\<lambda>cb f. ingest_frame cfg b f cb) cb fs)
    \<and> cb_prev (foldl (\<lambda>cb f. ingest_frame cfg b f cb) cb fs) = cb_prev cb"
  by (induction fs arbitrary: cb) (simp_all add: wf_ingest_frame)

section \<open>Pruning\<close>

text \<open>The bank after the channels of the first \<open>k\<close> queued identifiers were removed.\<close>

definition drop_channels :: "nat \<Rightarrow> 'p channel_bank \<Rightarrow> 'p channel_bank" where
  "drop_channels k cb = cb\<lparr>cb_channelQueue := drop k (cb_channelQueue cb),
     cb_channels := foldl (\<lambda>m i. AList.delete i m) (cb_channels cb) (take k (cb_channelQueue cb))\<rparr>"

lemma drop_channels_0 [simp]: "drop_channels 0 cb = cb"
  by (simp add: drop_channels_def)

lemma drop_channels_Suc:
  "cb_channelQueue cb = i # queue \<Longrightarrow>
   drop_channels (Suc k) cb =
     drop_channels k (cb\<lparr>cb_channelQueue := queue, cb_channels := AList.delete i (cb_channels cb)\<rparr>)"
  by (simp add: drop_channels_def)

lemma wf_bank_size_empty: "wf_bank cb \<Longrightarrow> cb_channelQueue cb = [] \<Longrightarrow> bank_size (cb_channels cb) = 0"
  by (auto simp: wf_bank_def bank_size_def)

lemma prune_loop_correct:
  assumes "wf_bank cb" and "t = bank_size (cb_channels cb)"
  shows "\<exists>k\<le>length (cb_channelQueue cb).
    prune_loop t cb = Some (drop_channels k cb)
    \<and> wf_bank (drop_channels k cb)
    \<and> bank_size (cb_channels (drop_channels k cb)) \<le> MaxChannelBankSize
    \<and> (\<forall>j<k. MaxChannelBankSize < bank_size (cb_channels (drop_channels j cb)))"
  using assms
proof (induction t cb rule: prune_loop.induct)
  case (1 t cb)
  show ?case
  proof (cases "t \<le> MaxChannelBankSize")
    case True
    then show ?thesis using "1.prems" by (intro exI [of _ 0]) (simp add: prune_loop.simps)
  next
    case False
    with "1.prems" wf_bank_size_empty [of cb] obtain i queue where q: "cb_channelQueue cb = i # queue"
      by (cases "cb_channelQueue cb") auto
    with "1.prems"(1) wf_bank_lookup obtain ch where ch: "map_of (cb_channels cb) i = Some ch" by fastforce
    let ?cb = "cb\<lparr>cb_channelQueue := queue, cb_channels := AList.delete i (cb_channels cb)\<rparr>"
    have "t - ch_size ch = bank_size (cb_channels ?cb)"
      using "1.prems" ch sum_list_delete [of "cb_channels cb" i ch ch_size]
      by (simp add: bank_size_def wf_bank_def)
    from "1.IH" [OF False q ch wf_bank_remove [OF "1.prems"(1) q] this] obtain k where
      k: "k \<le> length queue" "prune_loop (t - ch_size ch) ?cb = Some (drop_channels k ?cb)"
        "wf_bank (drop_channels k ?cb)"
        "bank_size (cb_channels (drop_channels k ?cb)) \<le> MaxChannelBankSize"
        "\<forall>j<k. MaxChannelBankSize < bank_size (cb_channels (drop_channels j ?cb))" by auto
    have "MaxChannelBankSize < bank_size (cb_channels (drop_channels j cb))" if "j < Suc k" for j
      using that k(5) False "1.prems"(2) by (cases j) (auto simp: drop_channels_Suc [OF q])
    with k False q ch show ?thesis
      by (intro exI [of _ "Suc k"]) (simp add: drop_channels_Suc prune_loop.simps [of t cb])
  qed
qed

lemma cb_prev_drop_channels [simp]: "cb_prev (drop_channels k cb) = cb_prev cb"
  by (simp add: drop_channels_def)

lemma IngestData_wf:
  assumes "wf_bank cb"
  shows "\<exists>cb'. IngestData cfg origin data cb = Some cb' \<and> wf_bank cb' \<and> cb_prev cb' = cb_prev cb"
proof -
  obtain k where "prune cb = Some (drop_channels k cb)" and "wf_bank (drop_channels k cb)"
    unfolding prune_def using prune_loop_correct [OF assms refl] by auto
  then show ?thesis
    using wf_ingest_frames [of "drop_channels k cb"]
    by (auto simp: IngestData_def Let_def split: sum.splits)
qed

section \<open>Reading\<close>

lemma ChannelBank_Read_wf:
  assumes "wf_bank cb" and "ChannelBank_Read cfg origin cb = (r, cb')"
  shows "wf_bank cb'" and "cb_prev cb' = cb_prev cb" and "r = Inl EOF \<or> (\<exists>d. r = Inr d)"
proof -
  have "wf_bank cb' \<and> cb_prev cb' = cb_prev cb \<and> (r = Inl EOF \<or> (\<exists>d. r = Inr d))"
  proof (cases "cb_channelQueue cb")
    case Nil
    with assms show ?thesis by (auto simp: ChannelBank_Read_def)
  next
    case (Cons i queue)
    with assms(1) wf_bank_lookup obtain ch where ch: "map_of (cb_channels cb) i = Some ch" by fastforce
    with assms Cons wf_bank_remove [OF assms(1) Cons] Reader_ready [of ch] show ?thesis
      by (auto simp: ChannelBank_Read_def Let_def split: if_splits)
  qed
  then show "wf_bank cb'" "cb_prev cb' = cb_prev cb" "r = Inl EOF \<or> (\<exists>d. r = Inr d)" by auto
qed

lemma ChannelBank_NextData_step:
  assumes "wf_bank cb" and "ChannelBank_NextData cfg origin pull cb = (r, cb')"
  shows "wf_bank cb' \<and>
    (cb_prev cb' = cb_prev cb \<or> (\<exists>v. pull (cb_prev cb) = (v, cb_prev cb')))
    \<and> (\<forall>e. r = Inl e \<longrightarrow> is_panic e \<longrightarrow> (\<exists>p. pull (cb_prev cb) = (Inl e, p)))"
proof -
  obtain r1 cb1 where rd: "ChannelBank_Read cfg origin cb = (r1, cb1)" by fastforce
  note wf1 = ChannelBank_Read_wf [OF assms(1) rd]
  obtain r2 p where pl: "pull (cb_prev cb) = (r2, p)" by fastforce
  have "wf_bank (cb1\<lparr>cb_prev := p\<rparr>)" using wf1(1) by simp
  then show ?thesis
  proof (cases r2)
    case (Inr data)
    from IngestData_wf [OF \<open>wf_bank (cb1\<lparr>cb_prev := p\<rparr>)\<close>, of cfg origin data] obtain cb2
      where "IngestData cfg origin data (cb1\<lparr>cb_prev := p\<rparr>) = Some cb2" "wf_bank cb2" "cb_prev cb2 = p"
      by auto
    with assms(2) wf1 pl Inr show ?thesis by (auto simp: ChannelBank_NextData_def rd)
  qed (use assms(2) wf1 pl in \<open>auto simp: ChannelBank_NextData_def rd\<close>)
qed

lemmas ChannelBank_NextData_wf = ChannelBank_NextData_step [THEN conjunct1]
lemmas ChannelBank_NextData_prev = ChannelBank_NextData_step [THEN conjunct2, THEN conjunct1]
lemmas ChannelBank_NextData_panic = ChannelBank_NextData_step [THEN conjunct2, THEN conjunct2, rule_format]

text \<open>The channel bank turns a data provider into another one, of whole channels.\<close>

locale channel_bank_stage = data_provider inv origin pull
  for inv :: "'s \<Rightarrow> bool" and origin :: "'s \<Rightarrow> l1_block_ref"
    and pull :: "'s \<Rightarrow> (bytes, 's) outcome" +
  fixes cfg :: config
begin

lemma bank_pull:
  assumes "wf_bank cb" and "inv (cb_prev cb)" and "ChannelBank_NextData cfg origin pull cb = (r, cb')"
  shows "inv (cb_prev cb')" and "origin (cb_prev cb') = origin (cb_prev cb)"
  using ChannelBank_NextData_prev [OF assms(1,3)] assms(2) pull_inv pull_origin by metis+

lemma bank_pull_safe:
  assumes "wf_bank cb" and "inv (cb_prev cb)" and "ChannelBank_NextData cfg origin pull cb = (Inl e, cb')"
  shows "\<not> is_panic e"
  using ChannelBank_NextData_panic [OF assms(1,3) refl] pull_safe [OF assms(2)] by blast

end

sublocale channel_bank_stage \<subseteq> bank: data_provider
  "\<lambda>cb. wf_bank cb \<and> inv (cb_prev cb)" "ChannelBank_Origin origin" "ChannelBank_NextData cfg origin pull"
proof unfold_locales
  show "wf_bank s' \<and> inv (cb_prev s')"
    if "wf_bank s \<and> inv (cb_prev s)" "ChannelBank_NextData cfg origin pull s = (r, s')" for s r s'
    using that ChannelBank_NextData_wf bank_pull(1) by blast
  show "ChannelBank_Origin origin s' = ChannelBank_Origin origin s"
    if "wf_bank s \<and> inv (cb_prev s)" "ChannelBank_NextData cfg origin pull s = (r, s')" for s r s'
    using that bank_pull(2) unfolding ChannelBank_Origin_def by blast
  show "\<not> is_panic e"
    if "wf_bank s \<and> inv (cb_prev s)" "ChannelBank_NextData cfg origin pull s = (Inl e, s')" for s e s'
    using that bank_pull_safe by blast
qed

text \<open>The bank of the pipeline reads from L1 retrieval.\<close>

abbreviation source_pull :: "config \<Rightarrow> tx_signer \<Rightarrow> l1_fetcher \<Rightarrow> l1_traversal l1_retrieval
    \<Rightarrow> (bytes, l1_traversal l1_retrieval) outcome" where
  "source_pull cfg Sender l1 \<equiv> L1Retrieval_NextData cfg Sender l1 NextL1Block"

abbreviation source_origin :: "l1_traversal l1_retrieval \<Rightarrow> l1_block_ref" where
  "source_origin \<equiv> L1Retrieval_Origin L1Traversal_Origin"

interpretation l1_bank: channel_bank_stage "\<lambda>l1r. True" source_origin "source_pull cfg Sender l1" cfg
  for cfg Sender l1
  using l1_source.retrieval.data_provider_axioms by (intro channel_bank_stage.intro)

section \<open>Properties of the bank\<close>

text \<open>
  C35. Pulling from the channel bank on top of the L1 stages never panics (no index into an empty
  queue, no nil channel, no read of an incomplete channel), keeps the queue and the channel map in
  step, and never moves the L1 origin, whatever data the L1 transactions hold.
\<close>

theorem bank_step_safe:
  assumes "wf_bank cb"
    and "ChannelBank_NextData cfg source_origin (source_pull cfg Sender l1) cb = (r, cb')"
  shows "wf_bank cb'
    \<and> ChannelBank_Origin source_origin cb' = ChannelBank_Origin source_origin cb
    \<and> (\<forall>e. r = Inl e \<longrightarrow> \<not> is_panic e)"
  using l1_bank.bank.pull_inv l1_bank.bank.pull_origin l1_bank.bank.pull_safe assms by blast

definition sample_source :: "l1_traversal l1_retrieval" where
  "sample_source = \<lparr>lr_datas = None, lr_prev = \<lparr>lt_block = zero_l1, lt_done = False\<rparr>\<rparr>"

theorem bank_step_safe_witness:
  "wf_bank (snd (ChannelBank_NextData sample_config source_origin
      (source_pull sample_config (\<lambda>cfg tx. Some 14) no_l1) (NewChannelBank sample_source)))"
  using bank_step_safe [OF wf_bank_empty(1) prod.collapse [symmetric]] by blast

text \<open>
  C36. Pruning: \<^verbatim>\<open>prune\<close> always succeeds. It removes the oldest channels first, as many as needed and no
  more, so that what remains holds at most \<open>MaxChannelBankSize\<close> bytes by its own 64-bit count.
\<close>

theorem prune_oldest_first:
  assumes "wf_bank cb"
  shows "\<exists>k\<le>length (cb_channelQueue cb). prune cb = Some (drop_channels k cb)
    \<and> wf_bank (drop_channels k cb)
    \<and> bank_size (cb_channels (drop_channels k cb)) \<le> MaxChannelBankSize
    \<and> (\<forall>j<k. MaxChannelBankSize < bank_size (cb_channels (drop_channels j cb)))"
  unfolding prune_def by (rule prune_loop_correct [OF assms refl])

theorem prune_oldest_first_witness:
  "\<exists>k\<le>length (cb_channelQueue (NewChannelBank sample_source)).
    prune (NewChannelBank sample_source) = Some (drop_channels k (NewChannelBank sample_source))
    \<and> wf_bank (drop_channels k (NewChannelBank sample_source))
    \<and> bank_size (cb_channels (drop_channels k (NewChannelBank sample_source))) \<le> MaxChannelBankSize
    \<and> (\<forall>j<k. MaxChannelBankSize < bank_size (cb_channels (drop_channels j (NewChannelBank sample_source))))"
  by (rule prune_oldest_first) simp

text \<open>
  What \<^verbatim>\<open>Read\<close> may hand out: data comes only from the channel at the head of the queue, only if
  that channel is complete and has not timed out at the current origin, and it is the data of its
  frames in order; the channel leaves the bank and no other channel is touched.
\<close>

lemma Read_head_channel_only:
  assumes "wf_bank cb" and "ChannelBank_Read cfg origin cb = (Inr data, cb')"
  shows "\<exists>i queue ch. cb_channelQueue cb = i # queue
    \<and> map_of (cb_channels cb) i = Some ch
    \<and> IsReady ch \<and> Reader ch = Some data
    \<and> \<not> OpenBlockNumber ch + ChannelTimeout cfg < l1_Number (ChannelBank_Origin origin cb)
    \<and> cb_channelQueue cb' = queue
    \<and> map_of (cb_channels cb') = (map_of (cb_channels cb))(i := None)"
  using assms
  by (auto simp: ChannelBank_Read_def Let_def delete_conv' split: list.splits option.splits if_splits)

end
