(* ===== verification/Channel_In.thy ===== *)
theory Channel_In
  imports Batches Channel_Bank
begin

text \<open>
  Reading batches from channels: \<^verbatim>\<open>BatchReader\<close> of \<^verbatim>\<open>channel.go\<close> and the channel reader stage
  \<^verbatim>\<open>channel_in_reader.go\<close>, which pulls the data of a channel from the channel bank, decompresses it and
  hands out the batches one by one.
\<close>

section \<open>The batch reader\<close>

text \<open>The closure that \<^verbatim>\<open>BatchReader\<close> returns: its RLP stream and the inclusion block it captured.\<close>

record batch_reader =
  br_rlpReader :: rlp_stream
  br_l1InclusionBlock :: l1_block_ref

definition BatchReader :: "batch_codec \<Rightarrow> bytes \<Rightarrow> l1_block_ref \<Rightarrow> cause + batch_reader" where
  "BatchReader C r l1InclusionBlock =
    (case zlib_NewReader C r of
       Inl c \<Rightarrow> Inl c
     | Inr (d, e) \<Rightarrow> Inr \<lparr>br_rlpReader = \<lparr>rs_data = d, rs_end = e, rs_limit = 10000000\<rparr>,
         br_l1InclusionBlock = l1InclusionBlock\<rparr>)"

definition BatchReader_next :: "batch_codec \<Rightarrow> batch_reader \<Rightarrow> (read_err + batch_with_l1) \<times> batch_reader" where
  "BatchReader_next C br =
    (case BatchData_DecodeRLP C (br_rlpReader br) of
       (Inl e, s) \<Rightarrow> (Inl e, br\<lparr>br_rlpReader := s\<rparr>)
     | (Inr b, s) \<Rightarrow> (Inr \<lparr>bw_L1InclusionBlock = br_l1InclusionBlock br, bw_Batch = b\<rparr>,
                     br\<lparr>br_rlpReader := s\<rparr>))"

section \<open>The stage\<close>

record 'p channel_in_reader =
  ci_nextBatchFn :: "batch_reader option"
  ci_prev :: 'p

definition NewChannelInReader :: "'p \<Rightarrow> 'p channel_in_reader" where
  "NewChannelInReader prev = \<lparr>ci_nextBatchFn = None, ci_prev = prev\<rparr>"

definition ChannelInReader_Origin :: "('p \<Rightarrow> l1_block_ref) \<Rightarrow> 'p channel_in_reader \<Rightarrow> l1_block_ref" where
  "ChannelInReader_Origin prev_Origin cr = prev_Origin (ci_prev cr)"

definition WriteChannel ::
    "batch_codec \<Rightarrow> ('p \<Rightarrow> l1_block_ref) \<Rightarrow> bytes \<Rightarrow> 'p channel_in_reader \<Rightarrow> cause option \<times> 'p channel_in_reader" where
  "WriteChannel C prev_Origin data cr =
    (case BatchReader C data (ChannelInReader_Origin prev_Origin cr) of
       Inr f \<Rightarrow> (None, cr\<lparr>ci_nextBatchFn := Some f\<rparr>)
     | Inl c \<Rightarrow> (Some c, cr))"

definition NextChannel :: "'p channel_in_reader \<Rightarrow> 'p channel_in_reader" where
  "NextChannel cr = cr\<lparr>ci_nextBatchFn := None\<rparr>"

text \<open>The first half of \<^verbatim>\<open>NextBatch\<close>: makes sure there is a batch reader, or returns the error.\<close>

definition ensure_reader ::
    "batch_codec \<Rightarrow> ('p \<Rightarrow> l1_block_ref) \<Rightarrow> ('p \<Rightarrow> (bytes, 'p) outcome) \<Rightarrow> 'p channel_in_reader
      \<Rightarrow> (batch_reader, 'p channel_in_reader) outcome" where
  "ensure_reader C prev_Origin prev_NextData cr =
    (case ci_nextBatchFn cr of
       Some f \<Rightarrow> (Inr f, cr)
     | None \<Rightarrow>
         (case prev_NextData (ci_prev cr) of
            (Inl e, p) \<Rightarrow> (Inl e, cr\<lparr>ci_prev := p\<rparr>)
          | (Inr data, p) \<Rightarrow>
              (case WriteChannel C prev_Origin data (cr\<lparr>ci_prev := p\<rparr>) of
                 (Some c, cr) \<Rightarrow> (Inl (NewTemporaryError c), cr)
               | (None, cr) \<Rightarrow> (Inr (the (ci_nextBatchFn cr)), cr))))"

definition ChannelInReader_NextBatch ::
    "batch_codec \<Rightarrow> ('p \<Rightarrow> l1_block_ref) \<Rightarrow> ('p \<Rightarrow> (bytes, 'p) outcome) \<Rightarrow> 'p channel_in_reader
      \<Rightarrow> (batch_data, 'p channel_in_reader) outcome" where
  "ChannelInReader_NextBatch C prev_Origin prev_NextData cr =
    (case ensure_reader C prev_Origin prev_NextData cr of
       (Inl e, cr) \<Rightarrow> (Inl e, cr)
     | (Inr f, cr) \<Rightarrow>
         (case BatchReader_next C f of
            (Inl ReadEOF, f) \<Rightarrow> (Inl NotEnoughData, NextChannel cr)
          | (Inl (ReadError c), f) \<Rightarrow> (Inl NotEnoughData, NextChannel cr)
          | (Inr batch, f) \<Rightarrow> (Inr (bw_Batch batch), cr\<lparr>ci_nextBatchFn := Some f\<rparr>)))"

definition ChannelInReader_Reset :: "'p channel_in_reader \<Rightarrow> derr \<times> 'p channel_in_reader" where
  "ChannelInReader_Reset cr = (EOF, cr\<lparr>ci_nextBatchFn := None\<rparr>)"

section \<open>The stage as a batch provider\<close>

text \<open>\<^verbatim>\<open>NextBatchProvider\<close>: what the batch queue pulls from.\<close>

locale batch_provider = pull_provider inv origin pull
  for inv :: "'s \<Rightarrow> bool" and origin :: "'s \<Rightarrow> l1_block_ref"
    and pull :: "'s \<Rightarrow> (batch_data, 's) outcome"

locale channel_in_stage = data_provider inv origin pull
  for inv :: "'p \<Rightarrow> bool" and origin :: "'p \<Rightarrow> l1_block_ref"
    and pull :: "'p \<Rightarrow> (bytes, 'p) outcome" +
  fixes C :: batch_codec
begin

lemma ensure_reader_prev:
  assumes "ensure_reader C origin pull cr = (r, cr')"
  shows "ci_prev cr' = ci_prev cr \<or> (\<exists>r'. pull (ci_prev cr) = (r', ci_prev cr'))"
  using assms
  by (auto simp: ensure_reader_def WriteChannel_def split: option.splits prod.splits sum.splits)

lemma ensure_reader_safe:
  assumes "inv (ci_prev cr)" and "ensure_reader C origin pull cr = (Inl e, cr')"
  shows "\<not> is_panic e"
  using assms pull_safe
  by (auto simp: ensure_reader_def split: option.splits prod.splits sum.splits)

lemma NextBatch_prev:
  assumes "ChannelInReader_NextBatch C origin pull cr = (r, cr')"
  shows "ci_prev cr' = ci_prev cr \<or> (\<exists>r'. pull (ci_prev cr) = (r', ci_prev cr'))"
proof -
  obtain q crm where q: "ensure_reader C origin pull cr = (q, crm)" by fastforce
  with assms have "ci_prev cr' = ci_prev crm"
    by (auto simp: ChannelInReader_NextBatch_def NextChannel_def
        split: sum.splits prod.splits read_err.splits)
  with ensure_reader_prev [OF q] show ?thesis by simp
qed

lemma NextBatch_safe:
  assumes "inv (ci_prev cr)" and "ChannelInReader_NextBatch C origin pull cr = (Inl e, cr')"
  shows "\<not> is_panic e"
  using assms(2) ensure_reader_safe [OF assms(1)]
  by (auto simp: ChannelInReader_NextBatch_def split: sum.splits prod.splits read_err.splits)

end

sublocale channel_in_stage \<subseteq> reader: batch_provider "\<lambda>cr. inv (ci_prev cr)"
    "ChannelInReader_Origin origin" "ChannelInReader_NextBatch C origin pull"
proof
  show "inv (ci_prev cr')"
    if "inv (ci_prev cr)" "ChannelInReader_NextBatch C origin pull cr = (r, cr')" for cr r cr'
    using NextBatch_prev [OF that(2)] that(1) pull_inv by metis
  show "ChannelInReader_Origin origin cr' = ChannelInReader_Origin origin cr"
    if "inv (ci_prev cr)" "ChannelInReader_NextBatch C origin pull cr = (r, cr')" for cr r cr'
    using NextBatch_prev [OF that(2)] that(1) pull_origin unfolding ChannelInReader_Origin_def by metis
  show "\<not> is_panic e"
    if "inv (ci_prev cr)" "ChannelInReader_NextBatch C origin pull cr = (Inl e, cr')" for cr e cr'
    by (rule NextBatch_safe [OF that])
qed

text \<open>The reader of the pipeline reads from the channel bank.\<close>

abbreviation bank_pull :: "config \<Rightarrow> tx_signer \<Rightarrow> l1_fetcher \<Rightarrow> l1_traversal l1_retrieval channel_bank
    \<Rightarrow> (bytes, l1_traversal l1_retrieval channel_bank) outcome" where
  "bank_pull cfg Sender l1 \<equiv> ChannelBank_NextData cfg source_origin (source_pull cfg Sender l1)"

abbreviation bank_origin :: "l1_traversal l1_retrieval channel_bank \<Rightarrow> l1_block_ref" where
  "bank_origin \<equiv> ChannelBank_Origin source_origin"

interpretation channel_reader: channel_in_stage "\<lambda>cb. wf_bank cb \<and> True" bank_origin
    "bank_pull cfg Sender l1" C for cfg Sender l1 C
  using l1_bank.bank.data_provider_axioms by (intro channel_in_stage.intro)

section \<open>Reading back what was written\<close>

text \<open>
  What the code relies on in the RLP library: an encoded batch decodes to itself, and a stream of
  encoded byte strings is read back one by one, up to the size limit, with \<^verbatim>\<open>io.EOF\<close> at its end.
\<close>

definition rlp_roundtrip :: "batch_codec \<Rightarrow> bool" where
  "rlp_roundtrip C \<longleftrightarrow>
     (\<forall>b. rlp_DecodeBatchV1 C (rlp_EncodeBatchV1 C b) = Inr b)
     \<and> (\<forall>v rest n. length (rlp_EncodeBytes C v) \<le> n \<longrightarrow>
          rlp_Stream_Bytes C \<lparr>rs_data = rlp_EncodeBytes C v @ rest, rs_end = None, rs_limit = n\<rparr>
          = (Inr v, \<lparr>rs_data = rest, rs_end = None, rs_limit = n - length (rlp_EncodeBytes C v)\<rparr>))
     \<and> (\<forall>n. rlp_Stream_Bytes C \<lparr>rs_data = [], rs_end = None, rs_limit = n\<rparr>
          = (Inl ReadEOF, \<lparr>rs_data = [], rs_end = None, rs_limit = n\<rparr>))"

definition encode_batches :: "batch_codec \<Rightarrow> batch_data list \<Rightarrow> bytes" where
  "encode_batches C bs = concat (map (BatchData_EncodeRLP C) bs)"

lemma DecodeRLP_EncodeRLP:
  assumes "rlp_roundtrip C" and "length (BatchData_EncodeRLP C b) \<le> n"
  shows "BatchData_DecodeRLP C \<lparr>rs_data = BatchData_EncodeRLP C b @ rest, rs_end = None, rs_limit = n\<rparr>
    = (Inr b, \<lparr>rs_data = rest, rs_end = None, rs_limit = n - length (BatchData_EncodeRLP C b)\<rparr>)"
  using assms
  by (simp add: rlp_roundtrip_def BatchData_DecodeRLP_def BatchData_EncodeRLP_def
      BatchData_encodeTyped_def BatchData_decodeTyped_def)

lemma DecodeRLP_end:
  assumes "rlp_roundtrip C"
  shows "BatchData_DecodeRLP C \<lparr>rs_data = [], rs_end = None, rs_limit = n\<rparr>
    = (Inl ReadEOF, \<lparr>rs_data = [], rs_end = None, rs_limit = n\<rparr>)"
  using assms by (simp add: rlp_roundtrip_def BatchData_DecodeRLP_def)

lemma pull_batches:
  assumes "rlp_roundtrip C" and "length (encode_batches C bs) \<le> n"
    and "ci_nextBatchFn cr = Some \<lparr>br_rlpReader = \<lparr>rs_data = encode_batches C bs, rs_end = None, rs_limit = n\<rparr>,
           br_l1InclusionBlock = ib\<rparr>"
  shows "pull_all (Suc (length bs)) (ChannelInReader_NextBatch C origin pull) cr
    = (bs, Some NotEnoughData, NextChannel cr)"
  using assms(2,3)
proof (induction bs arbitrary: cr n)
  case Nil
  then show ?case
    by (simp add: ChannelInReader_NextBatch_def ensure_reader_def BatchReader_next_def encode_batches_def
        DecodeRLP_end [OF assms(1)])
next
  case (Cons b bs)
  let ?rest = "\<lparr>br_rlpReader = \<lparr>rs_data = encode_batches C bs, rs_end = None,
      rs_limit = n - length (BatchData_EncodeRLP C b)\<rparr>, br_l1InclusionBlock = ib\<rparr>"
  have "ChannelInReader_NextBatch C origin pull cr = (Inr b, cr\<lparr>ci_nextBatchFn := Some ?rest\<rparr>)"
    using Cons.prems
    by (simp add: ChannelInReader_NextBatch_def ensure_reader_def BatchReader_next_def encode_batches_def
        DecodeRLP_EncodeRLP [OF assms(1)])
  moreover have "pull_all (Suc (length bs)) (ChannelInReader_NextBatch C origin pull)
      (cr\<lparr>ci_nextBatchFn := Some ?rest\<rparr>)
    = (bs, Some NotEnoughData, NextChannel (cr\<lparr>ci_nextBatchFn := Some ?rest\<rparr>))"
    by (rule Cons.IH) (use Cons.prems(1) in \<open>simp_all add: encode_batches_def\<close>)
  moreover have "NextChannel (cr\<lparr>ci_nextBatchFn := Some ?rest\<rparr>) = NextChannel cr"
    by (simp add: NextChannel_def)
  ultimately show ?case by (simp del: pull_all.simps(2) add: pull_all.simps(2) [of "Suc (length bs)"])
qed

lemma channel_batches_pulled:
  assumes rlp: "rlp_roundtrip C"
    and fresh: "ci_nextBatchFn cr = None"
    and pulled: "pull (ci_prev cr) = (Inr data, p)"
    and zlib: "zlib_NewReader C data = Inr (encode_batches C bs, None)"
    and size: "length (encode_batches C bs) \<le> 10000000"
  shows "pull_all (Suc (length bs)) (ChannelInReader_NextBatch C origin pull) cr
    = (bs, Some NotEnoughData, cr\<lparr>ci_prev := p\<rparr>)"
proof -
  let ?f = "\<lparr>br_rlpReader = \<lparr>rs_data = encode_batches C bs, rs_end = None, rs_limit = 10000000\<rparr>,
    br_l1InclusionBlock = origin p\<rparr>"
  let ?cr = "cr\<lparr>ci_prev := p, ci_nextBatchFn := Some ?f\<rparr>"
  have "ensure_reader C origin pull cr = ensure_reader C origin pull ?cr"
    using assms by (simp add: ensure_reader_def WriteChannel_def BatchReader_def ChannelInReader_Origin_def)
  then have "ChannelInReader_NextBatch C origin pull cr = ChannelInReader_NextBatch C origin pull ?cr"
    by (simp add: ChannelInReader_NextBatch_def)
  then have "pull_all (Suc (length bs)) (ChannelInReader_NextBatch C origin pull) cr
      = pull_all (Suc (length bs)) (ChannelInReader_NextBatch C origin pull) ?cr"
    by simp
  also have "\<dots> = (bs, Some NotEnoughData, NextChannel ?cr)"
    by (rule pull_batches [OF rlp size]) simp
  also have "NextChannel ?cr = cr\<lparr>ci_prev := p\<rparr>"
    using fresh by (cases cr) (simp add: NextChannel_def)
  finally show ?thesis .
qed

text \<open>
  A channel is read back batch by batch: when the channel bank hands over a channel whose
  decompressed data is a sequence of encoded batches, of at most \<open>10000000\<close> bytes in total, the channel
  reader returns exactly these batches in order, one per call, and then asks for more data with its
  reader closed, provided the RLP library decodes what it encoded.
\<close>

lemma channel_batches_read_back:
  assumes rlp: "rlp_roundtrip C"
    and fresh: "ci_nextBatchFn cr = None"
    and pulled: "pull (ci_prev cr) = (Inr data, p)"
    and zlib: "zlib_NewReader C data = Inr (encode_batches C bs, None)"
    and size: "length (encode_batches C bs) \<le> 10000000"
  shows "pull_all (Suc (length bs)) (ChannelInReader_NextBatch C origin pull) cr
    = (bs, Some NotEnoughData, cr\<lparr>ci_prev := p\<rparr>)"
  by (rule channel_batches_pulled [where pull = pull and data = data, OF rlp fresh pulled zlib size])

subsection \<open>A concrete codec\<close>

text \<open>
  A self-delimiting encoding of byte strings, every byte preceded by a 1 and the end marked by a 0, and
  with it an encoding of batches. It satisfies what is assumed of the RLP library.
\<close>

fun mark_bytes :: "bytes \<Rightarrow> bytes" where
  "mark_bytes [] = [0]"
| "mark_bytes (b # bs) = 1 # b # mark_bytes bs"

fun unmark_bytes :: "bytes \<Rightarrow> (bytes \<times> bytes) option" where
  "unmark_bytes (m # r) =
    (if m = 0 then Some ([], r)
     else case r of [] \<Rightarrow> None
       | b # r' \<Rightarrow> map_option (\<lambda>(bs, r). (b # bs, r)) (unmark_bytes r'))"
| "unmark_bytes [] = None"

fun unmark_list :: "nat \<Rightarrow> bytes \<Rightarrow> bytes list option" where
  "unmark_list 0 r = None"
| "unmark_list (Suc n) [] = Some []"
| "unmark_list (Suc n) r =
    (case unmark_bytes r of None \<Rightarrow> None
     | Some (bs, r) \<Rightarrow> map_option ((#) bs) (unmark_list n r))"

lemma unmark_mark [simp]: "unmark_bytes (mark_bytes bs @ r) = Some (bs, r)"
  by (induction bs) auto

lemma length_mark_bytes [simp]: "length (mark_bytes bs) = 2 * length bs + 1"
  by (induction bs) auto

lemma mark_bytes_nonempty [simp]: "mark_bytes bs \<noteq> []"
  by (cases bs) auto

lemma unmark_list_mark: "length ts < n \<Longrightarrow> unmark_list n (concat (map mark_bytes ts)) = Some ts"
proof (induction ts arbitrary: n)
  case Nil
  then show ?case by (cases n) auto
next
  case (Cons t ts)
  then obtain m where m: "n = Suc m" "length ts < m" by (cases n) auto
  obtain b r where b: "mark_bytes t @ concat (map mark_bytes ts) = b # r"
    by (cases "mark_bytes t @ concat (map mark_bytes ts)") auto
  with unmark_mark [of t "concat (map mark_bytes ts)"] Cons.IH [OF m(2)] show ?case by (simp add: m(1))
qed

lemma length_mark_list: "length ts \<le> length (concat (map mark_bytes ts))"
proof (induction ts)
  case (Cons t ts)
  then show ?case by (cases t) auto
qed simp

definition sample_rlp :: batch_codec where
  "sample_rlp =
    \<lparr>rlp_EncodeBatchV1 = (\<lambda>b. word_bytes (bt_ParentHash b) @ word_bytes (bt_EpochNum b)
        @ word_bytes (bt_EpochHash b) @ word_bytes (bt_Timestamp b)
        @ concat (map mark_bytes (bt_Transactions b))),
     rlp_DecodeBatchV1 = (\<lambda>d. case unmark_list (Suc (length d)) (drop 80 d) of
        None \<Rightarrow> Inl ''rlp: invalid''
      | Some txs \<Rightarrow> Inr \<lparr>bt_ParentHash = bytes_word (take 32 d), bt_EpochNum = bytes_word (slice 32 40 d),
          bt_EpochHash = bytes_word (slice 40 72 d), bt_Timestamp = bytes_word (slice 72 80 d),
          bt_Transactions = txs\<rparr>),
     rlp_EncodeBytes = mark_bytes,
     rlp_Stream_Bytes = (\<lambda>s. case unmark_bytes (rs_data s) of
        None \<Rightarrow> (Inl ReadEOF, s)
      | Some (v, r) \<Rightarrow> (Inr v, s\<lparr>rs_data := r, rs_limit := rs_limit s - (length (rs_data s) - length r)\<rparr>)),
     zlib_NewReader = (\<lambda>d. Inr (d, None))\<rparr>"

lemma rlp_roundtrip_sample: "rlp_roundtrip sample_rlp"
proof -
  have "length ts < Suc (80 + length (concat (map mark_bytes ts)))" for ts
    using length_mark_list [of ts] by simp
  then show ?thesis
    by (auto simp: rlp_roundtrip_def sample_rlp_def slice_def unmark_list_mark
        simp del: unmark_list.simps)
qed

definition sample_batches :: "batch_data list" where
  "sample_batches = [bw_Batch sample_batch, bw_Batch sample_batch]"

end
