(* ===== verification/Batch_Queue.thy ===== *)
theory Batch_Queue
  imports Channel_In
begin

text \<open>
  The batch queue: \<^verbatim>\<open>op-node/rollup/derive/batch_queue.go\<close>. It buffers batches by L2 timestamp together
  with the L1 blocks seen since the origin of the safe head, picks the next valid batch, and creates
  empty batches when the sequencing window has expired.
\<close>

record 'p batch_queue =
  bq_origin :: l1_block_ref
  bq_l1Blocks :: "l1_block_ref list"
  bq_batches :: "u64 \<Rightarrow> batch_with_l1 list option"
  bq_prev :: 'p

definition NewBatchQueue :: "'p \<Rightarrow> 'p batch_queue" where
  "NewBatchQueue prev = \<lparr>bq_origin = zero_l1, bq_l1Blocks = [], bq_batches = Map.empty, bq_prev = prev\<rparr>"

definition BatchQueue_Origin :: "('p \<Rightarrow> l1_block_ref) \<Rightarrow> 'p batch_queue \<Rightarrow> l1_block_ref" where
  "BatchQueue_Origin prev_Origin bq = prev_Origin (bq_prev bq)"

definition BatchQueue_Reset :: "l1_block_ref \<Rightarrow> 'p batch_queue \<Rightarrow> derr \<times> 'p batch_queue" where
  "BatchQueue_Reset base bq =
     (EOF, bq\<lparr>bq_origin := base, bq_batches := Map.empty, bq_l1Blocks := [base]\<rparr>)"

text \<open>The value of a map entry, the nil slice if there is none.\<close>

definition batches_at :: "'p batch_queue \<Rightarrow> u64 \<Rightarrow> batch_with_l1 list" where
  "batches_at bq t = (case bq_batches bq t of None \<Rightarrow> [] | Some bs \<Rightarrow> bs)"

text \<open>\<^verbatim>\<open>AddBatch\<close>; \<open>None\<close> is the panic when no L1 origin was prepared.\<close>

definition AddBatch :: "config \<Rightarrow> batch_data \<Rightarrow> l2_block_ref \<Rightarrow> 'p batch_queue \<Rightarrow> 'p batch_queue option" where
  "AddBatch cfg batch l2SafeHead bq =
    (if bq_l1Blocks bq = [] then None
     else let data = \<lparr>bw_L1InclusionBlock = bq_origin bq, bw_Batch = batch\<rparr> in
       if CheckBatch cfg (bq_l1Blocks bq) l2SafeHead data = BatchDrop then Some bq
       else Some (bq\<lparr>bq_batches := (bq_batches bq)
              (bt_Timestamp batch \<mapsto> batches_at bq (bt_Timestamp batch) @ [data])\<rparr>))"

text \<open>
  The loop over the candidates of the next timestamp. At most one batch is ever put into
  \<^verbatim>\<open>remaining\<close> before the loop is left: the undecided one, which is then the whole of it.
\<close>

datatype loop_exit =
    LoopEnd
  | LoopFuture
  | LoopUndecided batch_with_l1
  | LoopAccept batch_with_l1 "batch_with_l1 list"

fun batchLoop :: "config \<Rightarrow> l1_block_ref list \<Rightarrow> l2_block_ref \<Rightarrow> batch_with_l1 list \<Rightarrow> loop_exit" where
  "batchLoop cfg l1Blocks l2SafeHead [] = LoopEnd"
| "batchLoop cfg l1Blocks l2SafeHead (batch # later) =
    (case CheckBatch cfg l1Blocks l2SafeHead batch of
       BatchFuture \<Rightarrow> LoopFuture
     | BatchDrop \<Rightarrow> batchLoop cfg l1Blocks l2SafeHead later
     | BatchAccept \<Rightarrow> LoopAccept batch later
     | BatchUndecided \<Rightarrow> LoopUndecided batch)"

definition empty_batch :: "l2_block_ref \<Rightarrow> l1_block_ref \<Rightarrow> u64 \<Rightarrow> batch_data" where
  "empty_batch l2SafeHead epoch timestamp =
     \<lparr>bt_ParentHash = l2_Hash l2SafeHead, bt_EpochNum = l1_Number epoch, bt_EpochHash = l1_Hash epoch,
      bt_Timestamp = timestamp, bt_Transactions = []\<rparr>"

text \<open>The last part of \<^verbatim>\<open>deriveNextBatch\<close>, when no candidate was accepted.\<close>

definition force_empty_batch ::
    "config \<Rightarrow> bool \<Rightarrow> l2_block_ref \<Rightarrow> l1_block_ref \<Rightarrow> 'p batch_queue \<Rightarrow> (batch_data, 'p batch_queue) outcome" where
  "force_empty_batch cfg outOfData l2SafeHead epoch bq =
    (let nextTimestamp = l2_Time l2SafeHead + BlockTime cfg;
         expiryEpoch = l1_Number epoch + SeqWindowSize cfg;
         forceNextEpoch = ((expiryEpoch = l1_Number (bq_origin bq) \<and> outOfData)
                           \<or> expiryEpoch < l1_Number (bq_origin bq))
     in if \<not> forceNextEpoch then (Inl EOF, bq)
        else if length (bq_l1Blocks bq) < 2 then (Inl EOF, bq)
        else let nextEpoch = bq_l1Blocks bq ! 1 in
          if nextTimestamp < l1_Time nextEpoch
          then (Inr (empty_batch l2SafeHead epoch nextTimestamp), bq)
          else (Inr (empty_batch l2SafeHead nextEpoch nextTimestamp),
                bq\<lparr>bq_l1Blocks := tl (bq_l1Blocks bq)\<rparr>))"

definition deriveNextBatch ::
    "config \<Rightarrow> bool \<Rightarrow> l2_block_ref \<Rightarrow> 'p batch_queue \<Rightarrow> (batch_data, 'p batch_queue) outcome" where
  "deriveNextBatch cfg outOfData l2SafeHead bq =
    (case bq_l1Blocks bq of
       [] \<Rightarrow> (Inl (NewCriticalError ''cannot derive next batch, no origin was prepared''), bq)
     | epoch # _ \<Rightarrow>
    if l2_L1Origin l2SafeHead \<noteq> L1BlockRef_ID epoch
    then (Inl (NewResetError ''buffered L1 chain epoch does not match safe head''), bq)
    else let nextTimestamp = l2_Time l2SafeHead + BlockTime cfg in
    case batchLoop cfg (bq_l1Blocks bq) l2SafeHead (batches_at bq nextTimestamp) of
      LoopFuture \<Rightarrow> (Inl (NewCriticalError ''found batch marked as future batch''), bq)
    | LoopUndecided batch \<Rightarrow>
        (Inl EOF, bq\<lparr>bq_batches := (bq_batches bq)(nextTimestamp \<mapsto> [batch])\<rparr>)
    | LoopAccept batch remaining \<Rightarrow>
        let bq = bq\<lparr>bq_batches := (bq_batches bq)
              (nextTimestamp := if remaining = [] then None else Some remaining)\<rparr>;
            bq = (if bt_EpochNum (bw_Batch batch) = l1_Number epoch + 1
                  then bq\<lparr>bq_l1Blocks := tl (bq_l1Blocks bq)\<rparr> else bq)
        in (Inr (bw_Batch batch), bq)
    | LoopEnd \<Rightarrow>
        force_empty_batch cfg outOfData l2SafeHead epoch
          (bq\<lparr>bq_batches := (bq_batches bq)(nextTimestamp := None)\<rparr>))"

text \<open>The first part of \<^verbatim>\<open>NextBatch\<close>: following the origin of the previous stage.\<close>

definition advance_origin :: "('p \<Rightarrow> l1_block_ref) \<Rightarrow> bool \<Rightarrow> 'p batch_queue \<Rightarrow> 'p batch_queue" where
  "advance_origin prev_Origin originBehind bq =
    (if bq_origin bq \<noteq> prev_Origin (bq_prev bq) then
       let bq = bq\<lparr>bq_origin := prev_Origin (bq_prev bq)\<rparr> in
       if \<not> originBehind then bq\<lparr>bq_l1Blocks := bq_l1Blocks bq @ [bq_origin bq]\<rparr>
       else bq\<lparr>bq_l1Blocks := []\<rparr>
     else bq)"

text \<open>The last part: deriving a batch and translating its \<^verbatim>\<open>io.EOF\<close>.\<close>

definition finish_NextBatch ::
    "config \<Rightarrow> bool \<Rightarrow> bool \<Rightarrow> l2_block_ref \<Rightarrow> 'p batch_queue \<Rightarrow> (batch_data, 'p batch_queue) outcome" where
  "finish_NextBatch cfg originBehind outOfData safeL2Head bq =
    (if originBehind then (if outOfData then (Inl EOF, bq) else (Inl NotEnoughData, bq))
     else case deriveNextBatch cfg outOfData safeL2Head bq of
         (Inl EOF, bq) \<Rightarrow> if outOfData then (Inl EOF, bq) else (Inl NotEnoughData, bq)
       | (Inl e, bq) \<Rightarrow> (Inl e, bq)
       | (Inr batch, bq) \<Rightarrow> (Inr batch, bq))"

definition BatchQueue_NextBatch ::
    "config \<Rightarrow> ('p \<Rightarrow> l1_block_ref) \<Rightarrow> ('p \<Rightarrow> (batch_data, 'p) outcome) \<Rightarrow> l2_block_ref \<Rightarrow> 'p batch_queue
      \<Rightarrow> (batch_data, 'p batch_queue) outcome" where
  "BatchQueue_NextBatch cfg prev_Origin prev_NextBatch safeL2Head bq =
    (let originBehind = l1_Number (bq_origin bq) < id_Number (l2_L1Origin safeL2Head);
         bq = advance_origin prev_Origin originBehind bq
     in case prev_NextBatch (bq_prev bq) of
          (Inl EOF, p) \<Rightarrow> finish_NextBatch cfg originBehind True safeL2Head (bq\<lparr>bq_prev := p\<rparr>)
        | (Inl e, p) \<Rightarrow> (Inl e, bq\<lparr>bq_prev := p\<rparr>)
        | (Inr batch, p) \<Rightarrow>
            if \<not> originBehind then
              (case AddBatch cfg batch safeL2Head (bq\<lparr>bq_prev := p\<rparr>) of
                 None \<Rightarrow> (Inl (Panic ''cannot add batch, no origin was prepared''), bq\<lparr>bq_prev := p\<rparr>)
               | Some bq \<Rightarrow> finish_NextBatch cfg originBehind False safeL2Head bq)
            else finish_NextBatch cfg originBehind False safeL2Head (bq\<lparr>bq_prev := p\<rparr>))"

section \<open>The invariant\<close>

text \<open>
  Batches are filed under their own timestamp, and the buffered L1 blocks are a chain that ends in the
  current origin.
\<close>

definition wf_batches :: "'p batch_queue \<Rightarrow> bool" where
  "wf_batches bq \<longleftrightarrow> (\<forall>t. \<forall>bw\<in>set (batches_at bq t). bt_Timestamp (bw_Batch bw) = t)"

definition wf_l1Blocks :: "'p batch_queue \<Rightarrow> bool" where
  "wf_l1Blocks bq \<longleftrightarrow> l1_chain (bq_l1Blocks bq)
     \<and> (bq_l1Blocks bq \<noteq> [] \<longrightarrow> last (bq_l1Blocks bq) = bq_origin bq)"

lemma batches_at_update [simp]:
  "batches_at (bq\<lparr>bq_batches := (bq_batches bq)(t := v)\<rparr>) u
    = (if u = t then (case v of None \<Rightarrow> [] | Some bs \<Rightarrow> bs) else batches_at bq u)"
  "batches_at (bq\<lparr>bq_l1Blocks := ls\<rparr>) u = batches_at bq u"
  "batches_at (bq\<lparr>bq_prev := p\<rparr>) u = batches_at bq u"
  "batches_at (bq\<lparr>bq_origin := og\<rparr>) u = batches_at bq u"
  by (simp_all add: batches_at_def)

lemma wf_AddBatch:
  assumes "wf_batches bq" and "AddBatch cfg b safe bq = Some bq'"
  shows "wf_batches bq'" "bq_l1Blocks bq' = bq_l1Blocks bq" "bq_origin bq' = bq_origin bq"
    "bq_prev bq' = bq_prev bq" "bq_l1Blocks bq \<noteq> []"
  using assms by (auto simp: AddBatch_def wf_batches_def Let_def split: if_splits)

lemma AddBatch_None: "AddBatch cfg b safe bq = None \<longleftrightarrow> bq_l1Blocks bq = []"
  by (simp add: AddBatch_def Let_def)

lemma batchLoop_accept:
  "batchLoop cfg ls safe cs = LoopAccept bw remaining \<Longrightarrow>
     \<exists>dropped. cs = dropped @ bw # remaining \<and> CheckBatch cfg ls safe bw = BatchAccept
       \<and> (\<forall>d\<in>set dropped. CheckBatch cfg ls safe d = BatchDrop)"
proof (induction cs)
  case (Cons c cs)
  then show ?case
    by (cases "CheckBatch cfg ls safe c") (fastforce intro: exI [of _ "[]"] exI [of _ "c # d" for d])+
qed simp

lemma batchLoop_end:
  "batchLoop cfg ls safe cs = LoopEnd \<longleftrightarrow> (\<forall>c\<in>set cs. CheckBatch cfg ls safe c = BatchDrop)"
  by (induction cs) (auto split: batch_validity.splits)

lemma batchLoop_undecided:
  "batchLoop cfg ls safe cs = LoopUndecided bw \<Longrightarrow> bw \<in> set cs \<and> CheckBatch cfg ls safe bw = BatchUndecided"
  by (induction cs) (auto split: batch_validity.splits)

lemma batchLoop_future:
  "batchLoop cfg ls safe cs = LoopFuture \<Longrightarrow> \<exists>bw\<in>set cs. CheckBatch cfg ls safe bw = BatchFuture"
  by (induction cs) (auto split: batch_validity.splits)

text \<open>A batch filed under the next timestamp is never found to be a future batch.\<close>

lemma CheckBatch_not_future:
  assumes "bt_Timestamp (bw_Batch bw) = l2_Time safe + BlockTime cfg"
  shows "CheckBatch cfg ls safe bw \<noteq> BatchFuture"
proof (cases ls)
  case (Cons epoch rest)
  show ?thesis
  proof (cases "l1_Hash epoch = id_Hash (l2_L1Origin safe)")
    case True
    then show ?thesis
      by (simp add: Cons CheckBatch_on_time [OF True assms] select_batch_origin_def split: list.split)
  qed (simp add: Cons CheckBatch_wrong_epoch)
qed (simp add: CheckBatch_def)

lemma no_future_candidates:
  assumes "wf_batches bq"
  shows "batchLoop cfg ls safe (batches_at bq (l2_Time safe + BlockTime cfg)) \<noteq> LoopFuture"
  using assms CheckBatch_not_future batchLoop_future unfolding wf_batches_def by blast

section \<open>What a derived batch looks like\<close>

definition extends_safe_head ::
    "config \<Rightarrow> l2_block_ref \<Rightarrow> batch_data \<Rightarrow> l1_block_ref list \<Rightarrow> l1_block_ref list \<Rightarrow> bool" where
  "extends_safe_head cfg safe b ls ls' \<longleftrightarrow>
     bt_ParentHash b = l2_Hash safe
     \<and> bt_Timestamp b = l2_Time safe + BlockTime cfg
     \<and> (\<forall>tx\<in>set (bt_Transactions b). tx \<noteq> [] \<and> hd tx \<noteq> DepositTxType)
     \<and> ls \<noteq> [] \<and> L1BlockRef_ID (hd ls) = l2_L1Origin safe
     \<and> ls' \<noteq> [] \<and> L1BlockRef_ID (hd ls') = BatchV1_Epoch b
     \<and> (ls' = ls \<or> ls' = tl ls)"

lemma accepted_extends:
  assumes chain: "l1_chain (epoch # rest)" and acc: "CheckBatch cfg (epoch # rest) safe bw = BatchAccept"
    and origin: "l2_L1Origin safe = L1BlockRef_ID epoch"
  shows "extends_safe_head cfg safe (bw_Batch bw) (epoch # rest)
    (if bt_EpochNum (bw_Batch bw) = l1_Number epoch + 1 then rest else epoch # rest)"
proof -
  from acc obtain og where sel: "select_batch_origin epoch rest (bt_EpochNum (bw_Batch bw)) = Inr og"
    and rest: "bt_EpochHash (bw_Batch bw) = l1_Hash og" "bt_ParentHash (bw_Batch bw) = l2_Hash safe"
      "bt_Timestamp (bw_Batch bw) = l2_Time safe + BlockTime cfg"
      "\<not> has_invalid_tx (bt_Transactions (bw_Batch bw))"
    unfolding CheckBatch_accept_cases by blast
  have succ: "l1_Number epoch \<noteq> l1_Number epoch + 1" by simp
  have next': "l1_Number n = l1_Number epoch + 1" if "rest = n # ns" for n ns
    using chain l1_chain_next(1) that by blast
  show ?thesis
    using sel rest origin succ next'
    by (auto simp: extends_safe_head_def has_invalid_tx_iff select_batch_origin_def BatchV1_Epoch_def
        L1BlockRef_ID_def split: if_split_asm list.splits)
qed

lemma force_empty_batch_Inr:
  assumes "force_empty_batch cfg ood safe epoch bq = (Inr b, bq')" and "bq_l1Blocks bq = epoch # rest"
  shows "\<exists>n ns. rest = n # ns \<and> bq_batches bq' = bq_batches bq \<and> bq_origin bq' = bq_origin bq
    \<and> bq_prev bq' = bq_prev bq
    \<and> (l1_Number epoch + SeqWindowSize cfg < l1_Number (bq_origin bq)
       \<or> ood \<and> l1_Number epoch + SeqWindowSize cfg = l1_Number (bq_origin bq))
    \<and> (if l2_Time safe + BlockTime cfg < l1_Time n
       then b = empty_batch safe epoch (l2_Time safe + BlockTime cfg) \<and> bq_l1Blocks bq' = epoch # rest
       else b = empty_batch safe n (l2_Time safe + BlockTime cfg) \<and> bq_l1Blocks bq' = rest)"
  using assms
  by (cases rest) (auto simp: force_empty_batch_def Let_def split: if_split_asm)

lemma force_empty_batch_Inl:
  "force_empty_batch cfg ood safe epoch bq = (Inl e, bq') \<Longrightarrow> e = EOF \<and> bq' = bq"
  by (auto simp: force_empty_batch_def Let_def split: if_split_asm)

text \<open>The two ways in which \<^verbatim>\<open>deriveNextBatch\<close> returns a batch.\<close>

lemma deriveNextBatch_cases:
  assumes "deriveNextBatch cfg ood safe bq = (Inr b, bq')"
  obtains
    (accepted) epoch rest bw remaining where
      "bq_l1Blocks bq = epoch # rest" "l2_L1Origin safe = L1BlockRef_ID epoch"
      "batchLoop cfg (epoch # rest) safe (batches_at bq (l2_Time safe + BlockTime cfg))
         = LoopAccept bw remaining" "b = bw_Batch bw"
      "bq' = bq\<lparr>bq_batches := (bq_batches bq)(l2_Time safe + BlockTime cfg :=
           if remaining = [] then None else Some remaining),
         bq_l1Blocks := if bt_EpochNum b = l1_Number epoch + 1 then rest else epoch # rest\<rparr>"
  | (forced) epoch rest where
      "bq_l1Blocks bq = epoch # rest" "l2_L1Origin safe = L1BlockRef_ID epoch"
      "batchLoop cfg (epoch # rest) safe (batches_at bq (l2_Time safe + BlockTime cfg)) = LoopEnd"
      "force_empty_batch cfg ood safe epoch
         (bq\<lparr>bq_batches := (bq_batches bq)(l2_Time safe + BlockTime cfg := None)\<rparr>) = (Inr b, bq')"
proof -
  from assms obtain epoch rest where ls: "bq_l1Blocks bq = epoch # rest"
    "l2_L1Origin safe = L1BlockRef_ID epoch"
    by (auto simp: deriveNextBatch_def split: list.splits if_splits)
  show ?thesis
  proof (cases "batchLoop cfg (epoch # rest) safe (batches_at bq (l2_Time safe + BlockTime cfg))")
    case LoopEnd
    with assms ls forced show ?thesis by (simp add: deriveNextBatch_def Let_def)
  next
    case (LoopAccept bw remaining)
    with assms ls have "b = bw_Batch bw"
      "bq' = bq\<lparr>bq_batches := (bq_batches bq)(l2_Time safe + BlockTime cfg :=
           if remaining = [] then None else Some remaining),
         bq_l1Blocks := if bt_EpochNum b = l1_Number epoch + 1 then rest else epoch # rest\<rparr>"
      by (auto simp: deriveNextBatch_def Let_def)
    with LoopAccept ls accepted show ?thesis by blast
  qed (use assms ls in \<open>simp_all add: deriveNextBatch_def Let_def\<close>)
qed

lemma deriveNextBatch_extends:
  assumes "l1_chain (bq_l1Blocks bq)" and "deriveNextBatch cfg ood safe bq = (Inr b, bq')"
  shows "extends_safe_head cfg safe b (bq_l1Blocks bq) (bq_l1Blocks bq')"
  using assms(2)
proof (cases rule: deriveNextBatch_cases)
  case (accepted epoch rest bw remaining)
  from batchLoop_accept [OF accepted(3)] have "CheckBatch cfg (epoch # rest) safe bw = BatchAccept" by blast
  with accepted_extends [of epoch rest] assms(1) accepted show ?thesis by simp
next
  case (forced epoch rest)
  from force_empty_batch_Inr [OF forced(4), of rest] forced obtain n ns where
    "rest = n # ns" and "if l2_Time safe + BlockTime cfg < l1_Time n
       then b = empty_batch safe epoch (l2_Time safe + BlockTime cfg) \<and> bq_l1Blocks bq' = epoch # rest
       else b = empty_batch safe n (l2_Time safe + BlockTime cfg) \<and> bq_l1Blocks bq' = rest"
    by auto
  with forced(1,2) show ?thesis
    by (auto simp: extends_safe_head_def empty_batch_def BatchV1_Epoch_def L1BlockRef_ID_def
        split: if_split_asm)
qed

text \<open>Deriving a batch keeps the invariant and touches neither the origin nor the previous stage.\<close>

lemma deriveNextBatch_frame:
  assumes "deriveNextBatch cfg ood safe bq = (r, bq')"
  shows "bq_origin bq' = bq_origin bq" "bq_prev bq' = bq_prev bq"
  using assms
  by (auto simp: deriveNextBatch_def force_empty_batch_def Let_def
      split: list.splits if_splits loop_exit.splits)

lemma deriveNextBatch_error:
  assumes "deriveNextBatch cfg ood safe bq = (Inl e, bq')"
  shows "bq_l1Blocks bq' = bq_l1Blocks bq"
    "\<And>t. set (batches_at bq' t) \<subseteq> set (batches_at bq t)"
  using assms batchLoop_undecided
  by (fastforce simp: deriveNextBatch_def Let_def dest: force_empty_batch_Inl
      split: list.splits if_splits loop_exit.splits)+

lemma deriveNextBatch_batches:
  assumes "deriveNextBatch cfg ood safe bq = (Inr b, bq')"
  shows "set (batches_at bq' t) \<subseteq> set (batches_at bq t)"
  using assms
proof (cases rule: deriveNextBatch_cases)
  case (accepted epoch rest bw remaining)
  then show ?thesis using batchLoop_accept [OF accepted(3)] by auto
next
  case (forced epoch rest)
  from force_empty_batch_Inr [OF forced(4), of rest] forced show ?thesis
    by (auto simp: batches_at_def split: option.splits if_splits)
qed

section \<open>The stage\<close>

definition wf_bq :: "'p batch_queue \<Rightarrow> bool" where
  "wf_bq bq \<longleftrightarrow> wf_batches bq \<and> wf_l1Blocks bq"

lemma wf_batches_subset:
  "wf_batches bq \<Longrightarrow> (\<And>t. set (batches_at bq' t) \<subseteq> set (batches_at bq t)) \<Longrightarrow> wf_batches bq'"
  unfolding wf_batches_def by blast

lemma wf_deriveNextBatch:
  assumes "wf_bq bq" and "deriveNextBatch cfg ood safe bq = (r, bq')"
  shows "wf_bq bq'"
proof (cases r)
  case (Inl e)
  with assms deriveNextBatch_error wf_batches_subset deriveNextBatch_frame show ?thesis
    unfolding wf_bq_def wf_l1Blocks_def by metis
next
  case (Inr b)
  have "wf_batches bq'"
    using assms deriveNextBatch_batches wf_batches_subset unfolding Inr wf_bq_def by metis
  moreover have "extends_safe_head cfg safe b (bq_l1Blocks bq) (bq_l1Blocks bq')"
    using assms deriveNextBatch_extends unfolding Inr wf_bq_def wf_l1Blocks_def by blast
  then have "bq_l1Blocks bq' \<noteq> []" "bq_l1Blocks bq' = bq_l1Blocks bq \<or> bq_l1Blocks bq' = tl (bq_l1Blocks bq)"
    by (simp_all add: extends_safe_head_def)
  with assms(1) deriveNextBatch_frame(1) [OF assms(2)] have "wf_l1Blocks bq'"
    by (auto simp: wf_bq_def wf_l1Blocks_def l1_chain_tl last_tl)
  ultimately show ?thesis by (simp add: wf_bq_def)
qed

text \<open>The origin of the previous stage is the one the queue is at, or the L1 block after it.\<close>

definition origin_follows :: "('p \<Rightarrow> l1_block_ref) \<Rightarrow> 'p batch_queue \<Rightarrow> bool" where
  "origin_follows prev_Origin bq \<longleftrightarrow>
     bq_origin bq = prev_Origin (bq_prev bq) \<or> l1_chain [bq_origin bq, prev_Origin (bq_prev bq)]"

lemma wf_advance_origin:
  assumes "wf_bq bq" and "origin_follows prev_Origin bq"
  shows "wf_bq (advance_origin prev_Origin behind bq)"
  using assms
  by (auto simp: wf_bq_def wf_batches_def wf_l1Blocks_def origin_follows_def advance_origin_def
      l1_chain_append Let_def)

lemma advance_origin_prev [simp]: "bq_prev (advance_origin prev_Origin behind bq) = bq_prev bq"
  by (simp add: advance_origin_def Let_def)

lemma wf_bq_prev [simp]: "wf_bq (bq\<lparr>bq_prev := p\<rparr>) \<longleftrightarrow> wf_bq bq"
  by (simp add: wf_bq_def wf_batches_def wf_l1Blocks_def)

lemma finish_NextBatch_prev:
  "finish_NextBatch cfg behind ood safe bq = (r, bq') \<Longrightarrow> bq_prev bq' = bq_prev bq"
  by (auto simp: finish_NextBatch_def dest: deriveNextBatch_frame
      split: if_splits prod.splits sum.splits derr.splits)

lemma wf_finish_NextBatch:
  "wf_bq bq \<Longrightarrow> finish_NextBatch cfg behind ood safe bq = (r, bq') \<Longrightarrow> wf_bq bq'"
  by (auto simp: finish_NextBatch_def dest: wf_deriveNextBatch
      split: if_splits prod.splits sum.splits derr.splits)

lemma finish_NextBatch_Inr:
  "finish_NextBatch cfg behind ood safe bq = (Inr b, bq') \<Longrightarrow>
     \<not> behind \<and> deriveNextBatch cfg ood safe bq = (Inr b, bq')"
  by (auto simp: finish_NextBatch_def split: if_splits prod.splits sum.splits derr.splits)

text \<open>The ways through \<^verbatim>\<open>NextBatch\<close>: it stops early, or it goes on to the last part.\<close>

lemma NextBatch_cases:
  assumes "BatchQueue_NextBatch cfg prev_Origin prev_NextBatch safe bq = (r, bq')"
  obtains
    (stopped) q p e where "prev_NextBatch (bq_prev bq) = (q, p)" "r = Inl e"
      "bq' = (advance_origin prev_Origin
         (l1_Number (bq_origin bq) < id_Number (l2_L1Origin safe)) bq)\<lparr>bq_prev := p\<rparr>"
  | (derived) q p ood bq1 where "prev_NextBatch (bq_prev bq) = (q, p)"
      "finish_NextBatch cfg (l1_Number (bq_origin bq) < id_Number (l2_L1Origin safe)) ood safe bq1 = (r, bq')"
      "let adv = (advance_origin prev_Origin
         (l1_Number (bq_origin bq) < id_Number (l2_L1Origin safe)) bq)\<lparr>bq_prev := p\<rparr>
       in bq1 = adv \<or> (\<exists>batch. AddBatch cfg batch safe adv = Some bq1)"
proof -
  let ?behind = "l1_Number (bq_origin bq) < id_Number (l2_L1Origin safe)"
  let ?adv = "\<lambda>p. (advance_origin prev_Origin ?behind bq)\<lparr>bq_prev := p\<rparr>"
  obtain q p where q: "prev_NextBatch (bq_prev bq) = (q, p)" by fastforce
  show ?thesis
  proof (cases q)
    case (Inl e)
    with assms q stopped [of q p] derived [of q p True "?adv p"] show ?thesis
      by (cases e) (auto simp: BatchQueue_NextBatch_def Let_def)
  next
    case (Inr batch)
    with assms q have step: "(if \<not> ?behind then
        (case AddBatch cfg batch safe (?adv p) of
           None \<Rightarrow> (Inl (Panic ''cannot add batch, no origin was prepared''), ?adv p)
         | Some bq \<Rightarrow> finish_NextBatch cfg ?behind False safe bq)
        else finish_NextBatch cfg ?behind False safe (?adv p)) = (r, bq')"
      by (simp add: BatchQueue_NextBatch_def Let_def)
    show ?thesis
    proof (cases "?behind")
      case True
      with step q derived [of q p False "?adv p"] show ?thesis by simp
    next
      case False
      with step q stopped [of q p] derived [of q p False] show ?thesis
        by (cases "AddBatch cfg batch safe (?adv p)") (auto simp: Let_def)
    qed
  qed
qed

locale batch_queue_stage = batch_provider inv origin pull
  for inv :: "'p \<Rightarrow> bool" and origin :: "'p \<Rightarrow> l1_block_ref"
    and pull :: "'p \<Rightarrow> (batch_data, 'p) outcome" +
  fixes cfg :: config
begin

lemma NextBatch_prev_step:
  assumes "BatchQueue_NextBatch cfg origin pull safe bq = (r, bq')"
  shows "\<exists>q. pull (bq_prev bq) = (q, bq_prev bq')"
  using assms
proof (cases rule: NextBatch_cases)
  case (derived q p ood bq1)
  then have "bq_prev bq1 = p" by (auto simp: Let_def AddBatch_def split: if_splits)
  with derived finish_NextBatch_prev [OF derived(2)] show ?thesis by simp
qed auto

lemma NextBatch_wf:
  assumes "wf_bq bq" and "origin_follows origin bq"
    and "BatchQueue_NextBatch cfg origin pull safe bq = (r, bq')"
  shows "wf_bq bq'"
  using assms(3)
proof (cases rule: NextBatch_cases)
  case (stopped q p e)
  with wf_advance_origin assms show ?thesis by simp
next
  case (derived q p ood bq1)
  let ?adv = "(advance_origin origin (l1_Number (bq_origin bq) < id_Number (l2_L1Origin safe)) bq)\<lparr>bq_prev := p\<rparr>"
  have adv: "wf_bq ?adv" using wf_advance_origin assms by simp
  have "wf_bq bq1" if "AddBatch cfg batch safe ?adv = Some bq1" for batch
    using wf_AddBatch [OF _ that] adv by (simp add: wf_bq_def wf_l1Blocks_def)
  with derived(3) adv have "wf_bq bq1" unfolding Let_def by blast
  with derived(2) show ?thesis by (rule wf_finish_NextBatch [rotated])
qed

lemma NextBatch_extends:
  assumes "wf_bq bq" and "origin_follows origin bq"
    and "BatchQueue_NextBatch cfg origin pull safe bq = (Inr b, bq')"
  shows "extends_safe_head cfg safe b (bq_l1Blocks (advance_origin origin False bq)) (bq_l1Blocks bq')"
  using assms(3)
proof (cases rule: NextBatch_cases)
  case (derived q p ood bq1)
  from finish_NextBatch_Inr [OF derived(2)]
  have behind: "\<not> l1_Number (bq_origin bq) < id_Number (l2_L1Origin safe)"
    and step: "deriveNextBatch cfg ood safe bq1 = (Inr b, bq')" by blast+
  let ?adv = "(advance_origin origin False bq)\<lparr>bq_prev := p\<rparr>"
  have adv: "wf_bq ?adv" using wf_advance_origin assms by simp
  have "bq_l1Blocks bq1 = bq_l1Blocks ?adv" if "AddBatch cfg batch safe ?adv = Some bq1" for batch
    using wf_AddBatch(2) [OF _ that] adv by (simp add: wf_bq_def)
  with derived(3) behind have same: "bq_l1Blocks bq1 = bq_l1Blocks ?adv" by (auto simp: Let_def)
  with adv have "l1_chain (bq_l1Blocks bq1)" by (simp add: wf_bq_def wf_l1Blocks_def)
  from deriveNextBatch_extends [OF this step] same show ?thesis by simp
qed simp

end

sublocale batch_queue_stage \<subseteq> queue: pull_stage "\<lambda>bq. inv (bq_prev bq)" "BatchQueue_Origin origin"
    "BatchQueue_NextBatch cfg origin pull safe" for safe
proof
  show "inv (bq_prev bq')"
    if "inv (bq_prev bq)" "BatchQueue_NextBatch cfg origin pull safe bq = (r, bq')" for bq r bq'
    using NextBatch_prev_step [OF that(2)] pull_inv that(1) by blast
  show "BatchQueue_Origin origin bq' = BatchQueue_Origin origin bq"
    if "inv (bq_prev bq)" "BatchQueue_NextBatch cfg origin pull safe bq = (r, bq')" for bq r bq'
    unfolding BatchQueue_Origin_def using NextBatch_prev_step [OF that(2)] pull_origin that(1) by blast
qed

text \<open>The queue of the pipeline reads from the channel reader.\<close>

type_synonym bank_state = "l1_traversal l1_retrieval channel_bank"
type_synonym reader_state = "bank_state channel_in_reader"

abbreviation reader_pull :: "config \<Rightarrow> batch_codec \<Rightarrow> tx_signer \<Rightarrow> l1_fetcher \<Rightarrow> reader_state
    \<Rightarrow> (batch_data, reader_state) outcome" where
  "reader_pull cfg C Sender l1 \<equiv> ChannelInReader_NextBatch C bank_origin (bank_pull cfg Sender l1)"

abbreviation reader_origin :: "reader_state \<Rightarrow> l1_block_ref" where
  "reader_origin \<equiv> ChannelInReader_Origin bank_origin"

interpretation batches: batch_queue_stage "\<lambda>cr. wf_bank (ci_prev cr) \<and> True" reader_origin
    "reader_pull cfg C Sender l1" cfg for cfg C Sender l1
  using channel_reader.reader.batch_provider_axioms by (intro batch_queue_stage.intro)

section \<open>Properties\<close>

text \<open>
  C5. Every batch the queue hands out is a correct next step of the chain: it builds on the safe head,
  has the next timestamp, carries no empty transactions and no deposits, its epoch is the first of the
  L1 blocks the queue keeps from then on (the origin of the safe head or the L1 block after it), and
  the queue is again well formed. So once a block is built from the batch, the queue's epoch matches
  the new safe head.
\<close>

theorem derived_batch_extends_safe_head:
  assumes "wf_bq bq" and "origin_follows reader_origin bq"
    and "BatchQueue_NextBatch cfg reader_origin (reader_pull cfg C Sender l1) safe bq = (Inr b, bq')"
  shows "extends_safe_head cfg safe b (bq_l1Blocks (advance_origin reader_origin False bq)) (bq_l1Blocks bq')
    \<and> wf_bq bq'"
  using batches.NextBatch_extends batches.NextBatch_wf assms by blast

definition sample_reader :: reader_state where
  "sample_reader = \<lparr>ci_nextBatchFn = Some
       \<lparr>br_rlpReader = \<lparr>rs_data = encode_batches sample_rlp [bw_Batch sample_batch], rs_end = None, rs_limit = 1000\<rparr>,
        br_l1InclusionBlock = sample_l1 ! 1\<rparr>,
     ci_prev = NewChannelBank \<lparr>lr_datas = None, lr_prev = \<lparr>lt_block = sample_l1 ! 1, lt_done = False\<rparr>\<rparr>\<rparr>"

definition sample_queue :: "reader_state batch_queue" where
  "sample_queue = \<lparr>bq_origin = sample_l1 ! 1, bq_l1Blocks = sample_l1, bq_batches = Map.empty,
     bq_prev = sample_reader\<rparr>"

lemma sample_queue_wf: "wf_bq sample_queue" "origin_follows reader_origin sample_queue"
  by (simp_all add: wf_bq_def wf_batches_def batches_at_def wf_l1Blocks_def sample_queue_def sample_l1_def
      origin_follows_def sample_reader_def ChannelInReader_Origin_def NewChannelBank_def
      ChannelBank_Origin_def L1Retrieval_Origin_def L1Traversal_Origin_def)

lemma sample_reader_pull:
  "\<exists>cr'. reader_pull cfg sample_rlp Sender l1 sample_reader = (Inr (bw_Batch sample_batch), cr')"
proof -
  have "length (BatchData_EncodeRLP sample_rlp (bw_Batch sample_batch)) \<le> 1000"
    by (simp add: BatchData_EncodeRLP_def BatchData_encodeTyped_def sample_rlp_def sample_batch_def)
  then show ?thesis
    using DecodeRLP_EncodeRLP [OF rlp_roundtrip_sample, of "bw_Batch sample_batch" 1000 "[]"]
    by (simp add: ChannelInReader_NextBatch_def ensure_reader_def sample_reader_def BatchReader_next_def
        encode_batches_def)
qed

lemma sample_CheckBatch: "CheckBatch sample_config sample_l1 sample_safe sample_batch = BatchAccept"
  by (simp add: CheckBatch_def sample_batch_defs Let_def DepositTxType_def select_batch_origin_def)

lemma sample_NextBatch:
  "\<exists>bq'. BatchQueue_NextBatch sample_config reader_origin (reader_pull sample_config sample_rlp Sender l1)
      sample_safe sample_queue = (Inr (bw_Batch sample_batch), bq')"
proof -
  obtain cr' where pull: "reader_pull sample_config sample_rlp Sender l1 sample_reader
      = (Inr (bw_Batch sample_batch), cr')"
    using sample_reader_pull by blast
  have eq: "advance_origin reader_origin False sample_queue = sample_queue"
    by (simp add: advance_origin_def sample_queue_def sample_reader_def
        ChannelInReader_Origin_def NewChannelBank_def
        ChannelBank_Origin_def L1Retrieval_Origin_def L1Traversal_Origin_def)
  let ?bq = "sample_queue\<lparr>bq_prev := cr', bq_batches := [106 \<mapsto> [sample_batch]]\<rparr>"
  have "\<lparr>bw_L1InclusionBlock = sample_l1 ! 1, bw_Batch = bw_Batch sample_batch\<rparr> = sample_batch"
    "bt_Timestamp (bw_Batch sample_batch) = 106"
    by (simp_all add: sample_batch_def)
  then have add: "AddBatch sample_config (bw_Batch sample_batch) sample_safe (sample_queue\<lparr>bq_prev := cr'\<rparr>)
      = Some ?bq"
    using sample_CheckBatch by (simp add: AddBatch_def sample_queue_def batches_at_def sample_l1_def Let_def)
  obtain epoch rest where epoch: "sample_l1 = epoch # rest" "l2_L1Origin sample_safe = L1BlockRef_ID epoch"
    by (simp add: sample_batch_defs L1BlockRef_ID_def)
  have time: "l2_Time sample_safe + BlockTime sample_config = 106"
    and current: "\<not> l1_Number (bq_origin sample_queue) < id_Number (l2_L1Origin sample_safe)"
    by (simp_all add: sample_queue_def sample_batch_defs)
  have "batchLoop sample_config sample_l1 sample_safe [sample_batch] = LoopAccept sample_batch []"
    using sample_CheckBatch by simp
  then have "\<exists>bq'. deriveNextBatch sample_config False sample_safe ?bq
      = (Inr (bw_Batch sample_batch), bq')"
    by (simp add: deriveNextBatch_def batches_at_def sample_queue_def time epoch Let_def del: batchLoop.simps)
  moreover have "bq_prev sample_queue = sample_reader" by (simp add: sample_queue_def)
  ultimately show ?thesis
    using current pull add by (auto simp: BatchQueue_NextBatch_def eq finish_NextBatch_def Let_def)
qed

theorem derived_batch_extends_safe_head_witness:
  "\<exists>b bq'. BatchQueue_NextBatch sample_config reader_origin
      (reader_pull sample_config sample_rlp (\<lambda>cfg tx. None) no_l1) sample_safe sample_queue = (Inr b, bq')
    \<and> extends_safe_head sample_config sample_safe b
        (bq_l1Blocks (advance_origin reader_origin False sample_queue)) (bq_l1Blocks bq')
    \<and> wf_bq bq'"
  using derived_batch_extends_safe_head [OF sample_queue_wf] sample_NextBatch by blast

text \<open>The choice of the next batch: the first valid candidate, or an empty batch after the window expired.\<close>

definition chosen_batch ::
    "config \<Rightarrow> bool \<Rightarrow> l2_block_ref \<Rightarrow> 'p batch_queue \<Rightarrow> batch_data \<Rightarrow> 'p batch_queue \<Rightarrow> bool" where
  "chosen_batch cfg outOfData safe bq b bq' \<longleftrightarrow> (\<exists>epoch rest. bq_l1Blocks bq = epoch # rest \<and>
    ((\<exists>dropped bw remaining.
        batches_at bq (l2_Time safe + BlockTime cfg) = dropped @ bw # remaining
        \<and> (\<forall>d\<in>set dropped. CheckBatch cfg (bq_l1Blocks bq) safe d = BatchDrop)
        \<and> valid_batch cfg (bq_l1Blocks bq) safe bw \<and> b = bw_Batch bw
        \<and> batches_at bq' (l2_Time safe + BlockTime cfg) = remaining)
     \<or> (\<exists>n ns. rest = n # ns
        \<and> (\<forall>d\<in>set (batches_at bq (l2_Time safe + BlockTime cfg)).
              CheckBatch cfg (bq_l1Blocks bq) safe d = BatchDrop)
        \<and> (l1_Number epoch + SeqWindowSize cfg < l1_Number (bq_origin bq)
           \<or> outOfData \<and> l1_Number epoch + SeqWindowSize cfg = l1_Number (bq_origin bq))
        \<and> b = empty_batch safe (if l2_Time safe + BlockTime cfg < l1_Time n then epoch else n)
                (l2_Time safe + BlockTime cfg))))"

text \<open>
  C6. Which batch is derived: the first candidate in order of inclusion that is valid, all earlier ones
  having been dropped as invalid; or, if every candidate is dropped, an empty batch, and that only
  after the sequencing window of the current epoch has expired. The empty batch stays in the current
  epoch as long as the next L1 block is not yet due, so that L2 time does not fall behind L1 time.
\<close>

theorem deriveNextBatch_first_valid:
  assumes "wf_bq bq" and "deriveNextBatch cfg outOfData safe bq = (Inr b, bq')"
  shows "chosen_batch cfg outOfData safe bq b bq'"
  using assms(2)
proof (cases rule: deriveNextBatch_cases)
  case (accepted epoch rest bw remaining)
  from batchLoop_accept [OF accepted(3)] obtain dropped where
    "batches_at bq (l2_Time safe + BlockTime cfg) = dropped @ bw # remaining"
    "CheckBatch cfg (bq_l1Blocks bq) safe bw = BatchAccept"
    "\<forall>d\<in>set dropped. CheckBatch cfg (bq_l1Blocks bq) safe d = BatchDrop"
    unfolding accepted(1) by blast
  moreover from this(2) assms(1) have "valid_batch cfg (bq_l1Blocks bq) safe bw"
    using CheckBatch_accept_valid unfolding wf_bq_def wf_l1Blocks_def by blast
  moreover have "batches_at bq' (l2_Time safe + BlockTime cfg) = remaining"
    by (simp add: accepted(5))
  ultimately show ?thesis unfolding chosen_batch_def using accepted(1,4) by blast
next
  case (forced epoch rest)
  from force_empty_batch_Inr [OF forced(4), of rest] forced(1) obtain n ns where
    "rest = n # ns" "l1_Number epoch + SeqWindowSize cfg < l1_Number (bq_origin bq)
       \<or> outOfData \<and> l1_Number epoch + SeqWindowSize cfg = l1_Number (bq_origin bq)"
    "b = empty_batch safe (if l2_Time safe + BlockTime cfg < l1_Time n then epoch else n)
       (l2_Time safe + BlockTime cfg)"
    by (auto split: if_split_asm)
  with forced(3) show ?thesis
    unfolding chosen_batch_def batchLoop_end forced(1) [symmetric] using forced(1) by blast
qed

lemma sample_derived:
  "\<exists>b bq'. deriveNextBatch sample_config True sample_safe
      (sample_queue\<lparr>bq_batches := [106 \<mapsto> [sample_batch]]\<rparr>) = (Inr b, bq')"
proof -
  obtain epoch rest where epoch: "sample_l1 = epoch # rest" "l2_L1Origin sample_safe = L1BlockRef_ID epoch"
    by (simp add: sample_batch_defs L1BlockRef_ID_def)
  have "l2_Time sample_safe + BlockTime sample_config = 106" by (simp add: sample_batch_defs)
  moreover have "batchLoop sample_config sample_l1 sample_safe [sample_batch] = LoopAccept sample_batch []"
    using sample_CheckBatch by simp
  ultimately show ?thesis
    by (simp add: deriveNextBatch_def batches_at_def sample_queue_def epoch Let_def del: batchLoop.simps)
qed

theorem deriveNextBatch_first_valid_witness:
  "\<exists>b bq'. deriveNextBatch sample_config True sample_safe
      (sample_queue\<lparr>bq_batches := [106 \<mapsto> [sample_batch]]\<rparr>) = (Inr b, bq')
    \<and> chosen_batch sample_config True sample_safe (sample_queue\<lparr>bq_batches := [106 \<mapsto> [sample_batch]]\<rparr>) b bq'"
proof -
  have wf: "wf_bq (sample_queue\<lparr>bq_batches := [106 \<mapsto> [sample_batch]]\<rparr>)"
    using sample_queue_wf(1)
    by (auto simp: wf_bq_def wf_batches_def wf_l1Blocks_def batches_at_def sample_batch_def split: option.splits)
  show ?thesis using sample_derived deriveNextBatch_first_valid [OF wf] by blast
qed

lemma CheckBatch_decided:
  assumes "l1_Hash epoch = id_Hash (l2_L1Origin safe)" and "rest \<noteq> []"
  shows "CheckBatch cfg (epoch # rest) safe bw \<noteq> BatchUndecided"
proof (cases "bt_Timestamp (bw_Batch bw) = l2_Time safe + BlockTime cfg")
  case True
  with assms show ?thesis
    by (simp add: CheckBatch_on_time select_batch_origin_def split: list.split)
qed (simp add: assms(1) CheckBatch_other_time)

text \<open>
  C7. Forced inclusion makes progress: when the sequencing window of the current epoch has expired, the
  next L1 block is known and the queue is in step with the safe head, a batch is always derived, so a
  sequencer that stays silent or posts only invalid batches cannot stall the chain.
\<close>

theorem deriveNextBatch_progress:
  assumes "wf_bq bq" and "bq_l1Blocks bq = epoch # n # ns" and "l2_L1Origin safe = L1BlockRef_ID epoch"
    and expired: "l1_Number epoch + SeqWindowSize cfg < l1_Number (bq_origin bq)"
  shows "\<exists>b bq'. deriveNextBatch cfg outOfData safe bq = (Inr b, bq')"
proof -
  let ?cands = "batches_at bq (l2_Time safe + BlockTime cfg)"
  have "l1_Hash epoch = id_Hash (l2_L1Origin safe)" by (simp add: assms(3) L1BlockRef_ID_def)
  then have "CheckBatch cfg (epoch # n # ns) safe bw \<noteq> BatchUndecided" for bw
    by (simp add: CheckBatch_decided)
  then have "\<forall>bw. batchLoop cfg (epoch # n # ns) safe ?cands \<noteq> LoopUndecided bw"
    using batchLoop_undecided by blast
  moreover have "batchLoop cfg (epoch # n # ns) safe ?cands \<noteq> LoopFuture"
    using no_future_candidates assms(1) unfolding wf_bq_def by blast
  ultimately show ?thesis
    using assms(2,3) expired
    by (cases "batchLoop cfg (epoch # n # ns) safe ?cands")
      (simp_all add: deriveNextBatch_def force_empty_batch_def Let_def)
qed

theorem deriveNextBatch_progress_witness:
  "\<exists>b bq'. deriveNextBatch (sample_config\<lparr>SeqWindowSize := 0\<rparr>) False sample_safe sample_queue = (Inr b, bq')"
  by (rule deriveNextBatch_progress [OF sample_queue_wf(1), of "sample_l1 ! 0" "sample_l1 ! 1" "[]"])
    (simp_all add: sample_queue_def sample_batch_defs L1BlockRef_ID_def)

section \<open>Two defects\<close>

definition other_fork_batch :: batch_with_l1 where
  "other_fork_batch = sample_batch\<lparr>bw_Batch := (bw_Batch sample_batch)\<lparr>bt_EpochNum := 6, bt_EpochHash := 99\<rparr>\<rparr>"

definition contended_queue :: "reader_state batch_queue" where
  "contended_queue = sample_queue\<lparr>bq_origin := sample_l1 ! 0, bq_l1Blocks := [sample_l1 ! 0],
     bq_batches := [106 \<mapsto> [other_fork_batch, sample_batch]]\<rparr>"

text \<open>
  An undecided batch makes the queue forget the batches behind it: when the first candidate that is
  not dropped is undecided, the candidates after it are lost, because only the undecided one is put
  back. In the example the undecided batch turns out to be invalid once the next L1 block is known,
  and a valid batch that was queued behind it can no longer be derived.
\<close>

lemma undecided_batch_discards_later_batches:
  "let (r, bq') = deriveNextBatch sample_config True sample_safe contended_queue in
     r = Inl EOF
     \<and> CheckBatch sample_config [sample_l1 ! 0] sample_safe sample_batch = BatchAccept
     \<and> CheckBatch sample_config sample_l1 sample_safe other_fork_batch = BatchDrop
     \<and> batches_at bq' 106 = [other_fork_batch]"
  by (simp add: deriveNextBatch_def contended_queue_def other_fork_batch_def sample_queue_def batches_at_def
      CheckBatch_def select_batch_origin_def sample_batch_defs Let_def L1BlockRef_ID_def DepositTxType_def)

text \<open>
  Runs of the queue at a fixed safe head: calls of \<^verbatim>\<open>NextBatch\<close>, between which the previous stages may
  move on to L1 blocks with higher numbers.
\<close>

inductive bq_run ::
    "('p \<Rightarrow> bool) \<Rightarrow> config \<Rightarrow> ('p \<Rightarrow> l1_block_ref) \<Rightarrow> ('p \<Rightarrow> (batch_data, 'p) outcome) \<Rightarrow> l2_block_ref
      \<Rightarrow> 'p batch_queue \<Rightarrow> 'p batch_queue \<Rightarrow> bool"
  for inv cfg prev_Origin prev_NextBatch safe bq0 where
  run_start: "bq_run inv cfg prev_Origin prev_NextBatch safe bq0 bq0"
| run_call: "\<lbrakk>bq_run inv cfg prev_Origin prev_NextBatch safe bq0 bq;
     BatchQueue_NextBatch cfg prev_Origin prev_NextBatch safe bq = (r, bq')\<rbrakk>
    \<Longrightarrow> bq_run inv cfg prev_Origin prev_NextBatch safe bq0 bq'"
| run_advance: "\<lbrakk>bq_run inv cfg prev_Origin prev_NextBatch safe bq0 bq;
     l1_Number (prev_Origin (bq_prev bq)) < l1_Number (prev_Origin p); inv p\<rbrakk>
    \<Longrightarrow> bq_run inv cfg prev_Origin prev_NextBatch safe bq0 (bq\<lparr>bq_prev := p\<rparr>)"

text \<open>What holds throughout such a run when it starts behind the origin of the safe head.\<close>

definition never_in_step :: "('p \<Rightarrow> l1_block_ref) \<Rightarrow> l2_block_ref \<Rightarrow> 'p batch_queue \<Rightarrow> bool" where
  "never_in_step prev_Origin safe bq \<longleftrightarrow>
     (bq_origin bq = prev_Origin (bq_prev bq)
       \<or> l1_Number (bq_origin bq) < l1_Number (prev_Origin (bq_prev bq)))
     \<and> (l1_Number (bq_origin bq) < id_Number (l2_L1Origin safe)
        \<or> bq_l1Blocks bq = []
        \<or> id_Number (l2_L1Origin safe) < l1_Number (hd (bq_l1Blocks bq)))"

definition out_of_step :: "l2_block_ref \<Rightarrow> 'p batch_queue \<Rightarrow> bool" where
  "out_of_step safe bq \<longleftrightarrow>
     bq_l1Blocks bq = [] \<or> id_Number (l2_L1Origin safe) < l1_Number (hd (bq_l1Blocks bq))"

lemma deriveNextBatch_out_of_step:
  assumes "out_of_step safe bq"
  shows "\<exists>e. deriveNextBatch cfg ood safe bq = (Inl e, bq)"
  using assms
  by (cases "bq_l1Blocks bq") (auto simp: out_of_step_def deriveNextBatch_def L1BlockRef_ID_def)

lemma finish_NextBatch_out_of_step:
  assumes "behind \<or> out_of_step safe bq" and "finish_NextBatch cfg behind ood safe bq = (r, bq')"
  shows "bq' = bq \<and> (\<forall>b. r \<noteq> Inr b)"
proof (cases behind)
  case True
  with assms show ?thesis by (auto simp: finish_NextBatch_def split: if_splits)
next
  case False
  with assms deriveNextBatch_out_of_step obtain e where "deriveNextBatch cfg ood safe bq = (Inl e, bq)" by blast
  with assms(2) False show ?thesis by (cases e) (auto simp: finish_NextBatch_def split: if_splits)
qed

lemma advance_origin_out_of_step:
  assumes "never_in_step prev_Origin safe bq"
    and "behind \<longleftrightarrow> l1_Number (bq_origin bq) < id_Number (l2_L1Origin safe)"
  shows "bq_origin (advance_origin prev_Origin behind bq) = prev_Origin (bq_prev bq)"
    "\<not> behind \<Longrightarrow> out_of_step safe (advance_origin prev_Origin behind bq)"
    "behind \<Longrightarrow> l1_Number (prev_Origin (bq_prev bq)) < id_Number (l2_L1Origin safe)
       \<or> bq_l1Blocks (advance_origin prev_Origin behind bq) = []"
  using assms
  by (auto simp: never_in_step_def out_of_step_def advance_origin_def Let_def hd_append
      dest: order.strict_trans1)

lemma NextBatch_never_in_step:
  assumes inv: "never_in_step prev_Origin safe bq"
    and step: "BatchQueue_NextBatch cfg prev_Origin prev_NextBatch safe bq = (r, bq')"
    and prev: "prev_Origin (bq_prev bq') = prev_Origin (bq_prev bq)"
  shows "never_in_step prev_Origin safe bq' \<and> (\<forall>b. r \<noteq> Inr b)"
proof -
  define behind where "behind \<longleftrightarrow> l1_Number (bq_origin bq) < id_Number (l2_L1Origin safe)"
  note adv = advance_origin_out_of_step [OF inv behind_def]
  have key: "never_in_step prev_Origin safe bq'" if "bq_origin bq' = prev_Origin (bq_prev bq)"
    "bq_l1Blocks bq' = bq_l1Blocks (advance_origin prev_Origin behind bq)"
    using that prev adv(2,3) by (cases behind) (auto simp: never_in_step_def out_of_step_def)
  from step show ?thesis
  proof (cases rule: NextBatch_cases)
    case (stopped q p e)
    with adv(1) key show ?thesis unfolding behind_def [symmetric] by simp
  next
    case (derived q p ood bq1)
    have same: "bq_origin bq1 = prev_Origin (bq_prev bq)"
      "bq_l1Blocks bq1 = bq_l1Blocks (advance_origin prev_Origin behind bq)"
      using derived(3) adv(1) unfolding behind_def [symmetric]
      by (auto simp: AddBatch_def Let_def split: if_splits)
    then have "behind \<or> out_of_step safe bq1" using adv(2) by (auto simp: out_of_step_def)
    from finish_NextBatch_out_of_step [OF this derived(2) [folded behind_def]] key same show ?thesis by simp
  qed
qed

text \<open>
  After a reset the queue never catches up with a safe head whose L1 origin lies ahead of the reset
  point: \<^verbatim>\<open>originBehind\<close> is computed from the queue's own previous origin, so the L1 block that is the
  origin of the safe head is thrown away when it is reached, and from then on the first buffered L1
  block never matches. Whatever the earlier stages deliver, no call of \<^verbatim>\<open>NextBatch\<close> in such a run returns
  a batch. The reset of the engine queue always chooses such a reset point unless the channel timeout
  is 0 or the origin is L1 block 0.
\<close>

lemma reset_behind_safe_origin_never_derives:
  assumes reset: "bq0 = snd (BatchQueue_Reset base bq)" "reader_origin (bq_prev bq) = base"
      "wf_bank (ci_prev (bq_prev bq))"
    and behind: "l1_Number base < id_Number (l2_L1Origin safe)"
    and run: "bq_run (\<lambda>cr. wf_bank (ci_prev cr)) cfg reader_origin (reader_pull cfg C Sender l1) safe bq0 bq1"
    and call: "BatchQueue_NextBatch cfg reader_origin (reader_pull cfg C Sender l1) safe bq1 = (r, bq2)"
  shows "\<forall>b. r \<noteq> Inr b"
proof -
  have prev: "reader_origin (bq_prev bq') = reader_origin (bq_prev bq) \<and> wf_bank (ci_prev (bq_prev bq'))"
    if "BatchQueue_NextBatch cfg reader_origin (reader_pull cfg C Sender l1) safe bq = (r, bq')"
      "wf_bank (ci_prev (bq_prev bq))" for bq r bq'
    using batches.queue.pull_inv [OF _ that(1)] batches.queue.pull_origin [OF _ that(1)] that(2)
    unfolding BatchQueue_Origin_def by blast
  from run have "never_in_step reader_origin safe bq1 \<and> wf_bank (ci_prev (bq_prev bq1))"
  proof induction
    case run_start
    from reset behind show ?case by (simp add: never_in_step_def BatchQueue_Reset_def)
  next
    case (run_call bq r bq')
    with NextBatch_never_in_step prev show ?case by blast
  next
    case (run_advance bq p)
    then show ?case by (auto simp: never_in_step_def)
  qed
  with NextBatch_never_in_step [OF _ call] prev [OF call] show ?thesis by blast
qed

end
