(* ===== verification/Deposits.thy ===== *)
theory Deposits
  imports L1_Info
begin

text \<open>
  User deposits: \<^verbatim>\<open>deposit_log.go\<close> and \<^verbatim>\<open>deposits.go\<close> of \<^verbatim>\<open>op-node/rollup/derive\<close>. The events of the deposit
  contract on L1 become transactions at the start of an L2 block.
\<close>

section \<open>Decoding a deposit event\<close>

definition DepositEventABI :: string where
  "DepositEventABI = ''TransactionDeposited(address,address,uint256,bytes)''"

definition DepositEventABIHash :: "keccak \<Rightarrow> hash" where
  "DepositEventABIHash Keccak256 = Keccak256 (string_bytes DepositEventABI)"

definition DepositEventVersion0 :: hash where "DepositEventVersion0 = 0"

definition unmarshalDepositVersion0 :: "deposit_tx \<Rightarrow> address \<Rightarrow> bytes \<Rightarrow> cause + deposit_tx" where
  "unmarshalDepositVersion0 dep to' opaqueData =
    (if length opaqueData < 32 + 32 + 8 + 1 then Inl ''unexpected opaqueData length''
     else let mint = int (be_val (slice 0 32 opaqueData)) in
       Inr (dep\<lparr>dep_Mint := if mint = 0 then None else Some mint,
         dep_Value := int (be_val (slice 32 64 opaqueData)),
         dep_Gas := bytes_word (slice 64 72 opaqueData),
         dep_To := if opaqueData ! 72 = 0 then Some to' else dep_To dep,
         dep_Data := drop 73 opaqueData\<rparr>))"

text \<open>
  The last 20 bytes of a topic are its low 160 bits. The additions on lengths cannot wrap around: the
  length was compared with the size of the data before.
\<close>

definition UnmarshalDepositLogEvent :: "keccak \<Rightarrow> event_log \<Rightarrow> cause + deposit_tx" where
  "UnmarshalDepositLogEvent Keccak256 ev =
    (if length (lg_Topics ev) \<noteq> 4 then Inl ''expected 4 event topics''
     else if lg_Topics ev ! 0 \<noteq> DepositEventABIHash Keccak256 then Inl ''invalid deposit event selector''
     else if length (lg_Data ev) < 64 then Inl ''incomplete opaqueData slice header''
     else if length (lg_Data ev) mod 32 \<noteq> 0 then Inl ''expected log data to be multiple of 32 bytes''
     else let from = ucast (lg_Topics ev ! 1); to' = ucast (lg_Topics ev ! 2); version = lg_Topics ev ! 3;
         opaqueContentOffset = be_val (slice 0 32 (lg_Data ev)) in
     if \<not> opaqueContentOffset < 2 ^ 64 \<or> opaqueContentOffset \<noteq> 32
     then Inl ''invalid opaqueData slice header offset''
     else let opaqueContentLength = be_val (slice 32 64 (lg_Data ev)) in
     if \<not> opaqueContentLength < 2 ^ 64 \<or> opaqueContentLength > length (lg_Data ev) - 64
        \<or> opaqueContentLength + 32 \<le> length (lg_Data ev) - 64
     then Inl ''invalid opaqueData slice header length''
     else let opaqueData = slice 64 (64 + opaqueContentLength) (lg_Data ev);
         dep = \<lparr>dep_SourceHash = UserDepositSource_SourceHash Keccak256 (lg_BlockHash ev) (lg_Index ev),
           dep_From = from, dep_To = None, dep_Mint = None, dep_Value = 0, dep_Gas = 0,
           dep_IsSystemTransaction = False, dep_Data = []\<rparr> in
     if version = DepositEventVersion0 then
       (case unmarshalDepositVersion0 dep to' opaqueData of
          Inl c \<Rightarrow> Inl ''failed to decode deposit''
        | Inr dep \<Rightarrow> Inr dep)
     else Inl ''invalid deposit version'')"

section \<open>Encoding a deposit event\<close>

text \<open>The results are \<open>None\<close> where \<^verbatim>\<open>FillBytes\<close> panics.\<close>

definition marshalDepositVersion0 :: "deposit_tx \<Rightarrow> bytes option" where
  "marshalDepositVersion0 deposit =
    (case (case dep_Mint deposit of None \<Rightarrow> Some (replicate 32 0) | Some mint \<Rightarrow> FillBytes32 mint) of
       None \<Rightarrow> None
     | Some mint \<Rightarrow>
         (case FillBytes32 (dep_Value deposit) of
            None \<Rightarrow> None
          | Some value \<Rightarrow> Some (mint @ value @ word_bytes (dep_Gas deposit)
              @ [if dep_To deposit = None then 1 else 0] @ dep_Data deposit)))"

definition pad32 :: "bytes \<Rightarrow> bytes" where
  "pad32 data = (if length data mod 32 \<noteq> 0 then data @ replicate (32 - length data mod 32) 0 else data)"

definition MarshalDepositLogEvent :: "keccak \<Rightarrow> address \<Rightarrow> deposit_tx \<Rightarrow> event_log option" where
  "MarshalDepositLogEvent Keccak256 depositContractAddr deposit =
    (let toBytes = (case dep_To deposit of None \<Rightarrow> 0 | Some to' \<Rightarrow> ucast to') in
     case marshalDepositVersion0 deposit of
       None \<Rightarrow> None
     | Some opaqueData \<Rightarrow>
         Some \<lparr>lg_Address = depositContractAddr,
           lg_Topics = [DepositEventABIHash Keccak256, ucast (dep_From deposit), toBytes, DepositEventVersion0],
           lg_Data = pad32 (padded_u64 32 @ padded_u64 (word_of_nat (length opaqueData)) @ opaqueData),
           lg_BlockHash = 0, lg_Index = 0\<rparr>)"

section \<open>The deposits of a block\<close>

fun log_deposits :: "keccak \<Rightarrow> address \<Rightarrow> event_log list \<Rightarrow> deposit_tx list \<times> cause list" where
  "log_deposits Keccak256 addr [] = ([], [])"
| "log_deposits Keccak256 addr (log # logs) =
    (let (out, result) = log_deposits Keccak256 addr logs in
     if lg_Address log = addr \<and> length (lg_Topics log) > 0 \<and> lg_Topics log ! 0 = DepositEventABIHash Keccak256 then
       (case UnmarshalDepositLogEvent Keccak256 log of
          Inl c \<Rightarrow> (out, c # result)
        | Inr dep \<Rightarrow> (dep # out, result))
     else (out, result))"

text \<open>The deposits found and the errors; the code returns an error if there is any.\<close>

fun UserDeposits :: "keccak \<Rightarrow> receipt list \<Rightarrow> address \<Rightarrow> deposit_tx list \<times> cause list" where
  "UserDeposits Keccak256 [] addr = ([], [])"
| "UserDeposits Keccak256 (rec # recs) addr =
    (let (out, result) = UserDeposits Keccak256 recs addr in
     if rc_Status rec \<noteq> 1 then (out, result)
     else let (out1, result1) = log_deposits Keccak256 addr (rc_Logs rec) in (out1 @ out, result1 @ result))"

fun encode_deposits :: "tx_codec \<Rightarrow> deposit_tx list \<Rightarrow> bytes list \<times> cause list" where
  "encode_deposits codec [] = ([], [])"
| "encode_deposits codec (tx # txs) =
    (let (enc, errs) = encode_deposits codec txs in
     case MarshalDepositTx codec tx of
       Inl c \<Rightarrow> (enc, ''failed to encode user tx'' # errs)
     | Inr opaqueTx \<Rightarrow> (opaqueTx # enc, errs))"

definition DeriveDeposits :: "keccak \<Rightarrow> tx_codec \<Rightarrow> receipt list \<Rightarrow> address \<Rightarrow> bytes list \<times> cause list" where
  "DeriveDeposits Keccak256 codec receipts addr =
    (let (userDeposits, errs) = UserDeposits Keccak256 receipts addr;
         (encodedTxs, errs') = encode_deposits codec userDeposits
     in (encodedTxs, errs @ errs'))"

section \<open>Round trip of the event\<close>

lemma length_pad32: "length (pad32 d) mod 32 = 0" "length d \<le> length (pad32 d)" "length (pad32 d) < length d + 32"
proof -
  have "(length d + (32 - length d mod 32)) mod 32 = 0"
    by presburger
  then show "length (pad32 d) mod 32 = 0" by (simp add: pad32_def)
qed (auto simp: pad32_def)

lemma pad32_append: "\<exists>z. pad32 d = d @ z"
  by (simp add: pad32_def)

lemma address_topic [simp]: "(ucast (ucast (a :: address) :: hash) :: address) = a"
  by (rule bit_word_eqI) (simp add: bit_simps)

lemma be_val_padded_u64: "be_val (padded_u64 w) = unat w"
  by (simp add: padded_u64_def be_val_append word_bytes_def be_val_be_bytes)

lemma unmarshalDepositVersion0_layout:
  assumes "length m = 32" and "length v = 32"
  shows "unmarshalDepositVersion0 dep to' (m @ v @ word_bytes (g :: u64) @ [b] @ d) =
    Inr (dep\<lparr>dep_Mint := if be_val m = 0 then None else Some (int (be_val m)),
      dep_Value := int (be_val v), dep_Gas := g,
      dep_To := if b = 0 then Some to' else dep_To dep, dep_Data := d\<rparr>)"
  using assms by (simp add: unmarshalDepositVersion0_def Let_def slice_def nth_append)

lemma UnmarshalDepositLogEvent_layout:
  assumes len: "length opaque < 2 ^ 64"
    and data: "lg_Data ev = padded_u64 32 @ padded_u64 (word_of_nat (length opaque)) @ opaque @ z"
      "length z < 32" "length (lg_Data ev) mod 32 = 0"
    and topics: "lg_Topics ev = [DepositEventABIHash K, from, to', DepositEventVersion0]"
    and dep: "unmarshalDepositVersion0
      \<lparr>dep_SourceHash = UserDepositSource_SourceHash K (lg_BlockHash ev) (lg_Index ev),
       dep_From = ucast from, dep_To = None, dep_Mint = None, dep_Value = 0, dep_Gas = 0,
       dep_IsSystemTransaction = False, dep_Data = []\<rparr> (ucast to') opaque = Inr dep"
  shows "UnmarshalDepositLogEvent K ev = Inr dep"
proof -
  have l: "unat (word_of_nat (length opaque) :: u64) = length opaque" using len by (simp add: unat_of_nat)
  have s: "be_val (slice 0 32 (lg_Data ev)) = 32" "be_val (slice 32 64 (lg_Data ev)) = length opaque"
    "slice 64 (64 + length opaque) (lg_Data ev) = opaque"
    by (simp_all add: data(1) slice_def be_val_padded_u64 l)
  have size: "length (lg_Data ev) = 64 + (length opaque + length z)"
    by (simp add: data(1))
  show ?thesis
    using data(2,3) len dep unfolding UnmarshalDepositLogEvent_def Let_def s topics
    by (simp add: size)
qed

lemma marshalDepositVersion0_ok:
  assumes mint: "\<forall>m. dep_Mint dep = Some m \<longrightarrow> 0 < m \<and> m < 2 ^ 256"
    and val: "0 \<le> dep_Value dep" "dep_Value dep < 2 ^ 256"
  obtains m v where "marshalDepositVersion0 dep
      = Some (m @ v @ word_bytes (dep_Gas dep) @ [if dep_To dep = None then 1 else 0] @ dep_Data dep)"
    "length m = 32" "length v = 32" "int (be_val v) = dep_Value dep"
    "(if be_val m = 0 then None else Some (int (be_val m))) = dep_Mint dep"
proof -
  have fits: "\<exists>bs. FillBytes32 x = Some bs \<and> length bs = 32 \<and> int (be_val bs) = x"
    if "0 \<le> x" "x < 2 ^ 256" for x
  proof -
    have "nat \<bar>x\<bar> < 256 ^ 32" using that by (simp add: nat_less_iff)
    then obtain bs where "FillBytes32 x = Some bs" by (simp add: FillBytes32_def)
    with FillBytes32_length FillBytes32_val that(1) show ?thesis by fastforce
  qed
  obtain v where v: "FillBytes32 (dep_Value dep) = Some v" "length v = 32" "int (be_val v) = dep_Value dep"
    using fits val by blast
  show thesis
  proof (cases "dep_Mint dep")
    case None
    then show thesis
      using v by (intro that [of "replicate 32 0" v])
        (simp_all add: marshalDepositVersion0_def)
  next
    case (Some x)
    with mint fits [of x] obtain m where m: "FillBytes32 x = Some m" "length m = 32" "int (be_val m) = x"
      by auto
    with Some mint have "be_val m \<noteq> 0" by auto
    with Some v m show thesis by (intro that [of m v]) (simp_all add: marshalDepositVersion0_def)
  qed
qed

text \<open>
  A deposit survives the trip through its L1 event: for every user deposit whose amounts fit into 256
  bits and whose mint, if any, is not zero, the event that \<^verbatim>\<open>MarshalDepositLogEvent\<close> writes is decoded by
  \<^verbatim>\<open>UnmarshalDepositLogEvent\<close>, found at any position of any L1 block, into the same deposit, with the
  source hash of that position.
\<close>

lemma deposit_event_roundtrip:
  assumes mint: "\<forall>m. dep_Mint dep = Some m \<longrightarrow> 0 < m \<and> m < 2 ^ 256"
    and val: "0 \<le> dep_Value dep" "dep_Value dep < 2 ^ 256"
    and user: "\<not> dep_IsSystemTransaction dep" and size: "length (dep_Data dep) < 2 ^ 63"
  shows "\<exists>ev. MarshalDepositLogEvent K addr dep = Some ev
    \<and> UnmarshalDepositLogEvent K (ev\<lparr>lg_BlockHash := h, lg_Index := n\<rparr>)
      = Inr (dep\<lparr>dep_SourceHash := UserDepositSource_SourceHash K h n\<rparr>)"
proof -
  from marshalDepositVersion0_ok [OF mint val] obtain m v where
    opaque: "marshalDepositVersion0 dep
      = Some (m @ v @ word_bytes (dep_Gas dep) @ [if dep_To dep = None then 1 else 0] @ dep_Data dep)"
    and fields: "length m = 32" "length v = 32" "int (be_val v) = dep_Value dep"
      "(if be_val m = 0 then None else Some (int (be_val m))) = dep_Mint dep"
    by blast
  define op where "op = m @ v @ word_bytes (dep_Gas dep) @ [if dep_To dep = None then 1 else 0] @ dep_Data dep"
  define data where "data = padded_u64 32 @ padded_u64 (word_of_nat (length op)) @ op"
  define ev where "ev = \<lparr>lg_Address = addr, lg_Topics = [DepositEventABIHash K, ucast (dep_From dep),
      case dep_To dep of None \<Rightarrow> 0 | Some t \<Rightarrow> ucast t, DepositEventVersion0],
    lg_Data = pad32 data, lg_BlockHash = 0, lg_Index = 0\<rparr>"
  have ev: "MarshalDepositLogEvent K addr dep = Some ev"
    by (simp add: MarshalDepositLogEvent_def opaque ev_def data_def op_def Let_def)
  obtain z where z: "pad32 data = data @ z" using pad32_append by blast
  have "UnmarshalDepositLogEvent K (ev\<lparr>lg_BlockHash := h, lg_Index := n\<rparr>)
      = Inr (dep\<lparr>dep_SourceHash := UserDepositSource_SourceHash K h n\<rparr>)"
  proof (rule UnmarshalDepositLogEvent_layout [of op _ z])
    show "length op < 2 ^ 64" using size fields(1,2) by (simp add: op_def)
    show "length z < 32" using length_pad32(3) [of data] by (simp add: z)
    show "length (lg_Data (ev\<lparr>lg_BlockHash := h, lg_Index := n\<rparr>)) mod 32 = 0"
      using length_pad32(1) [of data] by (simp add: ev_def)
    show "lg_Data (ev\<lparr>lg_BlockHash := h, lg_Index := n\<rparr>)
        = padded_u64 32 @ padded_u64 (word_of_nat (length op)) @ op @ z"
      using z by (simp add: ev_def) (simp add: data_def)
    show "lg_Topics (ev\<lparr>lg_BlockHash := h, lg_Index := n\<rparr>) = [DepositEventABIHash K, ucast (dep_From dep),
        case dep_To dep of None \<Rightarrow> 0 | Some t \<Rightarrow> ucast t, DepositEventVersion0]"
      by (simp add: ev_def)
    show "unmarshalDepositVersion0
        \<lparr>dep_SourceHash = UserDepositSource_SourceHash K (lg_BlockHash (ev\<lparr>lg_BlockHash := h, lg_Index := n\<rparr>))
           (lg_Index (ev\<lparr>lg_BlockHash := h, lg_Index := n\<rparr>)),
         dep_From = ucast (ucast (dep_From dep) :: hash), dep_To = None, dep_Mint = None, dep_Value = 0, dep_Gas = 0,
         dep_IsSystemTransaction = False, dep_Data = []\<rparr>
        (ucast (case dep_To dep of None \<Rightarrow> (0 :: hash) | Some t \<Rightarrow> ucast t)) op
      = Inr (dep\<lparr>dep_SourceHash := UserDepositSource_SourceHash K h n\<rparr>)"
      using user fields(3,4) unfolding op_def unmarshalDepositVersion0_layout [OF fields(1,2)]
      by (cases dep) (auto split: option.split)
  qed
  with ev show ?thesis by blast
qed

section \<open>No deposit is lost\<close>

text \<open>The deposit events of a block: those of the deposit contract, in successful transactions.\<close>

definition is_deposit_log :: "keccak \<Rightarrow> address \<Rightarrow> event_log \<Rightarrow> bool" where
  "is_deposit_log K addr log \<longleftrightarrow>
     lg_Address log = addr \<and> lg_Topics log \<noteq> [] \<and> hd (lg_Topics log) = DepositEventABIHash K"

definition deposit_logs :: "keccak \<Rightarrow> address \<Rightarrow> receipt list \<Rightarrow> event_log list" where
  "deposit_logs K addr recs =
     filter (is_deposit_log K addr) (concat (map rc_Logs (filter (\<lambda>r. rc_Status r = 1) recs)))"

lemma log_deposits_all:
  "log_deposits K addr logs = (ds, []) \<longleftrightarrow>
     map (UnmarshalDepositLogEvent K) (filter (is_deposit_log K addr) logs) = map Inr ds"
proof (induction logs arbitrary: ds)
  case Nil
  show ?case by auto
next
  case (Cons log logs)
  obtain out result where rest: "log_deposits K addr logs = (out, result)" by fastforce
  show ?case
  proof (cases "is_deposit_log K addr log")
    case True
    then have "lg_Address log = addr \<and> length (lg_Topics log) > 0 \<and> lg_Topics log ! 0 = DepositEventABIHash K"
      by (auto simp: is_deposit_log_def hd_conv_nth)
    with True rest Cons.IH [of out] Cons.IH [of "tl ds"] show ?thesis
      by (cases ds; cases "UnmarshalDepositLogEvent K log") auto
  next
    case False
    then have "\<not> (lg_Address log = addr \<and> length (lg_Topics log) > 0 \<and> lg_Topics log ! 0 = DepositEventABIHash K)"
      by (auto simp: is_deposit_log_def hd_conv_nth)
    with False Cons.IH rest show ?thesis by auto
  qed
qed

lemma UserDeposits_all:
  "UserDeposits K recs addr = (ds, []) \<longleftrightarrow>
     map (UnmarshalDepositLogEvent K) (deposit_logs K addr recs) = map Inr ds"
proof (induction recs arbitrary: ds)
  case Nil
  show ?case by (auto simp: deposit_logs_def)
next
  case (Cons r recs)
  obtain out result where rest: "UserDeposits K recs addr = (out, result)" by fastforce
  obtain out1 result1 where first: "log_deposits K addr (rc_Logs r) = (out1, result1)" by fastforce
  show ?case
  proof (cases "rc_Status r = 1")
    case True
    have "UserDeposits K (r # recs) addr = (ds, []) \<longleftrightarrow> result = [] \<and> result1 = [] \<and> ds = out1 @ out"
      using True rest first by auto
    also have "\<dots> \<longleftrightarrow> (\<exists>ds1 ds2. ds = ds1 @ ds2 \<and> log_deposits K addr (rc_Logs r) = (ds1, [])
        \<and> UserDeposits K recs addr = (ds2, []))"
      using rest first by auto
    also have "\<dots> \<longleftrightarrow> map (UnmarshalDepositLogEvent K) (deposit_logs K addr (r # recs)) = map Inr ds"
      using True unfolding Cons.IH log_deposits_all
      by (auto simp: deposit_logs_def append_eq_map_conv map_eq_append_conv)
    finally show ?thesis .
  next
    case False
    with Cons.IH [of ds] rest show ?thesis by (simp add: deposit_logs_def)
  qed
qed

lemma encode_deposits_all:
  "encode_deposits codec ds = (txs, []) \<longleftrightarrow> map (MarshalDepositTx codec) ds = map Inr txs"
proof (induction ds arbitrary: txs)
  case Nil
  show ?case by auto
next
  case (Cons d ds)
  obtain out errs where rest: "encode_deposits codec ds = (out, errs)" by fastforce
  with Cons.IH [of out] Cons.IH [of "tl txs"] show ?case
    by (cases txs; cases "MarshalDepositTx codec d") auto
qed


end
