(* ===== verification/Attributes.thy ===== *)
theory Attributes
  imports Batch_Queue Deposits
begin

text \<open>
  Payload attributes: \<^verbatim>\<open>attributes.go\<close> and the stage \<^verbatim>\<open>attributes_queue.go\<close> of \<^verbatim>\<open>op-node/rollup/derive\<close>. A batch
  becomes the list of transactions of an L2 block: the L1 attributes deposit, in the first block of an
  epoch the user deposits, then the transactions of the batch.
\<close>

text \<open>What the derivation uses of go-ethereum.\<close>

record geth =
  g_Keccak256 :: keccak
  g_tx :: tx_codec

section \<open>Preparing attributes\<close>

text \<open>The loop over \<^verbatim>\<open>receiptsFetcher.Fetch\<close>, which ends with \<^verbatim>\<open>io.EOF\<close> after the listed answers.\<close>

fun fetch_loop :: "rpc_error option list \<Rightarrow> bool" where
  "fetch_loop [] = True"
| "fetch_loop (Some e # fs) = False"
| "fetch_loop (None # fs) = fetch_loop fs"

text \<open>The L1 block info, the deposits and the sequence number of the next block.\<close>

definition epoch_inputs ::
    "geth \<Rightarrow> config \<Rightarrow> l1_fetcher \<Rightarrow> l2_block_ref \<Rightarrow> block_id \<Rightarrow> derr + (block_info \<times> bytes list \<times> u64)" where
  "epoch_inputs G cfg dl l2Parent epoch =
    (if id_Number (l2_L1Origin l2Parent) \<noteq> id_Number epoch then
       (case FetchReceipts dl (id_Hash epoch) of
          Inl e \<Rightarrow> Inl (NewTemporaryError ''failed to fetch L1 block info and receipts'')
        | Inr (info, receiptsFetcher) \<Rightarrow>
            if id_Hash (l2_L1Origin l2Parent) \<noteq> bi_ParentHash info
            then Inl (NewResetError ''cannot create new block with L1 origin on top of L1 origin'')
            else if \<not> fetch_loop (rf_Fetches receiptsFetcher)
            then Inl (NewTemporaryError ''failed to fetch more receipts'')
            else (case rf_Result receiptsFetcher of
                Inl c \<Rightarrow> Inl (NewResetError ''fetched bad receipt data'')
              | Inr receipts \<Rightarrow>
                  (case DeriveDeposits (g_Keccak256 G) (g_tx G) receipts (DepositContractAddress cfg) of
                     (deposits, []) \<Rightarrow> Inr (info, deposits, 0)
                   | (deposits, _ # _) \<Rightarrow> Inl (NewCriticalError ''failed to derive some deposits''))))
     else if id_Hash (l2_L1Origin l2Parent) \<noteq> id_Hash epoch
     then Inl (NewResetError ''cannot create new block with L1 origin in conflict with L1 origin'')
     else (case InfoByHash dl (id_Hash epoch) of
         Inl e \<Rightarrow> Inl (NewTemporaryError ''failed to fetch L1 block info'')
       | Inr info \<Rightarrow> Inr (info, [], l2_SequenceNumber l2Parent + 1)))"

definition PreparePayloadAttributes ::
    "geth \<Rightarrow> config \<Rightarrow> l1_fetcher \<Rightarrow> l2_block_ref \<Rightarrow> u64 \<Rightarrow> block_id \<Rightarrow> derr + payload_attributes" where
  "PreparePayloadAttributes G cfg dl l2Parent timestamp epoch =
    (case epoch_inputs G cfg dl l2Parent epoch of
       Inl e \<Rightarrow> Inl e
     | Inr (l1Info, depositTxs, seqNumber) \<Rightarrow>
         (case L1InfoDepositBytes (g_Keccak256 G) (g_tx G) seqNumber l1Info of
            Inl e \<Rightarrow> Inl (if is_panic e then e else NewCriticalError ''failed to create l1InfoTx'')
          | Inr l1InfoTx \<Rightarrow>
              Inr \<lparr>at_Timestamp = timestamp, at_PrevRandao = bi_MixDigest l1Info,
                at_SuggestedFeeRecipient = FeeRecipientAddress cfg,
                at_Transactions = l1InfoTx # depositTxs, at_NoTxPool = True\<rparr>))"

section \<open>The attributes queue\<close>

record 'p attributes_queue =
  aq_prev :: 'p
  aq_batch :: "batch_data option"

definition NewAttributesQueue :: "'p \<Rightarrow> 'p attributes_queue" where
  "NewAttributesQueue prev = \<lparr>aq_prev = prev, aq_batch = None\<rparr>"

definition AttributesQueue_Origin :: "('p \<Rightarrow> l1_block_ref) \<Rightarrow> 'p attributes_queue \<Rightarrow> l1_block_ref" where
  "AttributesQueue_Origin prev_Origin aq = prev_Origin (aq_prev aq)"

definition createNextAttributes ::
    "geth \<Rightarrow> config \<Rightarrow> l1_fetcher \<Rightarrow> batch_data \<Rightarrow> l2_block_ref \<Rightarrow> derr + payload_attributes" where
  "createNextAttributes G cfg dl batch l2SafeHead =
    (if bt_ParentHash batch \<noteq> l2_Hash l2SafeHead
     then Inl (NewResetError ''valid batch has bad parent hash'')
     else case PreparePayloadAttributes G cfg dl l2SafeHead (bt_Timestamp batch) (BatchV1_Epoch batch) of
         Inl e \<Rightarrow> Inl e
       | Inr attrs \<Rightarrow> Inr (attrs\<lparr>at_NoTxPool := True,
           at_Transactions := at_Transactions attrs @ bt_Transactions batch\<rparr>))"

text \<open>The second half of \<^verbatim>\<open>NextAttributes\<close>, with the batch in place.\<close>

definition attributes_for ::
    "geth \<Rightarrow> config \<Rightarrow> l1_fetcher \<Rightarrow> l2_block_ref \<Rightarrow> batch_data \<Rightarrow> 'p attributes_queue
      \<Rightarrow> (payload_attributes, 'p attributes_queue) outcome" where
  "attributes_for G cfg dl l2SafeHead batch aq =
    (case createNextAttributes G cfg dl batch l2SafeHead of
       Inl e \<Rightarrow> (Inl e, aq)
     | Inr attrs \<Rightarrow> (Inr attrs, aq\<lparr>aq_batch := None\<rparr>))"

definition NextAttributes ::
    "geth \<Rightarrow> config \<Rightarrow> l1_fetcher \<Rightarrow> (l2_block_ref \<Rightarrow> 'p \<Rightarrow> (batch_data, 'p) outcome) \<Rightarrow> l2_block_ref
      \<Rightarrow> 'p attributes_queue \<Rightarrow> (payload_attributes, 'p attributes_queue) outcome" where
  "NextAttributes G cfg dl prev_NextBatch l2SafeHead aq =
    (case aq_batch aq of
       Some batch \<Rightarrow> attributes_for G cfg dl l2SafeHead batch aq
     | None \<Rightarrow>
         (case prev_NextBatch l2SafeHead (aq_prev aq) of
            (Inl e, p) \<Rightarrow> (Inl e, aq\<lparr>aq_prev := p\<rparr>)
          | (Inr batch, p) \<Rightarrow>
              attributes_for G cfg dl l2SafeHead batch (aq\<lparr>aq_prev := p, aq_batch := Some batch\<rparr>)))"

definition AttributesQueue_Reset :: "'p attributes_queue \<Rightarrow> derr \<times> 'p attributes_queue" where
  "AttributesQueue_Reset aq = (EOF, aq)"

section \<open>The stage\<close>

lemma attributes_for_prev: "attributes_for G cfg dl safe b aq = (r, aq') \<Longrightarrow> aq_prev aq' = aq_prev aq"
  by (auto simp: attributes_for_def split: sum.splits)

lemma NextAttributes_prev:
  assumes "NextAttributes G cfg dl prev_NextBatch safe aq = (r, aq')"
  shows "aq_prev aq' = aq_prev aq \<or> (\<exists>q. prev_NextBatch safe (aq_prev aq) = (q, aq_prev aq'))"
  using assms
  by (auto simp: NextAttributes_def dest: attributes_for_prev split: option.splits prod.splits sum.splits)

locale attributes_stage =
  fixes inv :: "'p \<Rightarrow> bool" and origin :: "'p \<Rightarrow> l1_block_ref"
    and pull :: "l2_block_ref \<Rightarrow> 'p \<Rightarrow> (batch_data, 'p) outcome"
    and G :: geth and cfg :: config and dl :: l1_fetcher
  assumes prev_stage: "pull_stage inv origin (pull safe)"

sublocale attributes_stage \<subseteq> attributes: pull_stage "\<lambda>aq. inv (aq_prev aq)" "AttributesQueue_Origin origin"
    "NextAttributes G cfg dl pull safe" for safe
proof
  show "inv (aq_prev aq')"
    if "inv (aq_prev aq)" "NextAttributes G cfg dl pull safe aq = (r, aq')" for aq r aq'
    using NextAttributes_prev [OF that(2)] that(1) pull_stage.pull_inv [OF prev_stage] by metis
  show "AttributesQueue_Origin origin aq' = AttributesQueue_Origin origin aq"
    if "inv (aq_prev aq)" "NextAttributes G cfg dl pull safe aq = (r, aq')" for aq r aq'
    unfolding AttributesQueue_Origin_def
    using NextAttributes_prev [OF that(2)] that(1) pull_stage.pull_origin [OF prev_stage] by metis
qed

type_synonym queue_state = "reader_state batch_queue"

abbreviation queue_pull :: "config \<Rightarrow> batch_codec \<Rightarrow> tx_signer \<Rightarrow> l1_fetcher \<Rightarrow> l2_block_ref \<Rightarrow> queue_state
    \<Rightarrow> (batch_data, queue_state) outcome" where
  "queue_pull cfg C Sender l1 \<equiv> BatchQueue_NextBatch cfg reader_origin (reader_pull cfg C Sender l1)"

abbreviation queue_origin :: "queue_state \<Rightarrow> l1_block_ref" where
  "queue_origin \<equiv> BatchQueue_Origin reader_origin"

interpretation attributes_queue: attributes_stage "\<lambda>bq. wf_bank (ci_prev (bq_prev bq)) \<and> True" queue_origin
    "queue_pull cfg C Sender l1" G cfg l1 for G cfg C Sender l1
  by (rule attributes_stage.intro) (rule batches.queue.pull_stage_axioms)

section \<open>Properties\<close>

lemma PreparePayloadAttributes_ok:
  assumes "PreparePayloadAttributes G cfg dl parent t epoch = Inr attrs"
  obtains info deposits seq l1InfoTx where
    "epoch_inputs G cfg dl parent epoch = Inr (info, deposits, seq)"
    "L1InfoDepositBytes (g_Keccak256 G) (g_tx G) seq info = Inr l1InfoTx"
    "attrs = \<lparr>at_Timestamp = t, at_PrevRandao = bi_MixDigest info,
       at_SuggestedFeeRecipient = FeeRecipientAddress cfg,
       at_Transactions = l1InfoTx # deposits, at_NoTxPool = True\<rparr>"
  using assms by (auto simp: PreparePayloadAttributes_def split: sum.splits prod.splits)

text \<open>
  Where the L1 data of the next block comes from: in the epoch of the parent, no deposits and the next
  sequence number; in a new epoch, which must directly follow, all deposits of its L1 block.
\<close>

definition epoch_step ::
    "geth \<Rightarrow> config \<Rightarrow> l1_fetcher \<Rightarrow> l2_block_ref \<Rightarrow> block_id \<Rightarrow> block_info \<Rightarrow> bytes list \<Rightarrow> u64 \<Rightarrow> bool" where
  "epoch_step G cfg dl parent epoch info deposits seq \<longleftrightarrow>
    (if id_Number epoch = id_Number (l2_L1Origin parent)
     then seq = l2_SequenceNumber parent + 1 \<and> deposits = [] \<and> epoch = l2_L1Origin parent
       \<and> InfoByHash dl (id_Hash epoch) = Inr info
     else seq = 0 \<and> bi_ParentHash info = id_Hash (l2_L1Origin parent)
       \<and> (\<exists>fetcher receipts. FetchReceipts dl (id_Hash epoch) = Inr (info, fetcher)
           \<and> rf_Result fetcher = Inr receipts
           \<and> DeriveDeposits (g_Keccak256 G) (g_tx G) receipts (DepositContractAddress cfg) = (deposits, [])))"

lemma epoch_inputs_step:
  "epoch_inputs G cfg dl parent epoch = Inr (info, deposits, seq) \<Longrightarrow> epoch_step G cfg dl parent epoch info deposits seq"
  by (cases epoch, cases "l2_L1Origin parent")
    (auto simp: epoch_inputs_def epoch_step_def split: if_splits sum.splits prod.splits list.splits)


definition sample_geth :: geth where
  "sample_geth = \<lparr>g_Keccak256 = (\<lambda>bs. 7), g_tx = sample_codec\<rparr>"

definition sample_dl :: l1_fetcher where
  "sample_dl = no_l1\<lparr>InfoByHash := (\<lambda>h. Inr (sample_info\<lparr>bi_Hash := h\<rparr>))\<rparr>"

lemma sample_attributes:
  "\<exists>attrs. createNextAttributes sample_geth sample_config sample_dl (bw_Batch sample_batch) sample_safe = Inr attrs"
  by (simp add: createNextAttributes_def PreparePayloadAttributes_def epoch_inputs_def sample_dl_def
      sample_geth_def sample_codec_def L1InfoDepositBytes_def L1InfoDeposit_def L1BlockInfo_MarshalBinary_def
      FillBytes32_def sample_info_def BatchV1_Epoch_def sample_batch_defs)


text \<open>
  A batch left over from before a reset blocks the stage forever: \<^verbatim>\<open>Reset\<close> keeps the buffered batch,
  although the stage is documented to be reset by clearing it. If the batch does not build on the new
  safe head, every later call asks for another reset and leaves everything as it is, without looking at
  the previous stage.
\<close>

lemma stale_batch_survives_reset:
  assumes "aq_batch aq = Some batch" and "bt_ParentHash batch \<noteq> l2_Hash safe"
  shows "NextAttributes G cfg dl prev_NextBatch safe (snd (AttributesQueue_Reset aq))
    = (Inl (NewResetError ''valid batch has bad parent hash''), aq)"
  using assms
  by (simp add: AttributesQueue_Reset_def NextAttributes_def attributes_for_def createNextAttributes_def)

end
