(* ===== verification/Sync_Start.thy ===== *)
theory Sync_Start
  imports L1_Source
begin

text \<open>
  Finding the L2 heads to start from: \<^verbatim>\<open>op-node/rollup/sync/start.go\<close>. The loop walks back from the unsafe
  head until the L1 origins are known to be canonical for a whole sequencing window.
\<close>

record l2_source =
  L2BlockRefByHash :: "hash \<Rightarrow> rpc_error + l2_block_ref"
  L2BlockRefByLabel :: "block_label \<Rightarrow> rpc_error + l2_block_ref"

definition MaxReorgSeqWindows :: u64 where "MaxReorgSeqWindows = 5"

record find_heads_result =
  fh_Unsafe :: l2_block_ref
  fh_Safe :: l2_block_ref
  fh_Finalized :: l2_block_ref

definition currentHeads :: "config \<Rightarrow> l2_source \<Rightarrow> cause + find_heads_result" where
  "currentHeads cfg l2 =
    (case (case L2BlockRefByLabel l2 Finalized of
             Inl NotFound \<Rightarrow> L2BlockRefByHash l2 (id_Hash (gen_L2 (Genesis cfg)))
           | r \<Rightarrow> r) of
       Inl e \<Rightarrow> Inl ''failed to find the finalized L2 block''
     | Inr finalized \<Rightarrow>
    (case (case L2BlockRefByLabel l2 Safe of Inl NotFound \<Rightarrow> Inr finalized | r \<Rightarrow> r) of
       Inl e \<Rightarrow> Inl ''failed to find the safe L2 block''
     | Inr safe \<Rightarrow>
    (case L2BlockRefByLabel l2 Unsafe of
       Inl e \<Rightarrow> Inl ''failed to find the L2 head block''
     | Inr unsafe \<Rightarrow> Inr \<lparr>fh_Unsafe = unsafe, fh_Safe = safe, fh_Finalized = finalized\<rparr>)))"

section \<open>The loop\<close>

text \<open>The variables of the loop.\<close>

record find_state =
  fs_result :: find_heads_result
  fs_n :: l2_block_ref
  fs_highest :: l2_block_ref
  fs_l1Block :: l1_block_ref
  fs_ahead :: bool

text \<open>Fetching L1 information; a block that is not found is the zero value.\<close>

definition find_l1 :: "l1_fetcher \<Rightarrow> find_state \<Rightarrow> cause + find_state" where
  "find_l1 l1 st =
    (if fs_l1Block st = zero_l1 \<or> id_Hash (l2_L1Origin (fs_n st)) \<noteq> l1_Hash (fs_l1Block st) then
       (case L1BlockRefByNumber l1 (id_Number (l2_L1Origin (fs_n st))) of
          Inr b \<Rightarrow> Inr (st\<lparr>fs_l1Block := b, fs_ahead := False\<rparr>)
        | Inl NotFound \<Rightarrow> Inr (st\<lparr>fs_l1Block := zero_l1, fs_ahead := True\<rparr>)
        | Inl e \<Rightarrow> Inl ''failed to retrieve block from L1 for comparison'')
     else Inr st)"

text \<open>The checks against genesis, the finalized block and the depth of the reorg.\<close>

definition find_check :: "config \<Rightarrow> l2_block_ref \<Rightarrow> find_state \<Rightarrow> cause option" where
  "find_check cfg prevUnsafe st =
    (let n = fs_n st; finalized = fh_Finalized (fs_result st) in
     if l2_Number n = id_Number (gen_L2 (Genesis cfg)) \<and> l2_Hash n \<noteq> id_Hash (gen_L2 (Genesis cfg))
     then Some ''wrong chain L2''
     else if l2_Number n = id_Number (gen_L2 (Genesis cfg)) \<and> \<not> fs_ahead st
       \<and> l1_Hash (fs_l1Block st) \<noteq> id_Hash (gen_L1 (Genesis cfg))
     then Some ''wrong chain L1''
     else if l2_Number n = l2_Number finalized \<and> l2_Hash n \<noteq> l2_Hash finalized
     then Some ''cannot reorg finalized block''
     else if id_Number (l2_L1Origin n) + MaxReorgSeqWindows * SeqWindowSize cfg
       < id_Number (l2_L1Origin prevUnsafe)
     then Some ''reorg is too deep''
     else None)"

text \<open>Keeping or discarding the candidates for the unsafe head and the highest canonical block.\<close>

definition find_candidates :: "find_state \<Rightarrow> find_state" where
  "find_candidates st =
    (let n = fs_n st;
         st = (if fh_Unsafe (fs_result st) = zero_l2
               then st\<lparr>fs_result := (fs_result st)\<lparr>fh_Unsafe := n\<rparr>\<rparr> else st)
     in if fs_ahead st then st
        else if l1_Hash (fs_l1Block st) = id_Hash (l2_L1Origin n) then
          (if fs_highest st = zero_l2 then st\<lparr>fs_highest := n\<rparr> else st)
        else st\<lparr>fs_result := (fs_result st)\<lparr>fh_Unsafe := zero_l2\<rparr>, fs_highest := zero_l2\<rparr>)"

definition find_ready :: "config \<Rightarrow> find_state \<Rightarrow> bool" where
  "find_ready cfg st \<longleftrightarrow>
     l2_Number (fs_n st) \<le> l2_Number (fh_Safe (fs_result st))
     \<and> id_Number (l2_L1Origin (fs_n st)) + SeqWindowSize cfg < id_Number (l2_L1Origin (fs_highest st))
     \<and> l2_SequenceNumber (fs_n st) = 0"

text \<open>The checks of the L1 origin of the parent.\<close>

definition find_parent_check :: "find_state \<Rightarrow> l2_block_ref \<Rightarrow> cause option" where
  "find_parent_check st parent =
    (let n = fs_n st in
     if l2_L1Origin parent \<noteq> l2_L1Origin n then
       (if id_Number (l2_L1Origin parent) + 1 \<noteq> id_Number (l2_L1Origin n)
        then Some ''l2 parent has L1 origin that is not before''
        else if l2_SequenceNumber n \<noteq> 0
        then Some ''l2 block has parent with different L1 origin, but non-zero sequence number''
        else if l1_Hash (fs_l1Block st) = id_Hash (l2_L1Origin n)
          \<and> l1_ParentHash (fs_l1Block st) \<noteq> id_Hash (l2_L1Origin parent)
        then Some ''parent L2 block has unexpected origin''
        else None)
     else if l2_SequenceNumber parent + 1 \<noteq> l2_SequenceNumber n
     then Some ''sequence number inconsistency''
     else None)"

datatype find_step = Return "cause + find_heads_result" | Continue find_state

definition find_iteration :: "config \<Rightarrow> l1_fetcher \<Rightarrow> l2_source \<Rightarrow> l2_block_ref \<Rightarrow> find_state \<Rightarrow> find_step" where
  "find_iteration cfg l1 l2 prevUnsafe st =
    (case find_l1 l1 st of
       Inl c \<Rightarrow> Return (Inl c)
     | Inr st \<Rightarrow>
    (case find_check cfg prevUnsafe st of
       Some c \<Rightarrow> Return (Inl c)
     | None \<Rightarrow>
    (let st = find_candidates st; n = fs_n st in
     if l2_Number n = l2_Number (fh_Finalized (fs_result st))
     then Return (Inr ((fs_result st)\<lparr>fh_Safe := n\<rparr>))
     else (case L2BlockRefByHash l2 (l2_ParentHash n) of
         Inl e \<Rightarrow> Return (Inl ''failed to fetch L2 block by hash'')
       | Inr parent \<Rightarrow>
           (case find_parent_check st parent of
              Some c \<Rightarrow> Return (Inl c)
            | None \<Rightarrow>
                if find_ready cfg st then Return (Inr ((fs_result st)\<lparr>fh_Safe := parent\<rparr>))
                else Continue (st\<lparr>fs_n := parent\<rparr>))))))"

text \<open>The loop itself. It may run forever on a source of L2 blocks that is not a chain.\<close>

partial_function (option) find_loop ::
    "config \<Rightarrow> l1_fetcher \<Rightarrow> l2_source \<Rightarrow> l2_block_ref \<Rightarrow> find_state \<Rightarrow> (cause + find_heads_result) option" where
  "find_loop cfg l1 l2 prevUnsafe st =
    (case find_iteration cfg l1 l2 prevUnsafe st of
       Return r \<Rightarrow> Some r
     | Continue st \<Rightarrow> find_loop cfg l1 l2 prevUnsafe st)"

definition FindL2Heads :: "config \<Rightarrow> l1_fetcher \<Rightarrow> l2_source \<Rightarrow> (cause + find_heads_result) option" where
  "FindL2Heads cfg l1 l2 =
    (case currentHeads cfg l2 of
       Inl c \<Rightarrow> Some (Inl c)
     | Inr result \<Rightarrow> find_loop cfg l1 l2 (fh_Unsafe result)
         \<lparr>fs_result = result, fs_n = fh_Unsafe result, fs_highest = zero_l2, fs_l1Block = zero_l1,
          fs_ahead = False\<rparr>)"

section \<open>Termination\<close>

text \<open>The blocks that the source of L2 blocks hands out, and that they are numbered as a chain.\<close>

definition source_block :: "l2_source \<Rightarrow> l2_block_ref \<Rightarrow> bool" where
  "source_block l2 b \<longleftrightarrow> (\<exists>h. L2BlockRefByHash l2 h = Inr b) \<or> (\<exists>lab. L2BlockRefByLabel l2 lab = Inr b)"

definition numbered_chain :: "l2_source \<Rightarrow> bool" where
  "numbered_chain l2 \<longleftrightarrow>
     (\<forall>b p. source_block l2 b \<longrightarrow> L2BlockRefByHash l2 (l2_ParentHash b) = Inr p \<longrightarrow>
        unat (l2_Number b) = Suc (unat (l2_Number p)))"

lemma find_l1_frame:
  "find_l1 l1 st = Inr st' \<Longrightarrow> fs_n st' = fs_n st \<and> fs_result st' = fs_result st \<and> fs_highest st' = fs_highest st"
  by (auto simp: find_l1_def split: if_splits sum.splits rpc_error.splits)

lemma find_candidates_frame:
  "fs_n (find_candidates st) = fs_n st" "fs_ahead (find_candidates st) = fs_ahead st"
  "fs_l1Block (find_candidates st) = fs_l1Block st"
  "fh_Finalized (fs_result (find_candidates st)) = fh_Finalized (fs_result st)"
  by (simp_all add: find_candidates_def Let_def)

text \<open>The two ways an iteration succeeds in finding the heads, and how it goes on.\<close>

lemma find_iteration_cases:
  assumes "find_iteration cfg l1 l2 prev st = r"
  obtains (failed) c where "r = Return (Inl c)"
  | (finalized) st1 where "find_l1 l1 st = Inr st1"
      "l2_Number (fs_n st) = l2_Number (fh_Finalized (fs_result st))"
      "l2_Hash (fs_n st) = l2_Hash (fh_Finalized (fs_result st))"
      "r = Return (Inr ((fs_result (find_candidates st1))\<lparr>fh_Safe := fs_n st\<rparr>))"
  | (ready) st1 parent where "find_l1 l1 st = Inr st1"
      "L2BlockRefByHash l2 (l2_ParentHash (fs_n st)) = Inr parent"
      "find_ready cfg (find_candidates st1)"
      "r = Return (Inr ((fs_result (find_candidates st1))\<lparr>fh_Safe := parent\<rparr>))"
      "l2_Number (fs_n st) \<noteq> l2_Number (fh_Finalized (fs_result st))"
  | (continue) st1 parent where "find_l1 l1 st = Inr st1"
      "L2BlockRefByHash l2 (l2_ParentHash (fs_n st)) = Inr parent"
      "r = Continue ((find_candidates st1)\<lparr>fs_n := parent\<rparr>)"
      "l2_Number (fs_n st) \<noteq> l2_Number (fh_Finalized (fs_result st))"
proof (cases "find_l1 l1 st")
  case (Inl c)
  with assms show ?thesis by (intro failed [of c]) (auto simp: find_iteration_def)
next
  case (Inr st1)
  note n = find_l1_frame [OF Inr]
  show ?thesis
  proof (cases "find_check cfg prev st1")
    case (Some c)
    with Inr assms show ?thesis by (intro failed [of c]) (auto simp: find_iteration_def)
  next
    case None
    then have fin: "l2_Number (fs_n st) = l2_Number (fh_Finalized (fs_result st)) \<Longrightarrow>
        l2_Hash (fs_n st) = l2_Hash (fh_Finalized (fs_result st))"
      using n by (auto simp: find_check_def Let_def split: if_splits)
    show ?thesis
    proof (cases "l2_Number (fs_n st) = l2_Number (fh_Finalized (fs_result st))")
      case True
      with Inr None assms n fin show ?thesis
        by (intro finalized [OF Inr]) (auto simp: find_iteration_def find_candidates_frame Let_def)
    next
      case False
      show ?thesis
      proof (cases "L2BlockRefByHash l2 (l2_ParentHash (fs_n st))")
        case (Inl e)
        with \<open>find_l1 l1 st = Inr st1\<close> None False assms n show ?thesis
          by (intro failed [of "''failed to fetch L2 block by hash''"])
            (auto simp: find_iteration_def find_candidates_frame Let_def)
      next
        case parent: (Inr parent)
        show ?thesis
        proof (cases "find_parent_check (find_candidates st1) parent")
          case (Some c)
          with Inr parent None False assms n show ?thesis
            by (intro failed [of c]) (auto simp: find_iteration_def find_candidates_frame Let_def)
        next
          case ok: None
          show ?thesis
          proof (cases "find_ready cfg (find_candidates st1)")
            case True
            with Inr parent None False assms n ok show ?thesis
              by (intro ready [OF Inr parent]) (auto simp: find_iteration_def find_candidates_frame Let_def)
          next
            case not_ready: False
            with Inr parent None False assms n ok show ?thesis
              by (intro continue [OF Inr parent]) (auto simp: find_iteration_def find_candidates_frame Let_def)
          qed
        qed
      qed
    qed
  qed
qed

lemma find_loop_terminates:
  assumes "numbered_chain l2" and "source_block l2 (fs_n st)"
  shows "\<exists>r. find_loop cfg l1 l2 prev st = Some r"
  using assms(2)
proof (induction "unat (l2_Number (fs_n st))" arbitrary: st rule: less_induct)
  case less
  from refl [of "find_iteration cfg l1 l2 prev st"] show ?case
  proof (cases rule: find_iteration_cases)
    case (continue st1 parent)
    let ?st = "(find_candidates st1)\<lparr>fs_n := parent\<rparr>"
    have "unat (l2_Number (fs_n st)) = Suc (unat (l2_Number parent))"
      using assms(1) less.prems continue(2) unfolding numbered_chain_def by blast
    then have "unat (l2_Number (fs_n ?st)) < unat (l2_Number (fs_n st))" by simp
    moreover have "source_block l2 (fs_n ?st)" using continue(2) by (auto simp: source_block_def)
    note calculation this
    from less.hyps [OF this] continue(3) show ?thesis by (subst find_loop.simps) simp
  qed (subst find_loop.simps, simp)+
qed


definition sample_l2 :: l2_source where
  "sample_l2 = \<lparr>L2BlockRefByHash = (\<lambda>h. Inl NotFound), L2BlockRefByLabel = (\<lambda>lab. Inr zero_l2)\<rparr>"


section \<open>The heads that are found\<close>

text \<open>\<open>a\<close> is \<open>b\<close> or reached from \<open>b\<close> by following parent hashes.\<close>

inductive ancestor :: "l2_source \<Rightarrow> l2_block_ref \<Rightarrow> l2_block_ref \<Rightarrow> bool" for l2 where
  ancestor_self: "ancestor l2 a a"
| ancestor_parent: "\<lbrakk>ancestor l2 n b; L2BlockRefByHash l2 (l2_ParentHash n) = Inr a\<rbrakk> \<Longrightarrow> ancestor l2 a b"

lemma find_candidates_unsafe:
  "fh_Unsafe (fs_result (find_candidates st)) =
    (if \<not> fs_ahead st \<and> l1_Hash (fs_l1Block st) \<noteq> id_Hash (l2_L1Origin (fs_n st)) then zero_l2
     else if fh_Unsafe (fs_result st) = zero_l2 then fs_n st else fh_Unsafe (fs_result st))"
  by (simp add: find_candidates_def Let_def)

text \<open>The candidate for the unsafe head lies between the block being looked at and the old unsafe head.\<close>

definition heads_in_line :: "l2_source \<Rightarrow> l2_block_ref \<Rightarrow> l2_block_ref \<Rightarrow> l2_block_ref \<Rightarrow> bool" where
  "heads_in_line l2 prev safe unsafe \<longleftrightarrow>
     ancestor l2 safe prev \<and> (unsafe = zero_l2 \<or> ancestor l2 safe unsafe \<and> ancestor l2 unsafe prev)"

lemma heads_in_line_candidates:
  assumes "heads_in_line l2 prev (fs_n st) (fh_Unsafe (fs_result st))" and "find_l1 l1 st = Inr st1"
  shows "heads_in_line l2 prev (fs_n st) (fh_Unsafe (fs_result (find_candidates st1)))"
  using assms find_l1_frame [OF assms(2)]
  by (auto simp: heads_in_line_def find_candidates_unsafe intro: ancestor_self)

lemma heads_in_line_parent:
  "heads_in_line l2 prev n unsafe \<Longrightarrow> L2BlockRefByHash l2 (l2_ParentHash n) = Inr p \<Longrightarrow> heads_in_line l2 prev p unsafe"
  unfolding heads_in_line_def by (blast intro: ancestor_parent)

lemma find_loop_in_line:
  assumes "find_loop cfg l1 l2 prev st = Some r"
  shows "\<forall>res. r = Inr res \<longrightarrow> heads_in_line l2 prev (fs_n st) (fh_Unsafe (fs_result st)) \<longrightarrow>
       heads_in_line l2 prev (fh_Safe res) (fh_Unsafe res)"
proof (rule find_loop.raw_induct [OF _ assms])
  fix f and cfg :: config and l1 l2 prev st and r :: "cause + find_heads_result"
  assume IH: "\<And>cfg l1 l2 prev st r. f cfg l1 l2 prev st = Some r \<Longrightarrow>
      \<forall>res. r = Inr res \<longrightarrow> heads_in_line l2 prev (fs_n st) (fh_Unsafe (fs_result st)) \<longrightarrow>
        heads_in_line l2 prev (fh_Safe res) (fh_Unsafe res)"
    and body: "(case find_iteration cfg l1 l2 prev st of Return r \<Rightarrow> Some r | Continue st \<Rightarrow> f cfg l1 l2 prev st)
      = Some r"
  from refl [of "find_iteration cfg l1 l2 prev st"] show
    "\<forall>res. r = Inr res \<longrightarrow> heads_in_line l2 prev (fs_n st) (fh_Unsafe (fs_result st)) \<longrightarrow>
       heads_in_line l2 prev (fh_Safe res) (fh_Unsafe res)"
  proof (cases rule: find_iteration_cases)
    case (failed c)
    with body show ?thesis by auto
  next
    case (finalized st1)
    with body heads_in_line_candidates [OF _ finalized(1)] show ?thesis by auto
  next
    case (ready st1 parent)
    with body heads_in_line_candidates [OF _ ready(1)] heads_in_line_parent [OF _ ready(2)] show ?thesis by auto
  next
    case (continue st1 parent)
    with body have "f cfg l1 l2 prev ((find_candidates st1)\<lparr>fs_n := parent\<rparr>) = Some r" by simp
    from IH [OF this] heads_in_line_candidates [OF _ continue(1)] heads_in_line_parent [OF _ continue(2)]
    show ?thesis by auto
  qed
qed

text \<open>
  The heads that are found lie on one chain: the new safe head is an ancestor of the new unsafe head,
  unless there is none, and both are ancestors of the old unsafe head.
\<close>

lemma FindL2Heads_in_line:
  assumes "FindL2Heads cfg l1 l2 = Some (Inr res)"
  shows "\<exists>prev. L2BlockRefByLabel l2 Unsafe = Inr prev \<and> heads_in_line l2 prev (fh_Safe res) (fh_Unsafe res)"
proof -
  from assms obtain result where result: "currentHeads cfg l2 = Inr result"
    "find_loop cfg l1 l2 (fh_Unsafe result) \<lparr>fs_result = result, fs_n = fh_Unsafe result, fs_highest = zero_l2,
       fs_l1Block = zero_l1, fs_ahead = False\<rparr> = Some (Inr res)"
    by (auto simp: FindL2Heads_def split: sum.splits)
  have "heads_in_line l2 (fh_Unsafe result) (fh_Unsafe result) (fh_Unsafe result)"
    by (simp add: heads_in_line_def ancestor_self)
  with find_loop_in_line [OF result(2)] have "heads_in_line l2 (fh_Unsafe result) (fh_Safe res) (fh_Unsafe res)"
    by simp
  moreover have "L2BlockRefByLabel l2 Unsafe = Inr (fh_Unsafe result)"
    using result(1) by (auto simp: currentHeads_def split: sum.splits)
  ultimately show ?thesis by blast
qed

text \<open>A chain of three blocks on canonical L1 blocks, all of it unsafe.\<close>

definition chain_block :: "nat \<Rightarrow> l2_block_ref" where
  "chain_block k = \<lparr>l2_Hash = word_of_nat k + 2, l2_Number = word_of_nat k, l2_ParentHash = word_of_nat k + 1,
     l2_Time = 100 + 2 * word_of_nat k, l2_L1Origin = \<lparr>id_Hash = 1, id_Number = 0\<rparr>, l2_SequenceNumber = word_of_nat k\<rparr>"

definition chain_l2 :: l2_source where
  "chain_l2 = \<lparr>L2BlockRefByHash = (\<lambda>h. if h = 2 then Inr (chain_block 0) else if h = 3 then Inr (chain_block 1)
       else Inl NotFound),
     L2BlockRefByLabel = (\<lambda>lab. if lab = Unsafe then Inr (chain_block 2) else Inl NotFound)\<rparr>"

definition chain_l1 :: "hash \<Rightarrow> l1_fetcher" where
  "chain_l1 h = no_l1\<lparr>L1BlockRefByNumber := (\<lambda>n. Inr \<lparr>l1_Hash = h, l1_Number = n, l1_ParentHash = 0, l1_Time = 100\<rparr>)\<rparr>"

lemmas chain_defs = find_iteration_def find_l1_def find_check_def find_candidates_def find_ready_def
  find_parent_check_def Let_def chain_l2_def chain_l1_def chain_block_def sample_config_def MaxReorgSeqWindows_def
  zero_l1_def zero_l2_def zero_id_def

lemma FindL2Heads_chain:
  "FindL2Heads sample_config (chain_l1 1) chain_l2 = Some (Inr \<lparr>fh_Unsafe = chain_block 2, fh_Safe = chain_block 0,
     fh_Finalized = chain_block 0\<rparr>)"
  unfolding FindL2Heads_def
  by (simp add: currentHeads_def chain_defs, (subst find_loop.simps, simp add: chain_defs)+)

text \<open>The safe head found is a block of the source and not below the finalized head.\<close>

definition above_finalized :: "l2_source \<Rightarrow> l2_block_ref \<Rightarrow> find_heads_result \<Rightarrow> bool" where
  "above_finalized l2 n res \<longleftrightarrow> source_block l2 n \<and> l2_Number (fh_Finalized res) \<le> l2_Number n"

lemma above_finalized_parent:
  assumes "numbered_chain l2" and "above_finalized l2 n res" and "L2BlockRefByHash l2 (l2_ParentHash n) = Inr p"
    and "l2_Number n \<noteq> l2_Number (fh_Finalized res)" and "fh_Finalized res' = fh_Finalized res"
  shows "above_finalized l2 p res'"
proof -
  have "unat (l2_Number n) = Suc (unat (l2_Number p))"
    using assms(1-3) unfolding numbered_chain_def above_finalized_def by blast
  moreover have "unat (l2_Number (fh_Finalized res)) < unat (l2_Number n)"
    using assms(2,4) by (simp add: above_finalized_def word_le_nat_alt word_unat_eq_iff)
  ultimately have "l2_Number (fh_Finalized res) \<le> l2_Number p" by (simp add: word_le_nat_alt)
  with assms(3,5) show ?thesis by (auto simp: above_finalized_def source_block_def)
qed

lemma find_loop_above:
  assumes "find_loop cfg l1 l2 prev st = Some r"
  shows "\<forall>res. r = Inr res \<longrightarrow> numbered_chain l2 \<longrightarrow> above_finalized l2 (fs_n st) (fs_result st) \<longrightarrow>
       above_finalized l2 (fh_Safe res) res"
proof (rule find_loop.raw_induct [OF _ assms])
  fix f and cfg :: config and l1 l2 prev st and r :: "cause + find_heads_result"
  assume IH: "\<And>cfg l1 l2 prev st r. f cfg l1 l2 prev st = Some r \<Longrightarrow>
      \<forall>res. r = Inr res \<longrightarrow> numbered_chain l2 \<longrightarrow> above_finalized l2 (fs_n st) (fs_result st) \<longrightarrow>
        above_finalized l2 (fh_Safe res) res"
    and body: "(case find_iteration cfg l1 l2 prev st of Return r \<Rightarrow> Some r | Continue st \<Rightarrow> f cfg l1 l2 prev st)
      = Some r"
  from refl [of "find_iteration cfg l1 l2 prev st"] show
    "\<forall>res. r = Inr res \<longrightarrow> numbered_chain l2 \<longrightarrow> above_finalized l2 (fs_n st) (fs_result st) \<longrightarrow>
       above_finalized l2 (fh_Safe res) res"
  proof (cases rule: find_iteration_cases)
    case (failed c)
    with body show ?thesis by auto
  next
    case (finalized st1)
    with body find_l1_frame [OF finalized(1)] show ?thesis
      by (auto simp: above_finalized_def find_candidates_frame)
  next
    case (ready st1 parent)
    have "fh_Finalized ((fs_result (find_candidates st1))\<lparr>fh_Safe := parent\<rparr>) = fh_Finalized (fs_result st)"
      using find_l1_frame [OF ready(1)] by (simp add: find_candidates_frame)
    with body ready show ?thesis using above_finalized_parent [OF _ _ ready(2,5)] by fastforce
  next
    case (continue st1 parent)
    with body have "f cfg l1 l2 prev ((find_candidates st1)\<lparr>fs_n := parent\<rparr>) = Some r" by simp
    moreover have "fh_Finalized (fs_result (find_candidates st1)) = fh_Finalized (fs_result st)"
      using find_l1_frame [OF continue(1)] by (simp add: find_candidates_frame)
    ultimately show ?thesis using IH above_finalized_parent [OF _ _ continue(2,4)] by fastforce
  qed
qed

text \<open>The engine does not report a finalized head above its unsafe head.\<close>

definition consistent_labels :: "config \<Rightarrow> l2_source \<Rightarrow> bool" where
  "consistent_labels cfg l2 \<longleftrightarrow>
     (\<forall>h. currentHeads cfg l2 = Inr h \<longrightarrow> l2_Number (fh_Finalized h) \<le> l2_Number (fh_Unsafe h))"

lemma FindL2Heads_above_finalized:
  assumes "FindL2Heads cfg l1 l2 = Some (Inr res)" and "numbered_chain l2" and "consistent_labels cfg l2"
  shows "above_finalized l2 (fh_Safe res) res"
proof -
  from assms(1) obtain result where result: "currentHeads cfg l2 = Inr result"
    "find_loop cfg l1 l2 (fh_Unsafe result) \<lparr>fs_result = result, fs_n = fh_Unsafe result, fs_highest = zero_l2,
       fs_l1Block = zero_l1, fs_ahead = False\<rparr> = Some (Inr res)"
    by (auto simp: FindL2Heads_def split: sum.splits)
  have "source_block l2 (fh_Unsafe result)"
    using result(1) by (auto simp: currentHeads_def source_block_def split: sum.splits)
  then have "above_finalized l2 (fh_Unsafe result) result"
    using assms(3) result(1) by (simp add: above_finalized_def consistent_labels_def)
  with find_loop_above [OF result(2)] assms(2) show ?thesis by simp
qed

definition finalized_l2 :: l2_source where
  "finalized_l2 = chain_l2\<lparr>L2BlockRefByLabel := (\<lambda>lab. if lab = Unsafe then Inr (chain_block 2)
     else if lab = Finalized then Inr (chain_block 1) else Inl NotFound)\<rparr>"

text \<open>
  The unsafe head can get lost: if the L1 origin of the finalized block itself is not canonical, the
  candidate for the unsafe head is discarded in the very iteration that stops at the finalized block,
  and the search succeeds with the zero block as unsafe head, below the safe head.
\<close>

lemma FindL2Heads_loses_unsafe_head:
  "FindL2Heads sample_config (chain_l1 99) finalized_l2 = Some (Inr \<lparr>fh_Unsafe = zero_l2, fh_Safe = chain_block 1,
     fh_Finalized = chain_block 1\<rparr>)"
  unfolding FindL2Heads_def
  by (simp add: currentHeads_def finalized_l2_def chain_defs,
      (subst find_loop.simps, simp add: finalized_l2_def chain_defs)+)

end
