(* ===== verification/Engine_API.thy ===== *)
theory Engine_API
  imports L1_Info Sync_Start
begin

text \<open>
  Building and checking blocks with the execution engine: \<^verbatim>\<open>engine_update.go\<close>,
  \<^verbatim>\<open>engine_consolidate.go\<close> of \<^verbatim>\<open>op-node/rollup/derive\<close> and \<^verbatim>\<open>op-node/eth/status.go\<close>. The engine itself
  is a separate program: it is a record of the answers it gives during one step, which may differ at
  the next step.
\<close>

record engine =
  GetPayload :: "u64 \<Rightarrow> rpc_error + execution_payload"
  ForkchoiceUpdate :: "forkchoice_state \<Rightarrow> payload_attributes option \<Rightarrow> rpc_error + forkchoice_result"
  NewPayload :: "execution_payload \<Rightarrow> rpc_error + exec_status"
  PayloadByNumber :: "u64 \<Rightarrow> rpc_error + execution_payload"
  L2Source :: l2_source

section \<open>Statuses\<close>

definition ForkchoiceUpdateErr :: "exec_status \<Rightarrow> cause option" where
  "ForkchoiceUpdateErr status =
    (case status of
       ExecutionSyncing \<Rightarrow> Some ''updated forkchoice, but node is syncing''
     | ExecutionAccepted \<Rightarrow> Some ''unexpected status, could not update forkchoice''
     | ExecutionInvalidTerminalBlock \<Rightarrow> Some ''unexpected status, could not update forkchoice''
     | ExecutionInvalidBlockHash \<Rightarrow> Some ''unexpected status, could not update forkchoice''
     | ExecutionInvalid \<Rightarrow> Some ''cannot update forkchoice, block is invalid''
     | ExecutionValid \<Rightarrow> None
     | ExecutionOther s \<Rightarrow> Some ''unknown forkchoice status'')"

definition NewPayloadErr :: "exec_status \<Rightarrow> cause option" where
  "NewPayloadErr status =
    (case status of
       ExecutionValid \<Rightarrow> None
     | ExecutionSyncing \<Rightarrow> Some ''failed to execute payload, node is syncing''
     | ExecutionInvalid \<Rightarrow> Some ''execution payload was INVALID''
     | ExecutionInvalidBlockHash \<Rightarrow> Some ''execution payload has INVALID BLOCKHASH''
     | ExecutionInvalidTerminalBlock \<Rightarrow> Some ''engine is misconfigured''
     | ExecutionAccepted \<Rightarrow> Some ''execution payload cannot be validated yet''
     | ExecutionOther s \<Rightarrow> Some ''unknown execution status'')"

lemma ForkchoiceUpdateErr_None [simp]: "ForkchoiceUpdateErr st = None \<longleftrightarrow> st = ExecutionValid"
  by (cases st) (simp_all add: ForkchoiceUpdateErr_def)

lemma NewPayloadErr_None [simp]: "NewPayloadErr st = None \<longleftrightarrow> st = ExecutionValid"
  by (cases st) (simp_all add: NewPayloadErr_def)

lemma Err_Valid [simp]: "ForkchoiceUpdateErr ExecutionValid = None" "NewPayloadErr ExecutionValid = None"
  by simp_all

section \<open>The order of transactions\<close>

text \<open>\<^verbatim>\<open>isDepositTx\<close>: the type byte of a transaction, an error if it is empty.\<close>

definition isDepositTx :: "bytes \<Rightarrow> cause + bool" where
  "isDepositTx opaqueTx =
    (case opaqueTx of [] \<Rightarrow> Inl ''empty transaction'' | b # _ \<Rightarrow> Inr (b = DepositTxType))"

text \<open>The loop of \<^verbatim>\<open>lastDeposit\<close> from index \<open>i\<close> on, with the value of the variable so far.\<close>

fun lastDeposit_loop :: "nat \<Rightarrow> nat \<Rightarrow> bytes list \<Rightarrow> cause + nat" where
  "lastDeposit_loop i lastD [] = Inr lastD"
| "lastDeposit_loop i lastD (tx # txns) =
    (case isDepositTx tx of
       Inl c \<Rightarrow> Inl ''invalid transaction''
     | Inr deposit \<Rightarrow> if deposit then lastDeposit_loop (Suc i) i txns else Inr lastD)"

definition lastDeposit :: "bytes list \<Rightarrow> cause + nat" where
  "lastDeposit txns = lastDeposit_loop 0 0 txns"

text \<open>The loop that looks for a deposit behind the last one of the start.\<close>

fun no_late_deposit :: "bytes list \<Rightarrow> derr option" where
  "no_late_deposit [] = None"
| "no_late_deposit (tx # txs) =
    (case isDepositTx tx of
       Inl c \<Rightarrow> Some (Plain ''failed to decode transaction'')
     | Inr deposit \<Rightarrow> if deposit then Some (Plain ''deposit tx after other tx in l2 block'') else no_late_deposit txs)"

text \<open>\<^verbatim>\<open>Transactions[0][0]\<close> panics if the first transaction is empty.\<close>

definition sanityCheckPayload :: "execution_payload \<Rightarrow> derr option" where
  "sanityCheckPayload payload =
    (case pl_Transactions payload of
       [] \<Rightarrow> Some (Plain ''no transactions in returned payload'')
     | [] # _ \<Rightarrow> Some (Panic ''index out of range'')
     | (b # _) # _ \<Rightarrow>
         if b \<noteq> DepositTxType then Some (Plain ''first transaction was not deposit tx'')
         else (case lastDeposit (pl_Transactions payload) of
             Inl c \<Rightarrow> Some (Plain ''failed to find last deposit'')
           | Inr lastD \<Rightarrow> no_late_deposit (drop (Suc lastD) (pl_Transactions payload))))"

text \<open>The order the check is meant to enforce: some deposits, then only other transactions.\<close>

definition is_deposit :: "bytes \<Rightarrow> bool" where
  "is_deposit tx \<longleftrightarrow> tx \<noteq> [] \<and> hd tx = DepositTxType"

definition deposits_first :: "bytes list \<Rightarrow> bool" where
  "deposits_first txs \<longleftrightarrow> takeWhile is_deposit txs \<noteq> []
     \<and> (\<forall>u\<in>set (dropWhile is_deposit txs). u \<noteq> [] \<and> \<not> is_deposit u)"

lemma isDepositTx_simps:
  "isDepositTx [] = Inl ''empty transaction''" "tx \<noteq> [] \<Longrightarrow> isDepositTx tx = Inr (is_deposit tx)"
  by (auto simp: isDepositTx_def is_deposit_def split: list.splits)

lemma not_is_deposit_Nil [simp]: "\<not> is_deposit []"
  by (simp add: is_deposit_def)

lemma lastDeposit_loop_eq:
  "lastDeposit_loop i lastD txs =
    (case dropWhile is_deposit txs of
       [] # us \<Rightarrow> Inl ''invalid transaction''
     | _ \<Rightarrow> Inr (if takeWhile is_deposit txs = [] then lastD else i + length (takeWhile is_deposit txs) - 1))"
proof (induction txs arbitrary: i lastD)
  case (Cons tx txs)
  show ?case
  proof (cases "is_deposit tx")
    case True
    then have "tx \<noteq> []" by auto
    with True Cons [of "Suc i" i] show ?thesis
      by (cases "dropWhile is_deposit txs"; cases "hd (dropWhile is_deposit txs)")
        (simp_all add: isDepositTx_simps del: dropWhile_eq_Nil_conv)
  next
    case False
    then show ?thesis by (cases tx) (simp_all add: isDepositTx_simps)
  qed
qed simp

lemma no_late_deposit_None: "no_late_deposit txs = None \<longleftrightarrow> (\<forall>u\<in>set txs. u \<noteq> [] \<and> \<not> is_deposit u)"
proof (induction txs)
  case (Cons tx txs)
  then show ?case by (cases "tx = []") (simp_all add: isDepositTx_simps)
qed simp

text \<open>\<^verbatim>\<open>sanityCheckPayload\<close> accepts exactly the payloads whose deposits come first.\<close>

lemma sanityCheckPayload_None:
  "sanityCheckPayload payload = None \<longleftrightarrow> deposits_first (pl_Transactions payload)"
proof (cases "pl_Transactions payload")
  case Nil
  then show ?thesis by (simp add: sanityCheckPayload_def deposits_first_def)
next
  case (Cons tx txs)
  show ?thesis
  proof (cases "is_deposit tx")
    case False
    then show ?thesis using Cons
      by (cases tx) (simp_all add: sanityCheckPayload_def deposits_first_def is_deposit_def)
  next
    case True
    let ?txs = "tx # txs"
    from True obtain b bs where tx: "tx = b # bs" "b = DepositTxType"
      by (cases tx) (auto simp: is_deposit_def)
    have "drop (Suc (length (takeWhile is_deposit ?txs) - 1)) ?txs = dropWhile is_deposit ?txs"
      using True by (simp add: dropWhile_eq_drop)
    with True tx Cons show ?thesis
      by (simp add: sanityCheckPayload_def lastDeposit_def deposits_first_def lastDeposit_loop_eq
          no_late_deposit_None isDepositTx_simps split: list.split)
  qed
qed

section \<open>Inserting a block\<close>

datatype block_insertion_err =
  BlockInsertOK | BlockInsertTemporaryErr | BlockInsertPrestateErr | BlockInsertPayloadErr

text \<open>The result: the payload, nil on errors, the kind of the error and the error.\<close>

type_synonym insertion = "execution_payload option \<times> block_insertion_err \<times> derr option"

text \<open>The first part: asking the engine to build a block and fetching it.\<close>

definition build_block :: "engine \<Rightarrow> forkchoice_state \<Rightarrow> payload_attributes \<Rightarrow> (block_insertion_err \<times> derr) + execution_payload" where
  "build_block eng fc attrs =
    (case ForkchoiceUpdate eng fc (Some attrs) of
       Inl (InputError InvalidForkchoiceState) \<Rightarrow>
         Inl (BlockInsertPrestateErr, Plain ''pre-block-creation forkchoice update was inconsistent with engine'')
     | Inl (InputError InvalidPayloadAttributes) \<Rightarrow>
         Inl (BlockInsertPayloadErr, Plain ''payload attributes are not valid, cannot build block'')
     | Inl (InputError _) \<Rightarrow> Inl (BlockInsertPrestateErr, Plain ''unexpected error code in forkchoice-updated response'')
     | Inl _ \<Rightarrow> Inl (BlockInsertTemporaryErr, Plain ''failed to create new block via forkchoice'')
     | Inr fcRes \<Rightarrow>
         (case ForkchoiceUpdateErr (fcr_Status fcRes) of
            Some c \<Rightarrow>
              Inl (if fcr_Status fcRes \<in> {ExecutionInvalid, ExecutionInvalidBlockHash} then BlockInsertPayloadErr
                   else BlockInsertTemporaryErr, Plain c)
          | None \<Rightarrow>
              (case fcr_PayloadID fcRes of
                 None \<Rightarrow> Inl (BlockInsertTemporaryErr, Plain ''nil id in forkchoice result when expecting a valid ID'')
               | Some i \<Rightarrow>
                   (case GetPayload eng i of
                      Inl e \<Rightarrow> Inl (BlockInsertTemporaryErr, Plain ''failed to get execution payload'')
                    | Inr payload \<Rightarrow>
                        (case sanityCheckPayload payload of
                           Some err \<Rightarrow> Inl (BlockInsertPayloadErr, err)
                         | None \<Rightarrow> Inr payload)))))"

text \<open>The second part: executing the block and making it canonical.\<close>

definition adopt_block :: "engine \<Rightarrow> forkchoice_state \<Rightarrow> bool \<Rightarrow> execution_payload \<Rightarrow> (block_insertion_err \<times> derr) + execution_payload" where
  "adopt_block eng fc updateSafe payload =
    (case NewPayload eng payload of
       Inl e \<Rightarrow> Inl (BlockInsertTemporaryErr, Plain ''failed to insert execution payload'')
     | Inr status \<Rightarrow>
         (case NewPayloadErr status of
            Some c \<Rightarrow>
              Inl (if status \<in> {ExecutionInvalid, ExecutionInvalidBlockHash} then BlockInsertPayloadErr
                   else BlockInsertTemporaryErr, Plain c)
          | None \<Rightarrow>
              let fc = fc\<lparr>fc_Head := pl_BlockHash payload\<rparr>;
                  fc = (if updateSafe then fc\<lparr>fc_Safe := pl_BlockHash payload\<rparr> else fc)
              in (case ForkchoiceUpdate eng fc None of
                    Inl (InputError InvalidForkchoiceState) \<Rightarrow>
                      Inl (BlockInsertPayloadErr, Plain ''post-block-creation forkchoice update was inconsistent with engine'')
                  | Inl (InputError _) \<Rightarrow>
                      Inl (BlockInsertPrestateErr, Plain ''unexpected error code in forkchoice-updated response'')
                  | Inl _ \<Rightarrow> Inl (BlockInsertTemporaryErr, Plain ''failed to make the new L2 block canonical via forkchoice'')
                  | Inr fcRes \<Rightarrow>
                      (case ForkchoiceUpdateErr (fcr_Status fcRes) of
                         Some c \<Rightarrow> Inl (BlockInsertPayloadErr, Plain c)
                       | None \<Rightarrow> Inr payload))))"

definition InsertHeadBlock :: "engine \<Rightarrow> forkchoice_state \<Rightarrow> payload_attributes \<Rightarrow> bool \<Rightarrow> insertion" where
  "InsertHeadBlock eng fc attrs updateSafe =
    (case build_block eng fc attrs of
       Inl (kind, err) \<Rightarrow> (None, kind, Some err)
     | Inr payload \<Rightarrow>
         (case adopt_block eng fc updateSafe payload of
            Inl (kind, err) \<Rightarrow> (None, kind, Some err)
          | Inr payload \<Rightarrow> (Some payload, BlockInsertOK, None)))"

text \<open>What the engine confirmed when a block was inserted.\<close>

definition inserted :: "engine \<Rightarrow> forkchoice_state \<Rightarrow> payload_attributes \<Rightarrow> bool \<Rightarrow> execution_payload \<Rightarrow> bool" where
  "inserted eng fc attrs updateSafe payload \<longleftrightarrow>
    (\<exists>i. ForkchoiceUpdate eng fc (Some attrs) = Inr \<lparr>fcr_Status = ExecutionValid, fcr_PayloadID = Some i\<rparr>
       \<and> GetPayload eng i = Inr payload)
    \<and> deposits_first (pl_Transactions payload)
    \<and> NewPayload eng payload = Inr ExecutionValid
    \<and> (\<exists>i. ForkchoiceUpdate eng \<lparr>fc_Head = pl_BlockHash payload,
           fc_Safe = (if updateSafe then pl_BlockHash payload else fc_Safe fc), fc_Finalized = fc_Finalized fc\<rparr> None
         = Inr \<lparr>fcr_Status = ExecutionValid, fcr_PayloadID = i\<rparr>)"

lemma build_block_Inr:
  assumes "build_block eng fc attrs = Inr payload"
  shows "\<exists>i. ForkchoiceUpdate eng fc (Some attrs) = Inr \<lparr>fcr_Status = ExecutionValid, fcr_PayloadID = Some i\<rparr>
       \<and> GetPayload eng i = Inr payload"
    and "deposits_first (pl_Transactions payload)"
proof -
  from assms obtain fcRes where fcRes: "ForkchoiceUpdate eng fc (Some attrs) = Inr fcRes"
    by (auto simp: build_block_def split: sum.splits rpc_error.splits error_code.splits)
  with assms show "\<exists>i. ForkchoiceUpdate eng fc (Some attrs) = Inr \<lparr>fcr_Status = ExecutionValid, fcr_PayloadID = Some i\<rparr>
       \<and> GetPayload eng i = Inr payload" and "deposits_first (pl_Transactions payload)"
    by (cases fcRes; auto simp: build_block_def sanityCheckPayload_None split: sum.splits option.splits)+
qed

lemma adopt_block_Inr:
  assumes "adopt_block eng fc updateSafe payload = Inr payload'"
  shows "payload' = payload" and "NewPayload eng payload = Inr ExecutionValid"
    and "\<exists>i. ForkchoiceUpdate eng \<lparr>fc_Head = pl_BlockHash payload,
           fc_Safe = (if updateSafe then pl_BlockHash payload else fc_Safe fc), fc_Finalized = fc_Finalized fc\<rparr> None
         = Inr \<lparr>fcr_Status = ExecutionValid, fcr_PayloadID = i\<rparr>"
proof -
  let ?fc = "\<lparr>fc_Head = pl_BlockHash payload,
    fc_Safe = (if updateSafe then pl_BlockHash payload else fc_Safe fc), fc_Finalized = fc_Finalized fc\<rparr>"
  have fc: "(if updateSafe then fc\<lparr>fc_Head := pl_BlockHash payload, fc_Safe := pl_BlockHash payload\<rparr>
      else fc\<lparr>fc_Head := pl_BlockHash payload\<rparr>) = ?fc" by (cases fc) simp
  from assms obtain status where status: "NewPayload eng payload = Inr status" "status = ExecutionValid"
    by (auto simp: adopt_block_def split: sum.splits option.splits)
  from assms status obtain fcRes where fcRes: "ForkchoiceUpdate eng ?fc None = Inr fcRes"
    by (auto simp: adopt_block_def Let_def fc split: sum.splits rpc_error.splits error_code.splits if_splits)
  from assms status fcRes show "payload' = payload" "NewPayload eng payload = Inr ExecutionValid"
    by (auto simp: adopt_block_def Let_def fc split: option.splits)
  from assms status fcRes show "\<exists>i. ForkchoiceUpdate eng ?fc None = Inr \<lparr>fcr_Status = ExecutionValid, fcr_PayloadID = i\<rparr>"
    by (cases fcRes) (auto simp: adopt_block_def Let_def fc split: option.splits)
qed

lemma InsertHeadBlock_ok:
  assumes "InsertHeadBlock eng fc attrs updateSafe = (p, kind, None)"
  shows "\<exists>payload. p = Some payload \<and> kind = BlockInsertOK \<and> inserted eng fc attrs updateSafe payload"
proof -
  from assms obtain payload payload' where steps: "build_block eng fc attrs = Inr payload"
    "adopt_block eng fc updateSafe payload = Inr payload'" "p = Some payload'" "kind = BlockInsertOK"
    by (auto simp: InsertHeadBlock_def split: sum.splits)
  have "inserted eng fc attrs updateSafe payload"
    unfolding inserted_def using build_block_Inr [OF steps(1)] adopt_block_Inr [OF steps(2)] by blast
  with steps adopt_block_Inr(1) [OF steps(2)] show ?thesis by simp
qed

section \<open>Comparing attributes with a block\<close>

fun first_mismatch :: "bytes list \<Rightarrow> bytes list \<Rightarrow> cause option" where
  "first_mismatch (otx # otxs) (expect # expects) =
    (if otx \<noteq> expect then Some ''transaction does not match'' else first_mismatch otxs expects)"
| "first_mismatch _ _ = None"

definition AttributesMatchBlock :: "payload_attributes \<Rightarrow> hash \<Rightarrow> execution_payload \<Rightarrow> cause option" where
  "AttributesMatchBlock attrs parentHash block =
    (if parentHash \<noteq> pl_ParentHash block then Some ''parent hash field does not match''
     else if at_Timestamp attrs \<noteq> pl_Timestamp block then Some ''timestamp field does not match''
     else if at_PrevRandao attrs \<noteq> pl_PrevRandao block then Some ''random field does not match''
     else if length (at_Transactions attrs) \<noteq> length (pl_Transactions block)
     then Some ''transaction count does not match''
     else first_mismatch (at_Transactions attrs) (pl_Transactions block))"

lemma first_mismatch_None: "length xs = length ys \<Longrightarrow> first_mismatch xs ys = None \<longleftrightarrow> xs = ys"
  by (induction xs ys rule: first_mismatch.induct) auto

lemma AttributesMatchBlock_None:
  "AttributesMatchBlock attrs parentHash block = None \<longleftrightarrow>
     pl_ParentHash block = parentHash \<and> pl_Timestamp block = at_Timestamp attrs
     \<and> pl_PrevRandao block = at_PrevRandao attrs \<and> pl_Transactions block = at_Transactions attrs"
  by (auto simp: AttributesMatchBlock_def first_mismatch_None)

end
