(* ===== verification/Payloads_Queue.thy ===== *)
theory Payloads_Queue
  imports Rollup_Types
begin

text \<open>
  The queue of unsafe payloads: \<^verbatim>\<open>op-node/rollup/derive/payloads_queue.go\<close>, a priority queue by block number
  with a bound on its memory, on top of the binary heap of Go's \<^verbatim>\<open>container/heap\<close>.
\<close>

section \<open>The binary heap\<close>

definition swap :: "'a list \<Rightarrow> nat \<Rightarrow> nat \<Rightarrow> 'a list" where
  "swap xs i j = xs[i := xs ! j, j := xs ! i]"

text \<open>\<^verbatim>\<open>up\<close> and \<^verbatim>\<open>down\<close> of \<^verbatim>\<open>container/heap\<close>, for the order given by a key.\<close>

fun heap_up :: "('a \<Rightarrow> 'k::linorder) \<Rightarrow> 'a list \<Rightarrow> nat \<Rightarrow> 'a list" where
  "heap_up key xs j =
    (let i = (j - 1) div 2 in
     if i = j \<or> \<not> key (xs ! j) < key (xs ! i) then xs else heap_up key (swap xs i j) i)"

declare heap_up.simps [simp del]

definition smaller_child :: "('a \<Rightarrow> 'k::linorder) \<Rightarrow> 'a list \<Rightarrow> nat \<Rightarrow> nat \<Rightarrow> nat" where
  "smaller_child key xs i n =
    (let j1 = 2 * i + 1; j2 = j1 + 1 in if j2 < n \<and> key (xs ! j2) < key (xs ! j1) then j2 else j1)"

function heap_down :: "('a \<Rightarrow> 'k::linorder) \<Rightarrow> 'a list \<Rightarrow> nat \<Rightarrow> nat \<Rightarrow> 'a list" where
  "heap_down key xs i n =
    (if 2 * i + 1 \<ge> n then xs
     else let j = smaller_child key xs i n in
       if \<not> key (xs ! j) < key (xs ! i) then xs else heap_down key (swap xs i j) j n)"
  by pat_completeness auto
termination
  by (relation "measure (\<lambda>(key, xs, i, n). n - i)") (auto simp: smaller_child_def Let_def)

declare heap_down.simps [simp del]

definition heap_Push :: "('a \<Rightarrow> 'k::linorder) \<Rightarrow> 'a \<Rightarrow> 'a list \<Rightarrow> 'a list" where
  "heap_Push key x xs = heap_up key (xs @ [x]) (length xs)"

definition heap_Pop :: "('a \<Rightarrow> 'k::linorder) \<Rightarrow> 'a list \<Rightarrow> 'a \<times> 'a list" where
  "heap_Pop key xs =
    (let n = length xs - 1; ys = heap_down key (swap xs 0 n) 0 n in (ys ! n, take n ys))"

section \<open>Correctness of the heap\<close>

definition is_heap :: "('a \<Rightarrow> 'k::linorder) \<Rightarrow> 'a list \<Rightarrow> bool" where
  "is_heap key xs \<longleftrightarrow> (\<forall>k<length xs. key (xs ! ((k - 1) div 2)) \<le> key (xs ! k))"

lemma length_swap [simp]: "length (swap xs i j) = length xs"
  by (simp add: swap_def)

lemma mset_swap_heap [simp]: "i < length xs \<Longrightarrow> j < length xs \<Longrightarrow> mset (swap xs i j) = mset xs"
  unfolding swap_def by (rule mset_swap)

lemma swap_nth: "i < length xs \<Longrightarrow> j < length xs \<Longrightarrow> k < length xs \<Longrightarrow>
    swap xs i j ! k = (if k = j then xs ! i else if k = i then xs ! j else xs ! k)"
  by (simp add: swap_def nth_list_update)

lemma heap_up_mset: "j < length xs \<Longrightarrow> mset (heap_up key xs j) = mset xs \<and> length (heap_up key xs j) = length xs"
proof (induction key xs j rule: heap_up.induct)
  case (1 key xs j)
  show ?case
  proof (cases "(j - 1) div 2 = j \<or> \<not> key (xs ! j) < key (xs ! ((j - 1) div 2))")
    case False
    then have "(j - 1) div 2 < length xs" using 1(2) by linarith
    with 1 False show ?thesis by (subst (1 2) heap_up.simps) (simp add: Let_def)
  qed (subst (1 2) heap_up.simps, simp)
qed

text \<open>
  The order while an element moves up: only the element at \<open>j\<close> may be smaller than its parent, and the
  children of \<open>j\<close> are at least the parent of \<open>j\<close>.
\<close>

definition heap_above :: "('a \<Rightarrow> 'k::linorder) \<Rightarrow> 'a list \<Rightarrow> nat \<Rightarrow> bool" where
  "heap_above key xs j \<longleftrightarrow>
     (\<forall>k<length xs. k \<noteq> j \<longrightarrow> key (xs ! ((k - 1) div 2)) \<le> key (xs ! k))
     \<and> (\<forall>k<length xs. (k - 1) div 2 = j \<longrightarrow> key (xs ! ((j - 1) div 2)) \<le> key (xs ! k))"

lemma heap_above_step:
  assumes above: "heap_above key xs j" and j: "j < length xs"
    and less: "key (xs ! j) < key (xs ! ((j - 1) div 2))"
  shows "heap_above key (swap xs ((j - 1) div 2) j) ((j - 1) div 2)"
proof -
  define i where "i = (j - 1) div 2"
  have ij: "i < j" "i < length xs" "0 < j" using less j unfolding i_def by (cases j; force)+
  have ord: "\<And>k. k < length xs \<Longrightarrow> k \<noteq> j \<Longrightarrow> key (xs ! ((k - 1) div 2)) \<le> key (xs ! k)"
    and kids: "\<And>k. k < length xs \<Longrightarrow> (k - 1) div 2 = j \<Longrightarrow> key (xs ! i) \<le> key (xs ! k)"
    using above unfolding heap_above_def i_def by blast+
  have nth: "swap xs i j ! k = (if k = j then xs ! i else if k = i then xs ! j else xs ! k)"
    if "k < length xs" for k using swap_nth ij(2) j that by metis
  have up: "key (xs ! ((i - 1) div 2)) \<le> key (xs ! i)" using ord [of i] ij by auto
  have par: "(k - 1) div 2 < length xs" if "k < length xs" for k using that by linarith
  have "key (swap xs i j ! ((k - 1) div 2)) \<le> key (swap xs i j ! k)" if k: "k < length xs" "k \<noteq> i" for k
    using nth [OF k(1)] nth [OF par [OF k(1)]] ord [OF k(1)] kids [OF k(1)] less k
    unfolding i_def by (auto split: if_splits dest: order.strict_trans2 less_imp_le)
  moreover have "key (swap xs i j ! ((i - 1) div 2)) \<le> key (swap xs i j ! k)"
    if k: "k < length xs" "(k - 1) div 2 = i" for k
  proof (cases "i = 0")
    case True
    with nth [OF k(1)] nth [OF ij(2)] ord [OF k(1)] less k show ?thesis
      unfolding i_def [symmetric] by (auto dest: less_imp_le)
  next
    case False
    then have "(i - 1) div 2 < i" by linarith
    with nth [OF k(1)] nth [of "(i - 1) div 2"] ord [OF k(1)] up k ij show ?thesis
      by (auto split: if_splits dest: order.trans)
  qed
  ultimately show ?thesis unfolding heap_above_def i_def [symmetric] by simp
qed

lemma heap_up_is_heap:
  "heap_above key xs j \<Longrightarrow> j < length xs \<Longrightarrow> is_heap key (heap_up key xs j)"
proof (induction key xs j rule: heap_up.induct)
  case (1 key xs j)
  show ?case
  proof (cases "(j - 1) div 2 = j \<or> \<not> key (xs ! j) < key (xs ! ((j - 1) div 2))")
    case True
    then have "is_heap key xs"
      using 1(2) unfolding heap_above_def is_heap_def by (metis linorder_not_less order_refl)
    with True show ?thesis by (subst heap_up.simps) simp
  next
    case False
    then have "(j - 1) div 2 < length xs" using 1(3) by linarith
    with 1 False heap_above_step [OF 1(2,3)] show ?thesis by (subst heap_up.simps) (simp add: Let_def)
  qed
qed

lemma is_heap_Push: "is_heap key xs \<Longrightarrow> is_heap key (heap_Push key x xs)"
  unfolding heap_Push_def
proof (rule heap_up_is_heap)
  assume "is_heap key xs"
  moreover have "xs = []" if "k < Suc (length xs)" "(k - 1) div 2 = length xs" for k
    using that by (cases xs) auto
  ultimately show "heap_above key (xs @ [x]) (length xs)"
    unfolding heap_above_def is_heap_def by (fastforce simp: nth_append)
qed simp

lemma mset_heap_Push: "mset (heap_Push key x xs) = add_mset x (mset xs)"
  using heap_up_mset [of "length xs" "xs @ [x]" key] by (simp add: heap_Push_def)

text \<open>The order while an element moves down within the first \<open>n\<close> elements.\<close>

definition heap_below :: "('a \<Rightarrow> 'k::linorder) \<Rightarrow> 'a list \<Rightarrow> nat \<Rightarrow> nat \<Rightarrow> bool" where
  "heap_below key xs i n \<longleftrightarrow>
     (\<forall>k<n. 0 < k \<longrightarrow> (k - 1) div 2 \<noteq> i \<longrightarrow> key (xs ! ((k - 1) div 2)) \<le> key (xs ! k))
     \<and> (\<forall>k<n. 0 < k \<longrightarrow> 0 < i \<longrightarrow> (k - 1) div 2 = i \<longrightarrow> key (xs ! ((i - 1) div 2)) \<le> key (xs ! k))"

lemma smaller_child_props:
  assumes "2 * i + 1 < n"
  shows "i < smaller_child key xs i n" "smaller_child key xs i n < n"
    "(smaller_child key xs i n - 1) div 2 = i"
    "\<And>k. k < n \<Longrightarrow> 0 < k \<Longrightarrow> (k - 1) div 2 = i \<Longrightarrow> key (xs ! smaller_child key xs i n) \<le> key (xs ! k)"
proof -
  show "i < smaller_child key xs i n" "smaller_child key xs i n < n" "(smaller_child key xs i n - 1) div 2 = i"
    using assms by (auto simp: smaller_child_def Let_def)
  fix k assume k: "k < n" "0 < k" "(k - 1) div 2 = i"
  then have "k = 2 * i + 1 \<or> k = 2 * i + 2" by linarith
  with k show "key (xs ! smaller_child key xs i n) \<le> key (xs ! k)"
    by (auto simp: smaller_child_def Let_def not_less)
qed

lemma heap_below_step:
  assumes below: "heap_below key xs i n" and n: "n \<le> length xs" "2 * i + 1 < n"
    and j: "j = smaller_child key xs i n" and less: "key (xs ! j) < key (xs ! i)"
  shows "heap_below key (swap xs i j) j n"
proof -
  note child = smaller_child_props [OF n(2), where key = key and xs = xs, folded j]
  have nth: "swap xs i j ! k = (if k = j then xs ! i else if k = i then xs ! j else xs ! k)"
    if "k < n" for k using swap_nth [of i xs j k] child(1,2) n that by simp
  have ord: "\<And>k. k < n \<Longrightarrow> 0 < k \<Longrightarrow> (k - 1) div 2 \<noteq> i \<Longrightarrow> key (xs ! ((k - 1) div 2)) \<le> key (xs ! k)"
    and kids: "\<And>k. k < n \<Longrightarrow> 0 < k \<Longrightarrow> 0 < i \<Longrightarrow> (k - 1) div 2 = i \<Longrightarrow> key (xs ! ((i - 1) div 2)) \<le> key (xs ! k)"
    using below unfolding heap_below_def by blast+
  have "key (swap xs i j ! ((k - 1) div 2)) \<le> key (swap xs i j ! k)"
    if k: "k < n" "0 < k" "(k - 1) div 2 \<noteq> j" for k
  proof -
    have p: "(k - 1) div 2 < k" "(k - 1) div 2 < n" using k by linarith+
    show ?thesis
    proof (cases "k = j")
      case True
      with nth [OF k(1)] nth [OF p(2)] child(3) less p show ?thesis by (simp add: less_imp_le)
    next
      case kj: False
      show ?thesis
      proof (cases "(k - 1) div 2 = i")
        case True
        with nth [OF k(1)] nth [OF p(2)] child(4) [OF k(1,2)] kj p show ?thesis by simp
      next
        case False
        with nth [OF k(1)] nth [OF p(2)] ord [OF k(1,2)] kids [OF child(2)] child(1,3) kj k(3) less p show ?thesis
          by (cases "k = i") auto
      qed
    qed
  qed
  moreover have "key (swap xs i j ! ((j - 1) div 2)) \<le> key (swap xs i j ! k)"
    if k: "k < n" "0 < k" "(k - 1) div 2 = j" for k
  proof -
    have "k \<noteq> j" "k \<noteq> i" using k child(1) by linarith+
    with nth [OF k(1)] nth [of i] ord [OF k(1,2)] child(1,2,3) k(3) show ?thesis by simp
  qed
  ultimately show ?thesis unfolding heap_below_def by blast
qed

lemma heap_down_frame:
  assumes "n \<le> length xs"
  shows "length (heap_down key xs i n) = length xs" "mset (heap_down key xs i n) = mset xs"
    "\<And>k. n \<le> k \<Longrightarrow> k < length xs \<Longrightarrow> heap_down key xs i n ! k = xs ! k"
  using assms
proof (induction key xs i n rule: heap_down.induct)
  case (1 key xs i n)
  let ?j = "smaller_child key xs i n"
  { case 1 with "1.IH" smaller_child_props(1,2) [of i n key xs] show ?case
      by (subst heap_down.simps) (auto simp: Let_def) }
  { case 2 with "1.IH" smaller_child_props(1,2) [of i n key xs] show ?case
      by (subst heap_down.simps) (auto simp: Let_def) }
  { case (3 k) with "1.IH" smaller_child_props(1,2) [of i n key xs] show ?case
      by (subst heap_down.simps) (auto simp: Let_def swap_nth) }
qed

lemma heap_down_heap:
  assumes "n \<le> length xs" and "heap_below key xs i n"
  shows "\<forall>k<n. 0 < k \<longrightarrow> key (heap_down key xs i n ! ((k - 1) div 2)) \<le> key (heap_down key xs i n ! k)"
  using assms
proof (induction key xs i n rule: heap_down.induct)
  case (1 key xs i n)
  let ?j = "smaller_child key xs i n"
  show ?case
  proof (cases "2 * i + 1 \<ge> n \<or> \<not> key (xs ! ?j) < key (xs ! i)")
    case True
    have "key (xs ! ((k - 1) div 2)) \<le> key (xs ! k)" if k: "k < n" "0 < k" for k
    proof (cases "(k - 1) div 2 = i")
      case pk: True
      then have "2 * i + 1 < n" using k by linarith
      with True smaller_child_props(4) [OF this k pk, of key xs] pk show ?thesis by (auto simp: not_less)
    next
      case False
      with 1(3) k show ?thesis by (auto simp: heap_below_def)
    qed
    with True show ?thesis by (subst (1 2) heap_down.simps) (auto simp: Let_def)
  next
    case False
    then have "\<forall>k<n. 0 < k \<longrightarrow> key (heap_down key (swap xs i ?j) ?j n ! ((k - 1) div 2))
        \<le> key (heap_down key (swap xs i ?j) ?j n ! k)"
      using heap_below_step [OF 1(3,2) _ refl] 1(1) [OF _ refl] 1(2) by simp
    with False show ?thesis by (subst (1 2) heap_down.simps) (simp add: Let_def)
  qed
qed

lemma is_heap_min: "is_heap key xs \<Longrightarrow> k < length xs \<Longrightarrow> key (xs ! 0) \<le> key (xs ! k)"
proof (induction k rule: less_induct)
  case (less k)
  show ?case
  proof (cases "k = 0")
    case False
    then have "(k - 1) div 2 < k" by linarith
    with less have "key (xs ! 0) \<le> key (xs ! ((k - 1) div 2))" by simp
    also have "\<dots> \<le> key (xs ! k)" using less.prems by (simp add: is_heap_def)
    finally show ?thesis .
  qed simp
qed

lemma heap_Pop_correct:
  assumes heap: "is_heap key xs" and ne: "xs \<noteq> []" and pop: "heap_Pop key xs = (x, ys)"
  shows "x = xs ! 0" "is_heap key ys" "add_mset x (mset ys) = mset xs"
proof -
  define n where "n = length xs - 1"
  define zs where "zs = heap_down key (swap xs 0 n) 0 n"
  have n: "n < length xs" "Suc n = length xs" using ne by (auto simp: n_def)
  have "0 < length xs" using ne by simp
  note nth = swap_nth [OF this n(1)]
  note frame = heap_down_frame [of n "swap xs 0 n", where key = key and i = 0, folded zs_def]
  have x: "x = zs ! n" "ys = take n zs" using pop by (simp_all add: heap_Pop_def n_def zs_def Let_def)
  show root: "x = xs ! 0" using x(1) frame(3) [of n] n nth [of n] by simp
  have "heap_below key (swap xs 0 n) 0 n"
  proof -
    have "key (swap xs 0 n ! ((k - 1) div 2)) \<le> key (swap xs 0 n ! k)"
      if k: "k < n" "0 < k" "(k - 1) div 2 \<noteq> 0" for k
    proof -
      have "(k - 1) div 2 < n" using k by linarith
      with k n nth heap show ?thesis by (simp add: is_heap_def)
    qed
    then show ?thesis by (simp add: heap_below_def)
  qed
  from heap_down_heap [OF _ this] n have ord: "\<forall>k<n. 0 < k \<longrightarrow> key (zs ! ((k - 1) div 2)) \<le> key (zs ! k)"
    by (simp add: zs_def)
  have "key (zs ! ((k - 1) div 2)) \<le> key (zs ! k)" "(k - 1) div 2 < n" if "k < n" for k
    using ord that by (cases "k = 0"; auto)+
  then show "is_heap key ys" using frame(1) n by (simp add: is_heap_def x(2))
  have "length zs = Suc n" using frame(1) n by simp
  then have "zs = take n zs @ [zs ! n]" by (metis take_Suc_conv_app_nth lessI take_all order_refl)
  then have "add_mset x (mset ys) = mset zs"
    unfolding x by (metis add_mset_add_single mset.simps(1) mset.simps(2) mset_append)
  then show "add_mset x (mset ys) = mset xs" using frame(2) n nth ne by simp
qed

section \<open>The interface of a priority queue\<close>

text \<open>Removing the first \<open>n\<close> elements, in the order in which they come out.\<close>

fun pop_n :: "('q \<Rightarrow> 'a \<times> 'q) \<Rightarrow> nat \<Rightarrow> 'q \<Rightarrow> 'a list \<times> 'q" where
  "pop_n pop 0 q = ([], q)"
| "pop_n pop (Suc n) q = (case pop q of (x, q) \<Rightarrow> case pop_n pop n q of (xs, q) \<Rightarrow> (x # xs, q))"

locale min_queue =
  fixes inv :: "'q \<Rightarrow> bool" and content :: "'q \<Rightarrow> 'a multiset" and key :: "'a \<Rightarrow> 'k::linorder"
    and push :: "'a \<Rightarrow> 'q \<Rightarrow> 'q" and pop :: "'q \<Rightarrow> 'a \<times> 'q"
  assumes push_inv: "inv q \<Longrightarrow> inv (push x q)"
    and push_content: "inv q \<Longrightarrow> content (push x q) = add_mset x (content q)"
    and pop_inv: "inv q \<Longrightarrow> content q \<noteq> {#} \<Longrightarrow> pop q = (x, q') \<Longrightarrow> inv q'"
    and pop_content: "inv q \<Longrightarrow> content q \<noteq> {#} \<Longrightarrow> pop q = (x, q') \<Longrightarrow> content q = add_mset x (content q')"
    and pop_min: "inv q \<Longrightarrow> content q \<noteq> {#} \<Longrightarrow> pop q = (x, q') \<Longrightarrow> y \<in># content q \<Longrightarrow> key x \<le> key y"
begin

lemma pop_n_correct:
  assumes "inv q" and "n \<le> size (content q)" and "pop_n pop n q = (xs, q')"
  shows "inv q' \<and> content q = mset xs + content q' \<and> length xs = n
    \<and> sorted (map key xs) \<and> (\<forall>x\<in>set xs. \<forall>y\<in>#content q'. key x \<le> key y)"
  using assms
proof (induction n arbitrary: q xs)
  case (Suc n)
  obtain x q1 where x: "pop q = (x, q1)" by fastforce
  obtain ys where ys: "pop_n pop n q1 = (ys, q')" "xs = x # ys"
    using Suc.prems(3) x by (auto split: prod.splits)
  have ne: "content q \<noteq> {#}" using Suc.prems(2) by auto
  note one = pop_inv [OF Suc.prems(1) ne x] pop_content [OF Suc.prems(1) ne x] pop_min [OF Suc.prems(1) ne x]
  have "n \<le> size (content q1)" using Suc.prems(2) one(2) by simp
  from Suc.IH [OF one(1) this ys(1)] one(2,3) ys(2) show ?case by auto
qed simp

end

section \<open>The payloads queue\<close>

record payload_and_size =
  ps_payload :: execution_payload
  ps_size :: u64

definition payload_number :: "payload_and_size \<Rightarrow> u64" where
  "payload_number ps = pl_BlockNumber (ps_payload ps)"

interpretation payload_heap: min_queue "is_heap payload_number" mset payload_number
    "heap_Push payload_number" "heap_Pop payload_number"
proof
  fix q :: "payload_and_size list" and x q'
  assume heap: "is_heap payload_number q"
  show "is_heap payload_number (heap_Push payload_number x q)" by (rule is_heap_Push [OF heap])
  show "mset (heap_Push payload_number x q) = add_mset x (mset q)" by (rule mset_heap_Push)
  assume "mset q \<noteq> {#}" and pop: "heap_Pop payload_number q = (x, q')"
  then have ne: "q \<noteq> []" by simp
  note facts = heap_Pop_correct [OF heap ne pop]
  show "is_heap payload_number q'" "mset q = add_mset x (mset q')" using facts by simp_all
  show "payload_number x \<le> payload_number y" if "y \<in># mset q" for y
    using that is_heap_min [OF heap] facts(1) by (auto simp: in_set_conv_nth)
qed

record payloads_queue =
  upq_pq :: "payload_and_size list"
  upq_currentSize :: u64
  upq_MaxSize :: u64
  upq_SizeFn :: "execution_payload \<Rightarrow> u64"

definition payloadMemFixedCost :: u64 where "payloadMemFixedCost = 600"
definition payloadTxMemOverhead :: u64 where "payloadTxMemOverhead = 24"

definition payloadMemSize :: "execution_payload option \<Rightarrow> u64" where
  "payloadMemSize p =
    (case p of None \<Rightarrow> payloadMemFixedCost
     | Some p \<Rightarrow> foldl (\<lambda>out tx. out + (word_of_nat (length tx) + payloadTxMemOverhead)) payloadMemFixedCost
         (pl_Transactions p))"

definition PayloadsQueue_Len :: "payloads_queue \<Rightarrow> nat" where
  "PayloadsQueue_Len upq = length (upq_pq upq)"

definition PayloadsQueue_MemSize :: "payloads_queue \<Rightarrow> u64" where
  "PayloadsQueue_MemSize upq = upq_currentSize upq"

definition PayloadsQueue_Peek :: "payloads_queue \<Rightarrow> execution_payload option" where
  "PayloadsQueue_Peek upq = (if length (upq_pq upq) = 0 then None else Some (ps_payload (upq_pq upq ! 0)))"

definition PayloadsQueue_Pop :: "payloads_queue \<Rightarrow> execution_payload option \<times> payloads_queue" where
  "PayloadsQueue_Pop upq =
    (if length (upq_pq upq) = 0 then (None, upq)
     else let (ps, pq) = heap_Pop payload_number (upq_pq upq)
       in (Some (ps_payload ps), upq\<lparr>upq_pq := pq, upq_currentSize := upq_currentSize upq - ps_size ps\<rparr>))"

text \<open>The loop that evicts payloads; it would not end on an empty queue with a wrong count.\<close>

partial_function (option) evict :: "payloads_queue \<Rightarrow> payloads_queue option" where
  "evict upq =
    (if upq_currentSize upq > upq_MaxSize upq then evict (snd (PayloadsQueue_Pop upq)) else Some upq)"

text \<open>\<^verbatim>\<open>Push\<close>: the error, \<open>None\<close> for nil, and the queue; \<open>None\<close> overall if the loop does not end.\<close>

definition PayloadsQueue_Push ::
    "execution_payload option \<Rightarrow> payloads_queue \<Rightarrow> (cause option \<times> payloads_queue) option" where
  "PayloadsQueue_Push p upq =
    (case p of
       None \<Rightarrow> Some (Some ''cannot add nil payload'', upq)
     | Some p \<Rightarrow>
         let size = upq_SizeFn upq p in
         if size > upq_MaxSize upq
         then Some (Some ''payload mem size is larger than max queue size'', upq)
         else map_option (\<lambda>upq. (None, upq))
           (evict (upq\<lparr>upq_pq := heap_Push payload_number \<lparr>ps_payload = p, ps_size = size\<rparr> (upq_pq upq),
              upq_currentSize := upq_currentSize upq + size\<rparr>)))"

section \<open>The invariant of the queue\<close>

definition total_size :: "payload_and_size list \<Rightarrow> nat" where
  "total_size pq = (\<Sum>ps\<in>#mset pq. unat (ps_size ps))"

definition wf_sizes :: "payloads_queue \<Rightarrow> bool" where
  "wf_sizes upq \<longleftrightarrow> is_heap payload_number (upq_pq upq) \<and> unat (upq_currentSize upq) = total_size (upq_pq upq)"

definition wf_payloads :: "payloads_queue \<Rightarrow> bool" where
  "wf_payloads upq \<longleftrightarrow> wf_sizes upq \<and> upq_currentSize upq \<le> upq_MaxSize upq \<and> unat (upq_MaxSize upq) < 2 ^ 63"

lemma total_size_pop:
  assumes "is_heap payload_number pq" and "pq \<noteq> []" and "heap_Pop payload_number pq = (ps, pq')"
  shows "total_size pq = unat (ps_size ps) + total_size pq'"
  using payload_heap.pop_content [OF assms(1) _ assms(3)] assms(2) by (simp add: total_size_def)

lemma wf_sizes_Pop:
  assumes "wf_sizes upq"
  shows "wf_sizes (snd (PayloadsQueue_Pop upq))"
proof (cases "upq_pq upq = []")
  case False
  obtain ps pq where pop: "heap_Pop payload_number (upq_pq upq) = (ps, pq)" by fastforce
  have heap: "is_heap payload_number (upq_pq upq)" using assms by (simp add: wf_sizes_def)
  have total: "unat (upq_currentSize upq) = unat (ps_size ps) + total_size pq"
    using total_size_pop [OF heap False pop] assms by (simp add: wf_sizes_def)
  then have "ps_size ps \<le> upq_currentSize upq" by (simp add: word_le_nat_alt)
  then have "unat (upq_currentSize upq - ps_size ps) = total_size pq" using total by (simp add: unat_sub)
  with False pop payload_heap.pop_inv [OF heap _ pop] show ?thesis
    by (simp add: wf_sizes_def PayloadsQueue_Pop_def)
qed (use assms in \<open>simp add: PayloadsQueue_Pop_def\<close>)

lemma length_heap_Pop:
  "is_heap payload_number pq \<Longrightarrow> pq \<noteq> [] \<Longrightarrow> heap_Pop payload_number pq = (ps, pq') \<Longrightarrow> length pq = Suc (length pq')"
  using heap_Pop_correct(3) [of payload_number pq ps pq'] by (metis size_add_mset size_mset)

lemma evict_correct:
  assumes "wf_sizes upq"
  shows "\<exists>n xs upq'. evict upq = Some upq' \<and> wf_sizes upq'
    \<and> upq_currentSize upq' \<le> upq_MaxSize upq'
    \<and> upq_MaxSize upq' = upq_MaxSize upq \<and> upq_SizeFn upq' = upq_SizeFn upq
    \<and> n \<le> length (upq_pq upq) \<and> pop_n (heap_Pop payload_number) n (upq_pq upq) = (xs, upq_pq upq')
    \<and> (upq_currentSize upq \<le> upq_MaxSize upq \<longrightarrow> n = 0)"
  using assms
proof (induction "length (upq_pq upq)" arbitrary: upq rule: less_induct)
  case less
  show ?case
  proof (cases "upq_currentSize upq \<le> upq_MaxSize upq")
    case True
    then have "evict upq = Some upq" by (subst evict.simps) (simp add: leD)
    with True less.prems show ?thesis
      by (intro exI [of _ 0] exI [of _ "[]"] exI [of _ upq]) simp
  next
    case False
    have heap: "is_heap payload_number (upq_pq upq)" using less.prems by (simp add: wf_sizes_def)
    have ne: "upq_pq upq \<noteq> []"
    proof
      assume "upq_pq upq = []"
      with less.prems have "upq_currentSize upq = 0" by (simp add: wf_sizes_def total_size_def unat_eq_0)
      with False show False by simp
    qed
    obtain ps pq where pop: "heap_Pop payload_number (upq_pq upq) = (ps, pq)" by fastforce
    let ?upq = "upq\<lparr>upq_pq := pq, upq_currentSize := upq_currentSize upq - ps_size ps\<rparr>"
    have next': "snd (PayloadsQueue_Pop upq) = ?upq" using ne pop by (simp add: PayloadsQueue_Pop_def)
    have len: "length (upq_pq upq) = Suc (length pq)" by (rule length_heap_Pop [OF heap ne pop])
    have "wf_sizes ?upq" using wf_sizes_Pop [OF less.prems] next' by simp
    moreover have "length (upq_pq ?upq) < length (upq_pq upq)" using len by simp
    ultimately obtain n xs upq' where IH: "evict ?upq = Some upq'" "wf_sizes upq'"
      "upq_currentSize upq' \<le> upq_MaxSize upq'" "upq_MaxSize upq' = upq_MaxSize ?upq"
      "upq_SizeFn upq' = upq_SizeFn ?upq" "n \<le> length (upq_pq ?upq)"
      "pop_n (heap_Pop payload_number) n (upq_pq ?upq) = (xs, upq_pq upq')"
      using less.hyps [of ?upq] by blast
    have "evict upq = Some upq'" using False next' IH(1) by (subst evict.simps) (simp add: not_le)
    moreover have "pop_n (heap_Pop payload_number) (Suc n) (upq_pq upq) = (ps # xs, upq_pq upq')"
      using pop IH(7) by simp
    ultimately show ?thesis using IH len False
      by (intro exI [of _ "Suc n"] exI [of _ "ps # xs"] exI [of _ upq']) simp
  qed
qed

lemma total_size_push: "total_size (heap_Push payload_number ps pq) = unat (ps_size ps) + total_size pq"
  by (simp add: total_size_def mset_heap_Push)

text \<open>The queue right after the payload was added, before anything is evicted.\<close>

abbreviation pushed :: "execution_payload \<Rightarrow> payloads_queue \<Rightarrow> payloads_queue" where
  "pushed p upq \<equiv> upq\<lparr>upq_pq := heap_Push payload_number \<lparr>ps_payload = p, ps_size = upq_SizeFn upq p\<rparr> (upq_pq upq),
     upq_currentSize := upq_currentSize upq + upq_SizeFn upq p\<rparr>"

lemma wf_sizes_pushed:
  assumes wf: "wf_payloads upq" and fits: "upq_SizeFn upq p \<le> upq_MaxSize upq"
  shows "wf_sizes (pushed p upq)"
    and "unat (upq_currentSize (pushed p upq)) = total_size (upq_pq upq) + unat (upq_SizeFn upq p)"
proof -
  have heap: "is_heap payload_number (upq_pq upq)" using wf by (simp add: wf_payloads_def wf_sizes_def)
  have "unat (upq_currentSize upq) + unat (upq_SizeFn upq p) < 2 ^ 64"
    using wf fits by (simp add: wf_payloads_def word_le_nat_alt)
  then show size: "unat (upq_currentSize (pushed p upq)) = total_size (upq_pq upq) + unat (upq_SizeFn upq p)"
    using wf by (simp add: wf_payloads_def wf_sizes_def unat_word_ariths)
  then show "wf_sizes (pushed p upq)"
    using is_heap_Push [OF heap] by (simp add: wf_sizes_def total_size_push)
qed

lemma Push_fits:
  "upq_SizeFn upq p \<le> upq_MaxSize upq \<Longrightarrow>
    PayloadsQueue_Push (Some p) upq = map_option (\<lambda>upq. (None, upq)) (evict (pushed p upq))"
  by (simp add: PayloadsQueue_Push_def Let_def leD)

lemma wf_payloads_Pop:
  assumes "wf_payloads upq"
  shows "wf_payloads (snd (PayloadsQueue_Pop upq))"
proof (cases "upq_pq upq = []")
  case False
  let ?upq = "snd (PayloadsQueue_Pop upq)"
  obtain ps pq where pop: "heap_Pop payload_number (upq_pq upq) = (ps, pq)" by fastforce
  have sizes: "wf_sizes ?upq" using wf_sizes_Pop [of upq] assms by (simp add: wf_payloads_def)
  have "is_heap payload_number (upq_pq upq)" using assms by (simp add: wf_payloads_def wf_sizes_def)
  from total_size_pop [OF this False pop] False pop sizes assms
  have "unat (upq_currentSize ?upq) \<le> unat (upq_currentSize upq)" "upq_MaxSize ?upq = upq_MaxSize upq"
    by (simp_all add: wf_payloads_def wf_sizes_def PayloadsQueue_Pop_def)
  with sizes assms show ?thesis by (simp add: wf_payloads_def word_le_nat_alt)
qed (use assms in \<open>simp add: PayloadsQueue_Pop_def\<close>)

text \<open>Payloads that fit on their own are never all evicted.\<close>

lemma evict_nonempty:
  assumes "wf_sizes upq" and "upq_pq upq \<noteq> []" and "\<And>ps. ps \<in> set (upq_pq upq) \<Longrightarrow> ps_size ps \<le> upq_MaxSize upq"
    and "evict upq = Some upq'"
  shows "upq_pq upq' \<noteq> []"
  using assms
proof (induction "length (upq_pq upq)" arbitrary: upq rule: less_induct)
  case less
  show ?case
  proof (cases "upq_currentSize upq > upq_MaxSize upq")
    case False
    with less.prems show ?thesis by (subst (asm) evict.simps) simp
  next
    case True
    let ?upq = "snd (PayloadsQueue_Pop upq)"
    obtain ps pq where pop: "heap_Pop payload_number (upq_pq upq) = (ps, pq)" by fastforce
    have heap: "is_heap payload_number (upq_pq upq)" using less.prems(1) by (simp add: wf_sizes_def)
    have ev: "evict ?upq = Some upq'" using True less.prems(4) by (subst (asm) evict.simps) simp
    have content: "mset (upq_pq upq) = add_mset ps (mset pq)"
      using payload_heap.pop_content [OF heap _ pop] less.prems(2) by simp
    have upq: "upq_pq ?upq = pq" "upq_MaxSize ?upq = upq_MaxSize upq"
      using pop less.prems(2) by (simp_all add: PayloadsQueue_Pop_def)
    have "pq \<noteq> []"
    proof
      assume "pq = []"
      then have "total_size (upq_pq upq) = unat (ps_size ps)" using content by (simp add: total_size_def)
      moreover have "ps_size ps \<le> upq_MaxSize upq" using less.prems(3) content by (metis set_mset_mset union_single_eq_member)
      ultimately show False using True less.prems(1) by (simp add: wf_sizes_def word_le_nat_alt word_less_nat_alt)
    qed
    moreover have "set pq \<subseteq> set (upq_pq upq)" using content by (metis set_mset_add_mset_insert set_mset_mset subset_insertI)
    moreover have "length pq < length (upq_pq upq)" using content by (metis size_add_mset size_mset lessI)
    ultimately show ?thesis using less.hyps [of ?upq] ev wf_sizes_Pop [OF less.prems(1)] less.prems(3) upq by auto
  qed
qed

lemma ps_size_le_total: "ps \<in> set pq \<Longrightarrow> unat (ps_size ps) \<le> total_size pq"
  by (induction pq) (auto simp: total_size_def)

text \<open>\<^verbatim>\<open>Push\<close> always returns a queue in order, which is not empty if the payload was added.\<close>

lemma PayloadsQueue_Push_wf:
  assumes wf: "wf_payloads upq"
  obtains err upq' where "PayloadsQueue_Push (Some p) upq = Some (err, upq')" "wf_payloads upq'"
    "err = None \<Longrightarrow> upq_pq upq' \<noteq> []"
proof (cases "upq_SizeFn upq p \<le> upq_MaxSize upq")
  case False
  then have "PayloadsQueue_Push (Some p) upq = Some (Some ''payload mem size is larger than max queue size'', upq)"
    by (simp add: PayloadsQueue_Push_def Let_def)
  then show ?thesis using that wf by blast
next
  case fits: True
  from evict_correct [OF wf_sizes_pushed(1) [OF wf fits]] obtain upq' where ev: "evict (pushed p upq) = Some upq'"
    "wf_sizes upq'" "upq_currentSize upq' \<le> upq_MaxSize upq'" "upq_MaxSize upq' = upq_MaxSize upq"
    by auto
  have old: "ps_size ps \<le> upq_MaxSize upq" if "ps \<in> set (upq_pq upq)" for ps
    using ps_size_le_total [OF that] wf by (simp add: wf_payloads_def wf_sizes_def word_le_nat_alt)
  have set: "set (upq_pq (pushed p upq)) = insert \<lparr>ps_payload = p, ps_size = upq_SizeFn upq p\<rparr> (set (upq_pq upq))"
    using arg_cong [OF mset_heap_Push [of payload_number "\<lparr>ps_payload = p, ps_size = upq_SizeFn upq p\<rparr>" "upq_pq upq"],
        of set_mset] by simp
  have "upq_pq (pushed p upq) \<noteq> []" using set by (metis empty_set insert_not_empty)
  moreover have "ps_size ps \<le> upq_MaxSize (pushed p upq)" if "ps \<in> set (upq_pq (pushed p upq))" for ps
    using that old fits unfolding set by auto
  ultimately have "upq_pq upq' \<noteq> []"
    using evict_nonempty [OF wf_sizes_pushed(1) [OF wf fits] _ _ ev(1)] by blast
  moreover have "wf_payloads upq'" using ev wf by (simp add: wf_payloads_def)
  ultimately show ?thesis using that Push_fits [OF fits] ev(1) by simp
qed

text \<open>
  C39. The queue of unsafe payloads is a bounded priority queue: adding a payload that fits succeeds,
  including the loop that evicts others, and afterwards the heap order, the memory count and the
  memory bound hold again. What is evicted has block numbers no higher than what is kept, and nothing
  is evicted or lost if everything fits.
\<close>

theorem PayloadsQueue_Push_bounded:
  assumes wf: "wf_payloads upq" and fits: "upq_SizeFn upq p \<le> upq_MaxSize upq"
  shows "\<exists>upq' evicted. PayloadsQueue_Push (Some p) upq = Some (None, upq') \<and> wf_payloads upq'
    \<and> add_mset \<lparr>ps_payload = p, ps_size = upq_SizeFn upq p\<rparr> (mset (upq_pq upq)) = mset evicted + mset (upq_pq upq')
    \<and> (\<forall>e\<in>set evicted. \<forall>k\<in>set (upq_pq upq'). payload_number e \<le> payload_number k)
    \<and> (total_size (upq_pq upq) + unat (upq_SizeFn upq p) \<le> unat (upq_MaxSize upq) \<longrightarrow> evicted = [])"
proof -
  note sizes = wf_sizes_pushed [OF wf fits]
  from evict_correct [OF sizes(1)] obtain n evicted upq' where ev: "evict (pushed p upq) = Some upq'" "wf_sizes upq'"
    "upq_currentSize upq' \<le> upq_MaxSize upq'" "upq_MaxSize upq' = upq_MaxSize (pushed p upq)"
    "n \<le> length (upq_pq (pushed p upq))" "pop_n (heap_Pop payload_number) n (upq_pq (pushed p upq)) = (evicted, upq_pq upq')"
    "upq_currentSize (pushed p upq) \<le> upq_MaxSize (pushed p upq) \<longrightarrow> n = 0"
    by blast
  have "is_heap payload_number (upq_pq (pushed p upq))" using sizes(1) by (simp add: wf_sizes_def)
  from payload_heap.pop_n_correct [OF this _ ev(6)] ev(5)
  have content: "mset (upq_pq (pushed p upq)) = mset evicted + mset (upq_pq upq')" "length evicted = n"
    "\<forall>e\<in>set evicted. \<forall>k\<in>set (upq_pq upq'). payload_number e \<le> payload_number k"
    by auto
  have "evicted = []" if "total_size (upq_pq upq) + unat (upq_SizeFn upq p) \<le> unat (upq_MaxSize upq)"
    using that sizes(2) ev(7) content(2) unfolding word_le_nat_alt by simp
  moreover have "wf_payloads upq'" using ev(2-4) wf by (simp add: wf_payloads_def)
  ultimately show ?thesis
    using content(1,3) ev(1) Push_fits [OF fits] by (intro exI [of _ upq'] exI [of _ evicted]) (simp add: mset_heap_Push)
qed

definition sample_payloads :: payloads_queue where
  "sample_payloads = \<lparr>upq_pq = [], upq_currentSize = 0, upq_MaxSize = 1000, upq_SizeFn = (\<lambda>p. payloadMemSize (Some p))\<rparr>"

definition empty_payload :: execution_payload where
  "empty_payload = \<lparr>pl_ParentHash = 1, pl_FeeRecipient = 0, pl_StateRoot = 0, pl_ReceiptsRoot = 0,
     pl_LogsBloom = 0, pl_PrevRandao = 0, pl_BlockNumber = 9, pl_GasLimit = 0, pl_GasUsed = 0,
     pl_Timestamp = 102, pl_ExtraData = [], pl_BaseFeePerGas = 0, pl_BlockHash = 2, pl_Transactions = []\<rparr>"

lemma sample_payloads_wf: "wf_payloads sample_payloads"
  by (simp add: wf_payloads_def wf_sizes_def sample_payloads_def is_heap_def total_size_def)

theorem PayloadsQueue_Push_bounded_witness:
  "\<exists>upq' evicted. PayloadsQueue_Push (Some empty_payload) sample_payloads = Some (None, upq') \<and> wf_payloads upq'
    \<and> add_mset \<lparr>ps_payload = empty_payload, ps_size = upq_SizeFn sample_payloads empty_payload\<rparr>
        (mset (upq_pq sample_payloads)) = mset evicted + mset (upq_pq upq')
    \<and> (\<forall>e\<in>set evicted. \<forall>k\<in>set (upq_pq upq'). payload_number e \<le> payload_number k)
    \<and> (total_size (upq_pq sample_payloads) + unat (upq_SizeFn sample_payloads empty_payload)
        \<le> unat (upq_MaxSize sample_payloads) \<longrightarrow> evicted = [])"
  by (rule PayloadsQueue_Push_bounded [OF sample_payloads_wf])
    (simp add: sample_payloads_def payloadMemSize_def empty_payload_def payloadMemFixedCost_def)

text \<open>
  Payloads come out in the order of their block numbers: \<^verbatim>\<open>Pop\<close> removes exactly the payload that
  \<^verbatim>\<open>Peek\<close> shows, its block number is the lowest in the queue, and the memory count stays exact.
\<close>

lemma PayloadsQueue_Pop_lowest:
  assumes "wf_payloads upq" and "upq_pq upq \<noteq> []"
  shows "\<exists>ps upq'. PayloadsQueue_Pop upq = (Some (ps_payload ps), upq')
    \<and> PayloadsQueue_Peek upq = Some (ps_payload ps)
    \<and> mset (upq_pq upq) = add_mset ps (mset (upq_pq upq'))
    \<and> (\<forall>q\<in>set (upq_pq upq). payload_number ps \<le> payload_number q) \<and> wf_payloads upq'"
proof -
  have heap: "is_heap payload_number (upq_pq upq)" using assms(1) by (simp add: wf_payloads_def wf_sizes_def)
  obtain ps pq where pop: "heap_Pop payload_number (upq_pq upq) = (ps, pq)" by fastforce
  let ?upq = "upq\<lparr>upq_pq := pq, upq_currentSize := upq_currentSize upq - ps_size ps\<rparr>"
  have step: "PayloadsQueue_Pop upq = (Some (ps_payload ps), ?upq)"
    using assms(2) pop by (simp add: PayloadsQueue_Pop_def)
  then have "wf_payloads ?upq" using wf_payloads_Pop [OF assms(1)] by simp
  moreover have "PayloadsQueue_Peek upq = Some (ps_payload ps)"
    using heap_Pop_correct(1) [OF heap assms(2) pop] assms(2) by (simp add: PayloadsQueue_Peek_def)
  moreover have "\<forall>q\<in>set (upq_pq upq). payload_number ps \<le> payload_number q"
    using payload_heap.pop_min [OF heap _ pop] assms(2) by (metis mset_zero_iff set_mset_mset)
  ultimately show ?thesis
    using step payload_heap.pop_content [OF heap _ pop] assms(2)
    by (intro exI [of _ ps] exI [of _ ?upq]) simp
qed

end
