(* ===== verification/Engine_Queue.thy ===== *)
theory Engine_Queue
  imports Attributes Engine_API Payloads_Queue
begin

text \<open>
  The engine queue, the last stage of the derivation: \<^verbatim>\<open>engine_queue.go\<close> and the progress of a stage in
  \<^verbatim>\<open>progress.go\<close> of \<^verbatim>\<open>op-node/rollup/derive\<close>. It drives the execution engine with the attributes
  derived from L1 and with the payloads received from the sequencer, and keeps track of the finalized,
  safe and unsafe heads.
\<close>

section \<open>Progress\<close>

record progress =
  pr_Origin :: l1_block_ref
  pr_Closed :: bool

definition Progress_Update :: "progress \<Rightarrow> progress \<Rightarrow> bool \<times> derr option \<times> progress" where
  "Progress_Update outer pr =
    (if l1_Number (pr_Origin outer) < l1_Number (pr_Origin pr) then (False, None, pr)
     else if pr_Closed pr then
       (if pr_Closed outer then
          (if L1BlockRef_ID (pr_Origin pr) \<noteq> L1BlockRef_ID (pr_Origin outer)
           then (True, Some (NewResetError ''outer stage changed origin without opening it''), pr)
           else (False, None, pr))
        else
          (if l1_Hash (pr_Origin pr) \<noteq> l1_ParentHash (pr_Origin outer)
           then (True, Some (NewResetError ''detected internal pipeline reorg of L1 origin data''), pr)
           else (True, None, pr\<lparr>pr_Origin := pr_Origin outer, pr_Closed := False\<rparr>)))
     else
       (if L1BlockRef_ID (pr_Origin pr) \<noteq> L1BlockRef_ID (pr_Origin outer)
        then (True, Some (NewResetError ''outer stage changed origin before closing it''), pr)
        else if pr_Closed outer then (True, None, pr\<lparr>pr_Closed := True\<rparr>) else (False, None, pr)))"

section \<open>State\<close>

definition maxUnsafePayloadsMemory :: u64 where "maxUnsafePayloadsMemory = 500 * 1024 * 1024"

definition finalityLookback :: nat where "finalityLookback = 4 * 32 + 1"

record finality_data =
  fd_L2Block :: l2_block_ref
  fd_L1Block :: block_id

record 'p engine_queue =
  eq_finalized :: l2_block_ref
  eq_safeHead :: l2_block_ref
  eq_unsafeHead :: l2_block_ref
  eq_finalizedL1 :: block_id
  eq_safeAttributes :: "payload_attributes list"
  eq_unsafePayloads :: payloads_queue
  eq_finalityData :: "finality_data list"
  eq_prev :: 'p
  eq_progress :: progress

definition NewEngineQueue :: "'p \<Rightarrow> 'p engine_queue" where
  "NewEngineQueue prev = \<lparr>eq_finalized = zero_l2, eq_safeHead = zero_l2, eq_unsafeHead = zero_l2,
     eq_finalizedL1 = zero_id, eq_safeAttributes = [],
     eq_unsafePayloads = \<lparr>upq_pq = [], upq_currentSize = 0, upq_MaxSize = maxUnsafePayloadsMemory,
       upq_SizeFn = (\<lambda>p. payloadMemSize (Some p))\<rparr>,
     eq_finalityData = [], eq_prev = prev, eq_progress = \<lparr>pr_Origin = zero_l1, pr_Closed = False\<rparr>\<rparr>"

definition SetUnsafeHead :: "l2_block_ref \<Rightarrow> 'p engine_queue \<Rightarrow> 'p engine_queue" where
  "SetUnsafeHead head eq = eq\<lparr>eq_unsafeHead := head\<rparr>"

text \<open>
  Adding a payload: \<open>Panic\<close> stands for the dereference of the nil that \<^verbatim>\<open>Peek\<close> returns for an empty queue;
  \<open>None\<close> overall if \<^verbatim>\<open>Push\<close> does not return.
\<close>

definition AddUnsafePayload :: "execution_payload option \<Rightarrow> 'p engine_queue \<Rightarrow> (derr option \<times> 'p engine_queue) option" where
  "AddUnsafePayload payload eq =
    (case payload of
       None \<Rightarrow> Some (None, eq)
     | Some p \<Rightarrow>
         (case PayloadsQueue_Push (Some p) (eq_unsafePayloads eq) of
            None \<Rightarrow> None
          | Some (Some err, upq) \<Rightarrow> Some (None, eq\<lparr>eq_unsafePayloads := upq\<rparr>)
          | Some (None, upq) \<Rightarrow>
              (case PayloadsQueue_Peek upq of
                 None \<Rightarrow> Some (Some (Panic ''nil pointer dereference''), eq\<lparr>eq_unsafePayloads := upq\<rparr>)
               | Some p \<Rightarrow> Some (None, eq\<lparr>eq_unsafePayloads := upq\<rparr>))))"

definition AddSafeAttributes :: "payload_attributes \<Rightarrow> 'p engine_queue \<Rightarrow> 'p engine_queue" where
  "AddSafeAttributes attributes eq = eq\<lparr>eq_safeAttributes := eq_safeAttributes eq @ [attributes]\<rparr>"

definition LastL2Time :: "'p engine_queue \<Rightarrow> u64" where
  "LastL2Time eq =
    (if eq_safeAttributes eq = [] then l2_Time (eq_safeHead eq) else at_Timestamp (last (eq_safeAttributes eq)))"

section \<open>Finality\<close>

text \<open>The loop over the finality data, with the best finalized block so far.\<close>

fun finalized_loop :: "u64 \<Rightarrow> l2_block_ref \<Rightarrow> finality_data list \<Rightarrow> l2_block_ref" where
  "finalized_loop l1Num finalizedL2 [] = finalizedL2"
| "finalized_loop l1Num finalizedL2 (fd # fds) =
    finalized_loop l1Num
      (if l2_Number (fd_L2Block fd) > l2_Number finalizedL2 \<and> id_Number (fd_L1Block fd) \<le> l1Num
       then fd_L2Block fd else finalizedL2) fds"

definition tryFinalizeL2 :: "'p engine_queue \<Rightarrow> 'p engine_queue" where
  "tryFinalizeL2 eq =
    (if eq_finalizedL1 eq = zero_id then eq
     else eq\<lparr>eq_finalized :=
       finalized_loop (id_Number (eq_finalizedL1 eq)) (eq_finalized eq) (eq_finalityData eq)\<rparr>)"

definition Finalize :: "block_id \<Rightarrow> 'p engine_queue \<Rightarrow> 'p engine_queue" where
  "Finalize l1Origin eq = tryFinalizeL2 (eq\<lparr>eq_finalizedL1 := l1Origin\<rparr>)"

definition postProcessSafeL2 :: "('p \<Rightarrow> l1_block_ref) \<Rightarrow> 'p engine_queue \<Rightarrow> 'p engine_queue" where
  "postProcessSafeL2 prev_Origin eq =
    (let fds = (if length (eq_finalityData eq) \<ge> finalityLookback
                then take (finalityLookback - 1) (drop 1 (eq_finalityData eq)) else eq_finalityData eq)
     in if fds = [] \<or> id_Number (fd_L1Block (last fds)) < l1_Number (prev_Origin (eq_prev eq))
        then eq\<lparr>eq_finalityData := fds @ [\<lparr>fd_L2Block = eq_safeHead eq,
               fd_L1Block = L1BlockRef_ID (prev_Origin (eq_prev eq))\<rparr>]\<rparr>
        else eq\<lparr>eq_finalityData := butlast fds @ [(last fds)\<lparr>fd_L2Block := eq_safeHead eq\<rparr>]\<rparr>)"

section \<open>Unsafe payloads\<close>

definition pop_unsafe :: "'p engine_queue \<Rightarrow> 'p engine_queue" where
  "pop_unsafe eq = eq\<lparr>eq_unsafePayloads := snd (PayloadsQueue_Pop (eq_unsafePayloads eq))\<rparr>"

text \<open>The part of \<^verbatim>\<open>tryNextUnsafePayload\<close> from the call of \<^verbatim>\<open>NewPayload\<close> on.\<close>

definition execute_unsafe :: "engine \<Rightarrow> execution_payload \<Rightarrow> l2_block_ref \<Rightarrow> 'p engine_queue \<Rightarrow> derr option \<times> 'p engine_queue" where
  "execute_unsafe eng first ref eq =
    (case NewPayload eng first of
       Inl e \<Rightarrow> (Some (NewTemporaryError ''failed to update insert payload''), eq)
     | Inr status \<Rightarrow>
         if status \<noteq> ExecutionValid
         then (Some (NewTemporaryError ''cannot process unsafe payload''), pop_unsafe eq)
         else (case ForkchoiceUpdate eng \<lparr>fc_Head = pl_BlockHash first, fc_Safe = l2_Hash (eq_safeHead eq),
                   fc_Finalized = l2_Hash (eq_finalized eq)\<rparr> None of
             Inl (InputError InvalidForkchoiceState) \<Rightarrow>
               (Some (NewResetError ''pre-unsafe-block forkchoice update was inconsistent with engine''), eq)
           | Inl (InputError _) \<Rightarrow>
               (Some (NewTemporaryError ''unexpected error code in forkchoice-updated response''), eq)
           | Inl _ \<Rightarrow>
               (Some (NewTemporaryError ''failed to update forkchoice to prepare for new unsafe payload''), eq)
           | Inr fcRes \<Rightarrow>
               if fcr_Status fcRes \<noteq> ExecutionValid
               then (Some (NewTemporaryError ''cannot prepare unsafe chain for new payload''), pop_unsafe eq)
               else (None, pop_unsafe (eq\<lparr>eq_unsafeHead := ref\<rparr>))))"

definition tryNextUnsafePayload :: "geth \<Rightarrow> config \<Rightarrow> engine \<Rightarrow> 'p engine_queue \<Rightarrow> derr option \<times> 'p engine_queue" where
  "tryNextUnsafePayload G cfg eng eq =
    (case PayloadsQueue_Peek (eq_unsafePayloads eq) of
       None \<Rightarrow> (Some (Panic ''nil pointer dereference''), eq)
     | Some first \<Rightarrow>
         if pl_BlockNumber first \<le> l2_Number (eq_safeHead eq) then (None, pop_unsafe eq)
         else if pl_ParentHash first \<noteq> l2_Hash (eq_unsafeHead eq)
         then (Some EOF,
               if pl_BlockNumber first = l2_Number (eq_unsafeHead eq) + 1 then pop_unsafe eq else eq)
         else (case PayloadToBlockRef (g_tx G) first (Genesis cfg) of
             Inl c \<Rightarrow> (None, pop_unsafe eq)
           | Inr ref \<Rightarrow> execute_unsafe eng first ref eq))"

section \<open>Safe attributes\<close>

text \<open>\<^verbatim>\<open>forceNextSafeAttributes\<close>: building the block from the attributes, or dropping the sequencer transactions.\<close>

definition forceNextSafeAttributes ::
    "geth \<Rightarrow> config \<Rightarrow> engine \<Rightarrow> ('p \<Rightarrow> l1_block_ref) \<Rightarrow> 'p engine_queue \<Rightarrow> derr option \<times> 'p engine_queue" where
  "forceNextSafeAttributes G cfg eng prev_Origin eq =
    (case eq_safeAttributes eq of
       [] \<Rightarrow> (None, eq)
     | attrs # rest \<Rightarrow>
         (case InsertHeadBlock eng \<lparr>fc_Head = l2_Hash (eq_safeHead eq), fc_Safe = l2_Hash (eq_safeHead eq),
              fc_Finalized = l2_Hash (eq_finalized eq)\<rparr> attrs True of
            (_, errType, Some err) \<Rightarrow>
              if is_panic err then (Some err, eq)
              else (case errType of
                  BlockInsertTemporaryErr \<Rightarrow> (Some (NewTemporaryError ''temporarily cannot insert new safe block''), eq)
                | BlockInsertPrestateErr \<Rightarrow> (Some (NewResetError ''need reset to resolve pre-state problem''), eq)
                | BlockInsertPayloadErr \<Rightarrow>
                    (let deposits = filter is_deposit (at_Transactions attrs) in
                     if length (at_Transactions attrs) > length deposits
                     then (None, eq\<lparr>eq_safeAttributes := attrs\<lparr>at_Transactions := deposits\<rparr> # rest\<rparr>)
                     else (Some (NewCriticalError ''failed to process block with only deposit transactions''), eq))
                | BlockInsertOK \<Rightarrow> (Some (NewCriticalError ''unknown InsertHeadBlock error type''), eq))
          | (None, _, None) \<Rightarrow> (Some (Panic ''nil pointer dereference''), eq)
          | (Some payload, _, None) \<Rightarrow>
              (case PayloadToBlockRef (g_tx G) payload (Genesis cfg) of
                 Inl c \<Rightarrow> (Some (NewTemporaryError ''failed to decode L2 block ref from payload''), eq)
               | Inr ref \<Rightarrow>
                   (None, postProcessSafeL2 prev_Origin
                      (eq\<lparr>eq_safeHead := ref, eq_unsafeHead := ref, eq_safeAttributes := rest\<rparr>)))))"

definition consolidateNextSafeAttributes ::
    "geth \<Rightarrow> config \<Rightarrow> engine \<Rightarrow> ('p \<Rightarrow> l1_block_ref) \<Rightarrow> 'p engine_queue \<Rightarrow> derr option \<times> 'p engine_queue" where
  "consolidateNextSafeAttributes G cfg eng prev_Origin eq =
    (case PayloadByNumber eng (l2_Number (eq_safeHead eq) + 1) of
       Inl NotFound \<Rightarrow> (Some (NewResetError ''expected engine was synced and had unsafe block to reconcile''), eq)
     | Inl _ \<Rightarrow> (Some (NewTemporaryError ''failed to get existing unsafe payload''), eq)
     | Inr payload \<Rightarrow>
         (case eq_safeAttributes eq of
            [] \<Rightarrow> (Some (Panic ''index out of range''), eq)
          | attrs # rest \<Rightarrow>
              if AttributesMatchBlock attrs (l2_Hash (eq_safeHead eq)) payload \<noteq> None
              then forceNextSafeAttributes G cfg eng prev_Origin eq
              else (case PayloadToBlockRef (g_tx G) payload (Genesis cfg) of
                  Inl c \<Rightarrow> (Some (NewResetError ''failed to decode L2 block ref from payload''), eq)
                | Inr ref \<Rightarrow>
                    (None, postProcessSafeL2 prev_Origin
                       (eq\<lparr>eq_safeHead := ref, eq_safeAttributes := rest\<rparr>)))))"

definition tryNextSafeAttributes ::
    "geth \<Rightarrow> config \<Rightarrow> engine \<Rightarrow> ('p \<Rightarrow> l1_block_ref) \<Rightarrow> 'p engine_queue \<Rightarrow> derr option \<times> 'p engine_queue" where
  "tryNextSafeAttributes G cfg eng prev_Origin eq =
    (if l2_Number (eq_safeHead eq) < l2_Number (eq_unsafeHead eq)
     then consolidateNextSafeAttributes G cfg eng prev_Origin eq
     else if l2_Number (eq_safeHead eq) = l2_Number (eq_unsafeHead eq)
     then forceNextSafeAttributes G cfg eng prev_Origin eq
     else (None, eq\<lparr>eq_unsafeHead := eq_safeHead eq\<rparr>))"

section \<open>Steps\<close>

text \<open>A step: the error, \<open>None\<close> for nil, and the new state.\<close>

definition EngineQueue_Step ::
    "geth \<Rightarrow> config \<Rightarrow> engine \<Rightarrow> ('p \<Rightarrow> l1_block_ref) \<Rightarrow> (l2_block_ref \<Rightarrow> 'p \<Rightarrow> (payload_attributes, 'p) outcome)
      \<Rightarrow> 'p engine_queue \<Rightarrow> derr option \<times> 'p engine_queue" where
  "EngineQueue_Step G cfg eng prev_Origin prev_NextAttributes eq =
    (if eq_safeAttributes eq \<noteq> [] then tryNextSafeAttributes G cfg eng prev_Origin eq
     else case prev_NextAttributes (eq_safeHead eq) (eq_prev eq) of
         (Inl EOF, p) \<Rightarrow>
           (let eq = eq\<lparr>eq_prev := p\<rparr> in
            if PayloadsQueue_Len (eq_unsafePayloads eq) > 0 then tryNextUnsafePayload G cfg eng eq else (Some EOF, eq))
       | (Inl e, p) \<Rightarrow> (Some e, eq\<lparr>eq_prev := p\<rparr>)
       | (Inr attrs, p) \<Rightarrow> (Some NotEnoughData, eq\<lparr>eq_prev := p, eq_safeAttributes := [attrs]\<rparr>))"

text \<open>\<open>None\<close> overall if the search for the heads does not end.\<close>

definition EngineQueue_ResetStep ::
    "config \<Rightarrow> engine \<Rightarrow> l1_fetcher \<Rightarrow> 'p engine_queue \<Rightarrow> (derr option \<times> 'p engine_queue) option" where
  "EngineQueue_ResetStep cfg eng l1 eq =
    (case FindL2Heads cfg l1 (L2Source eng) of
       None \<Rightarrow> None
     | Some (Inl c) \<Rightarrow> Some (Some (NewTemporaryError ''failed to find the L2 Heads to start from''), eq)
     | Some (Inr result) \<Rightarrow> Some
         (let safe = fh_Safe result in
          case L1BlockRefByHash l1 (id_Hash (l2_L1Origin safe)) of
            Inl e \<Rightarrow> (Some (NewTemporaryError ''failed to fetch the new L1 progress''), eq)
          | Inr l1Origin \<Rightarrow>
              if l2_Time safe < l1_Time l1Origin
              then (Some (NewResetError ''time invariant is broken''), eq)
              else
                (let pipelineNumber = (if l1_Number l1Origin < ChannelTimeout cfg then 0
                                       else l1_Number l1Origin - ChannelTimeout cfg)
                 in case L1BlockRefByNumber l1 pipelineNumber of
                      Inl e \<Rightarrow> (Some (NewTemporaryError ''failed to fetch the new L1 progress''), eq)
                    | Inr pipelineOrigin \<Rightarrow>
                        (Some EOF, eq\<lparr>eq_unsafeHead := fh_Unsafe result, eq_safeHead := safe,
                           eq_finalized := fh_Finalized result, eq_finalityData := [],
                           eq_progress := \<lparr>pr_Origin = pipelineOrigin, pr_Closed = False\<rparr>\<rparr>))))"

end
