(* ===== verification/Engine_Heads.thy ===== *)
theory Engine_Heads
  imports Engine_Queue
begin

text \<open>
  What the engine queue guarantees about the finalized, safe and unsafe heads: the invariant of its
  state, finality, the fate of derived attributes, and that it refines the abstract machine of an L2
  chain that is extended one block at a time.
\<close>

section \<open>The engine\<close>

text \<open>
  What the code relies on of the execution engine, for a numbering \<open>num\<close> of blocks by hash: a block it
  builds is a child of the requested head with the requested timestamp, the block it returns for a
  number has that number, and the blocks of its chain are numbered.
\<close>

definition builds_child :: "(hash \<Rightarrow> u64) \<Rightarrow> engine \<Rightarrow> bool" where
  "builds_child num eng \<longleftrightarrow>
    (\<forall>fc attrs i p. ForkchoiceUpdate eng fc (Some attrs) = Inr \<lparr>fcr_Status = ExecutionValid, fcr_PayloadID = Some i\<rparr>
       \<longrightarrow> GetPayload eng i = Inr p \<longrightarrow>
       pl_ParentHash p = fc_Head fc \<and> pl_Timestamp p = at_Timestamp attrs
       \<and> unat (pl_BlockNumber p) = Suc (unat (num (fc_Head fc))) \<and> num (pl_BlockHash p) = pl_BlockNumber p)"

definition numbers_blocks :: "(hash \<Rightarrow> u64) \<Rightarrow> config \<Rightarrow> engine \<Rightarrow> bool" where
  "numbers_blocks num cfg eng \<longleftrightarrow>
    (\<forall>n p. PayloadByNumber eng n = Inr p \<longrightarrow> pl_BlockNumber p = n \<and> num (pl_BlockHash p) = n)
    \<and> (\<forall>b. source_block (L2Source eng) b \<longrightarrow> num (l2_Hash b) = l2_Number b)
    \<and> numbered_chain (L2Source eng) \<and> consistent_labels cfg (L2Source eng)"

definition honest_engine :: "(hash \<Rightarrow> u64) \<Rightarrow> config \<Rightarrow> engine \<Rightarrow> bool" where
  "honest_engine num cfg eng \<longleftrightarrow> builds_child num eng \<and> numbers_blocks num cfg eng"

section \<open>Finality data\<close>

text \<open>The finality data is bounded, ordered by L1 block and by L2 block, and covers only safe blocks.\<close>

definition wf_finality :: "u64 \<Rightarrow> finality_data list \<Rightarrow> bool" where
  "wf_finality safeNum fds \<longleftrightarrow> length fds \<le> finalityLookback
    \<and> sorted_wrt (\<lambda>a b. id_Number (fd_L1Block a) < id_Number (fd_L1Block b)
        \<and> l2_Number (fd_L2Block a) \<le> l2_Number (fd_L2Block b)) fds
    \<and> (\<forall>fd\<in>set fds. l2_Number (fd_L2Block fd) \<le> safeNum)"

lemma wf_finality_mono: "wf_finality m fds \<Longrightarrow> m \<le> n \<Longrightarrow> wf_finality n fds"
  by (auto simp: wf_finality_def)

lemma wf_finality_prune:
  "wf_finality n fds \<Longrightarrow> wf_finality n (take (finalityLookback - 1) (drop 1 fds))"
  by (auto simp: wf_finality_def sorted_wrt_take sorted_wrt_drop dest: in_set_takeD in_set_dropD)

lemma wf_finality_append:
  assumes "wf_finality n fds" and "length fds < finalityLookback"
    and "fds = [] \<or> id_Number (fd_L1Block (last fds)) < id_Number i" and "n = l2_Number b"
  shows "wf_finality n (fds @ [\<lparr>fd_L2Block = b, fd_L1Block = i\<rparr>])"
proof -
  have "id_Number (fd_L1Block fd) < id_Number i" if mem: "fd \<in> set fds" for fd
  proof -
    obtain fs l where fds: "fds = fs @ [l]" using mem by (cases fds rule: rev_cases) auto
    with assms(1) mem have "id_Number (fd_L1Block fd) \<le> id_Number (fd_L1Block l)"
      by (auto simp: wf_finality_def sorted_wrt_append less_imp_le)
    with assms(3) fds show ?thesis by auto
  qed
  with assms show ?thesis by (auto simp: wf_finality_def sorted_wrt_append)
qed

lemma wf_finality_update_last:
  assumes "wf_finality n fds" and "fds \<noteq> []" and "n = l2_Number b"
  shows "wf_finality n (butlast fds @ [(last fds)\<lparr>fd_L2Block := b\<rparr>])"
proof -
  obtain fs l where "fds = fs @ [l]" using assms(2) by (cases fds rule: rev_cases) auto
  with assms(1,3) show ?thesis by (auto simp: wf_finality_def sorted_wrt_append)
qed

lemma postProcessSafeL2_frame [simp]:
  "eq_safeHead (postProcessSafeL2 org eq) = eq_safeHead eq" "eq_unsafeHead (postProcessSafeL2 org eq) = eq_unsafeHead eq"
  "eq_finalized (postProcessSafeL2 org eq) = eq_finalized eq"
  "eq_unsafePayloads (postProcessSafeL2 org eq) = eq_unsafePayloads eq"
  "eq_safeAttributes (postProcessSafeL2 org eq) = eq_safeAttributes eq" "eq_prev (postProcessSafeL2 org eq) = eq_prev eq"
  "eq_progress (postProcessSafeL2 org eq) = eq_progress eq"
  by (simp_all add: postProcessSafeL2_def Let_def)

lemma postProcessSafeL2_wf:
  assumes "wf_finality n (eq_finalityData eq)" and "n \<le> l2_Number (eq_safeHead eq)"
  shows "wf_finality (l2_Number (eq_safeHead eq)) (eq_finalityData (postProcessSafeL2 org eq))"
proof -
  define fds where "fds = (if length (eq_finalityData eq) \<ge> finalityLookback
    then take (finalityLookback - 1) (drop 1 (eq_finalityData eq)) else eq_finalityData eq)"
  note wf = wf_finality_mono [OF assms]
  have fds: "wf_finality (l2_Number (eq_safeHead eq)) fds" "length fds < finalityLookback"
    using wf wf_finality_prune [OF wf] by (auto simp: fds_def finalityLookback_def)
  have "eq_finalityData (postProcessSafeL2 org eq) =
      (if fds = [] \<or> id_Number (fd_L1Block (last fds)) < l1_Number (org (eq_prev eq))
       then fds @ [\<lparr>fd_L2Block = eq_safeHead eq, fd_L1Block = L1BlockRef_ID (org (eq_prev eq))\<rparr>]
       else butlast fds @ [(last fds)\<lparr>fd_L2Block := eq_safeHead eq\<rparr>])"
    by (simp add: postProcessSafeL2_def fds_def Let_def)
  then show ?thesis using wf_finality_append [OF fds] wf_finality_update_last [OF fds(1)] by auto
qed

lemma finalized_loop_cases:
  "finalized_loop n f fds = f \<or> (\<exists>fd\<in>set fds. id_Number (fd_L1Block fd) \<le> n \<and> finalized_loop n f fds = fd_L2Block fd)"
  by (induction n f fds rule: finalized_loop.induct) (auto split: if_splits)

lemma finalized_loop_ge: "l2_Number f \<le> l2_Number (finalized_loop n f fds)"
  by (induction n f fds rule: finalized_loop.induct) (auto split: if_splits)

lemma finalized_loop_max:
  "fd \<in> set fds \<Longrightarrow> id_Number (fd_L1Block fd) \<le> n \<Longrightarrow> l2_Number (fd_L2Block fd) \<le> l2_Number (finalized_loop n f fds)"
proof (induction n f fds rule: finalized_loop.induct)
  case (2 n f fd' fds)
  show ?case
  proof (cases "fd = fd'")
    case True
    let ?f = "if l2_Number (fd_L2Block fd') > l2_Number f \<and> id_Number (fd_L1Block fd') \<le> n then fd_L2Block fd' else f"
    have "l2_Number (fd_L2Block fd) \<le> l2_Number ?f" using True 2(3) by (auto simp: not_less)
    also have "\<dots> \<le> l2_Number (finalized_loop n ?f fds)" by (rule finalized_loop_ge)
    finally show ?thesis by simp
  qed (use 2 in auto)
qed simp

text \<open>
  C38. Finality follows L1 and never reverts: when an L1 block is signalled as finalized, the finalized L2
  block stays or becomes a block that was derived from an L1 block no later than that one; its number
  never decreases, no block known to be derived from such an L1 block is left out, and nothing else
  changes.
\<close>

theorem Finalize_follows_l1:
  assumes "l1Origin \<noteq> zero_id"
  shows "\<exists>f. Finalize l1Origin eq = eq\<lparr>eq_finalizedL1 := l1Origin, eq_finalized := f\<rparr>
    \<and> (f = eq_finalized eq \<or> (\<exists>fd\<in>set (eq_finalityData eq). fd_L2Block fd = f
         \<and> id_Number (fd_L1Block fd) \<le> id_Number l1Origin))
    \<and> l2_Number (eq_finalized eq) \<le> l2_Number f
    \<and> (\<forall>fd\<in>set (eq_finalityData eq). id_Number (fd_L1Block fd) \<le> id_Number l1Origin \<longrightarrow>
         l2_Number (fd_L2Block fd) \<le> l2_Number f)"
proof (intro exI conjI ballI impI)
  let ?f = "finalized_loop (id_Number l1Origin) (eq_finalized eq) (eq_finalityData eq)"
  show "Finalize l1Origin eq = eq\<lparr>eq_finalizedL1 := l1Origin, eq_finalized := ?f\<rparr>"
    using assms by (simp add: Finalize_def tryFinalizeL2_def)
  show "?f = eq_finalized eq \<or> (\<exists>fd\<in>set (eq_finalityData eq). fd_L2Block fd = ?f
         \<and> id_Number (fd_L1Block fd) \<le> id_Number l1Origin)"
    using finalized_loop_cases by metis
  show "l2_Number (eq_finalized eq) \<le> l2_Number ?f" by (rule finalized_loop_ge)
qed (rule finalized_loop_max)

definition sample_finality :: "unit engine_queue" where
  "sample_finality = (NewEngineQueue ())\<lparr>eq_finalized := chain_block 0,
     eq_finalityData := [\<lparr>fd_L2Block = chain_block 1, fd_L1Block = \<lparr>id_Hash = 4, id_Number = 4\<rparr>\<rparr>]\<rparr>"

theorem Finalize_follows_l1_witness:
  "\<exists>f. Finalize \<lparr>id_Hash = 6, id_Number = 5\<rparr> sample_finality =
      sample_finality\<lparr>eq_finalizedL1 := \<lparr>id_Hash = 6, id_Number = 5\<rparr>, eq_finalized := f\<rparr> \<and> f = chain_block 1"
  using Finalize_follows_l1 [of "\<lparr>id_Hash = 6, id_Number = 5\<rparr>" sample_finality]
  by (auto simp: zero_id_def sample_finality_def chain_block_def)

section \<open>The outcomes of a step\<close>

lemma pop_unsafe_frame [simp]:
  "eq_safeHead (pop_unsafe eq) = eq_safeHead eq" "eq_unsafeHead (pop_unsafe eq) = eq_unsafeHead eq"
  "eq_finalized (pop_unsafe eq) = eq_finalized eq" "eq_finalityData (pop_unsafe eq) = eq_finalityData eq"
  "eq_safeAttributes (pop_unsafe eq) = eq_safeAttributes eq" "eq_prev (pop_unsafe eq) = eq_prev eq"
  "eq_finalizedL1 (pop_unsafe eq) = eq_finalizedL1 eq" "eq_progress (pop_unsafe eq) = eq_progress eq"
  "eq_unsafePayloads (pop_unsafe eq) = snd (PayloadsQueue_Pop (eq_unsafePayloads eq))"
  by (simp_all add: pop_unsafe_def)

text \<open>The forkchoice from which the block for the next attributes is built.\<close>

abbreviation safe_forkchoice :: "'p engine_queue \<Rightarrow> forkchoice_state" where
  "safe_forkchoice eq \<equiv> \<lparr>fc_Head = l2_Hash (eq_safeHead eq), fc_Safe = l2_Hash (eq_safeHead eq),
     fc_Finalized = l2_Hash (eq_finalized eq)\<rparr>"

lemma force_cases:
  assumes "forceNextSafeAttributes G cfg eng org eq = (e, eq')"
  obtains (same) "eq' = eq"
  | (dropped) attrs rest where "eq_safeAttributes eq = attrs # rest" "e = None"
      "\<exists>tx\<in>set (at_Transactions attrs). \<not> is_deposit tx"
      "eq' = eq\<lparr>eq_safeAttributes := attrs\<lparr>at_Transactions := filter is_deposit (at_Transactions attrs)\<rparr> # rest\<rparr>"
  | (inserted) attrs rest payload ref where "eq_safeAttributes eq = attrs # rest" "e = None"
      "inserted eng (safe_forkchoice eq) attrs True payload"
      "PayloadToBlockRef (g_tx G) payload (Genesis cfg) = Inr ref"
      "eq' = postProcessSafeL2 org (eq\<lparr>eq_safeHead := ref, eq_unsafeHead := ref, eq_safeAttributes := rest\<rparr>)"
proof (cases "eq_safeAttributes eq")
  case Nil
  with assms same show ?thesis by (simp add: forceNextSafeAttributes_def)
next
  case attrs: (Cons attrs rest)
  obtain p kind err where ins: "InsertHeadBlock eng (safe_forkchoice eq) attrs True = (p, kind, err)"
    by (metis prod_cases3)
  show ?thesis
  proof (cases err)
    case None
    from InsertHeadBlock_ok [OF ins [unfolded None]] obtain payload where
      payload: "p = Some payload" "inserted eng (safe_forkchoice eq) attrs True payload" by blast
    show ?thesis
    proof (cases "PayloadToBlockRef (g_tx G) payload (Genesis cfg)")
      case (Inl c)
      with attrs ins None payload(1) assms same show ?thesis by (simp add: forceNextSafeAttributes_def)
    next
      case (Inr ref)
      with attrs ins None payload(1) assms inserted [OF attrs _ payload(2) Inr] show ?thesis
        by (simp add: forceNextSafeAttributes_def)
    qed
  next
    case (Some err)
    have lt: "length (filter is_deposit txs) < length txs \<longleftrightarrow> (\<exists>tx\<in>set txs. \<not> is_deposit tx)" for txs
      using length_filter_less [of _ txs is_deposit] filter_True [of txs is_deposit] by (metis nat_neq_iff)
    from attrs ins Some assms show ?thesis
      by (cases p; cases kind)
        (auto simp: forceNextSafeAttributes_def Let_def lt intro: same dropped [OF attrs] split: if_splits)
  qed
qed

lemma consolidate_cases:
  assumes "consolidateNextSafeAttributes G cfg eng org eq = (e, eq')"
  obtains (same) "eq' = eq"
  | (forced) "forceNextSafeAttributes G cfg eng org eq = (e, eq')"
  | (matched) attrs rest payload ref where "eq_safeAttributes eq = attrs # rest" "e = None"
      "PayloadByNumber eng (l2_Number (eq_safeHead eq) + 1) = Inr payload"
      "AttributesMatchBlock attrs (l2_Hash (eq_safeHead eq)) payload = None"
      "PayloadToBlockRef (g_tx G) payload (Genesis cfg) = Inr ref"
      "eq' = postProcessSafeL2 org (eq\<lparr>eq_safeHead := ref, eq_safeAttributes := rest\<rparr>)"
proof (cases "PayloadByNumber eng (l2_Number (eq_safeHead eq) + 1)")
  case (Inl e')
  with assms same show ?thesis by (cases e') (simp_all add: consolidateNextSafeAttributes_def)
next
  case payload: (Inr payload)
  show ?thesis
  proof (cases "eq_safeAttributes eq")
    case Nil
    with payload assms same show ?thesis by (simp add: consolidateNextSafeAttributes_def)
  next
    case attrs: (Cons attrs rest)
    show ?thesis
    proof (cases "AttributesMatchBlock attrs (l2_Hash (eq_safeHead eq)) payload")
      case (Some c)
      with payload attrs assms forced show ?thesis by (simp add: consolidateNextSafeAttributes_def)
    next
      case None
      show ?thesis
      proof (cases "PayloadToBlockRef (g_tx G) payload (Genesis cfg)")
        case (Inl c)
        with payload attrs None assms same show ?thesis by (simp add: consolidateNextSafeAttributes_def)
      next
        case (Inr ref)
        with payload attrs None assms matched [OF attrs _ payload None Inr] show ?thesis
          by (simp add: consolidateNextSafeAttributes_def)
      qed
    qed
  qed
qed

lemma execute_unsafe_cases:
  assumes "execute_unsafe eng first ref eq = (e, eq')"
  obtains (same) "eq' = eq" | (popped) "eq' = pop_unsafe eq"
  | (executed) "e = None" "NewPayload eng first = Inr ExecutionValid" "eq' = pop_unsafe (eq\<lparr>eq_unsafeHead := ref\<rparr>)"
proof (cases "NewPayload eng first")
  case (Inl err)
  with assms same show ?thesis by (simp add: execute_unsafe_def)
next
  case status: (Inr status)
  show ?thesis
  proof (cases "status = ExecutionValid")
    case False
    with status assms popped show ?thesis by (simp add: execute_unsafe_def)
  next
    case True
    let ?answer = "ForkchoiceUpdate eng \<lparr>fc_Head = pl_BlockHash first, fc_Safe = l2_Hash (eq_safeHead eq),
      fc_Finalized = l2_Hash (eq_finalized eq)\<rparr> None"
    show ?thesis
    proof (cases ?answer)
      case (Inl err)
      then have "eq' = eq"
        using status True assms by (auto simp: execute_unsafe_def split: rpc_error.splits error_code.splits)
      then show ?thesis by (rule same)
    next
      case (Inr fcRes)
      with status True assms popped executed show ?thesis
        by (cases "fcr_Status fcRes = ExecutionValid") (simp_all add: execute_unsafe_def)
    qed
  qed
qed

lemma unsafe_cases:
  assumes "tryNextUnsafePayload G cfg eng eq = (e, eq')"
  obtains (same) "eq' = eq" | (popped) "eq' = pop_unsafe eq"
  | (executed) first ref where "PayloadsQueue_Peek (eq_unsafePayloads eq) = Some first" "e = None"
      "l2_Number (eq_safeHead eq) < pl_BlockNumber first" "pl_ParentHash first = l2_Hash (eq_unsafeHead eq)"
      "PayloadToBlockRef (g_tx G) first (Genesis cfg) = Inr ref" "NewPayload eng first = Inr ExecutionValid"
      "eq' = pop_unsafe (eq\<lparr>eq_unsafeHead := ref\<rparr>)"
proof (cases "PayloadsQueue_Peek (eq_unsafePayloads eq)")
  case None
  with assms same show ?thesis by (simp add: tryNextUnsafePayload_def)
next
  case peek: (Some first)
  show ?thesis
  proof (cases "l2_Number (eq_safeHead eq) < pl_BlockNumber first \<and> pl_ParentHash first = l2_Hash (eq_unsafeHead eq)")
    case False
    with peek assms same popped show ?thesis
      by (auto simp: tryNextUnsafePayload_def not_less split: if_splits)
  next
    case True
    then have cond: "\<not> pl_BlockNumber first \<le> l2_Number (eq_safeHead eq)"
      "pl_ParentHash first = l2_Hash (eq_unsafeHead eq)" by (simp_all add: not_le)
    show ?thesis
    proof (cases "PayloadToBlockRef (g_tx G) first (Genesis cfg)")
      case (Inl c)
      with peek cond assms popped show ?thesis by (simp add: tryNextUnsafePayload_def)
    next
      case (Inr ref)
      with peek cond assms have "execute_unsafe eng first ref eq = (e, eq')"
        by (simp add: tryNextUnsafePayload_def)
      then show ?thesis
        by (cases rule: execute_unsafe_cases) (use same popped executed peek True Inr in blast)+
    qed
  qed
qed

lemma Step_cases:
  assumes "EngineQueue_Step G cfg eng org next eq = (e, eq')"
  obtains (pulled) p r where "eq' = eq\<lparr>eq_prev := p\<rparr>" "next (eq_safeHead eq) (eq_prev eq) = (r, p)"
  | (queued) p attrs where "eq_safeAttributes eq = []" "eq' = eq\<lparr>eq_prev := p, eq_safeAttributes := [attrs]\<rparr>"
      "next (eq_safeHead eq) (eq_prev eq) = (Inr attrs, p)"
  | (unsafe) p r where "tryNextUnsafePayload G cfg eng (eq\<lparr>eq_prev := p\<rparr>) = (e, eq')"
      "next (eq_safeHead eq) (eq_prev eq) = (r, p)"
  | (repair) "eq' = eq\<lparr>eq_unsafeHead := eq_safeHead eq\<rparr>" "l2_Number (eq_unsafeHead eq) < l2_Number (eq_safeHead eq)"
  | (consolidate) "consolidateNextSafeAttributes G cfg eng org eq = (e, eq')"
      "l2_Number (eq_safeHead eq) < l2_Number (eq_unsafeHead eq)"
  | (force) "forceNextSafeAttributes G cfg eng org eq = (e, eq')"
proof (cases "eq_safeAttributes eq = []")
  case False
  with assms repair consolidate force show ?thesis
    by (auto simp: EngineQueue_Step_def tryNextSafeAttributes_def not_less split: if_splits)
next
  case True
  obtain r p where pull: "next (eq_safeHead eq) (eq_prev eq) = (r, p)" by fastforce
  show ?thesis
  proof (cases r)
    case (Inr attrs)
    with True pull assms queued [of attrs p] show ?thesis by (simp add: EngineQueue_Step_def)
  next
    case (Inl err)
    with True pull assms pulled [of p r] unsafe [of p r] show ?thesis
      by (cases err) (simp_all add: EngineQueue_Step_def Let_def split: if_splits)
  qed
qed

text \<open>The previous stage changes only when it is asked for attributes, and the progress never.\<close>

lemma force_prev:
  assumes "forceNextSafeAttributes G cfg eng org eq = (e, eq')"
  shows "eq_prev eq' = eq_prev eq \<and> eq_progress eq' = eq_progress eq"
  using assms by (cases rule: force_cases) simp_all

lemma Step_prev:
  assumes "EngineQueue_Step G cfg eng org next eq = (e, eq')"
  shows "eq_prev eq' = eq_prev eq \<or> (\<exists>r. next (eq_safeHead eq) (eq_prev eq) = (r, eq_prev eq'))"
    and "eq_progress eq' = eq_progress eq"
proof -
  have "(eq_prev eq' = eq_prev eq \<or> (\<exists>r. next (eq_safeHead eq) (eq_prev eq) = (r, eq_prev eq')))
      \<and> eq_progress eq' = eq_progress eq"
    using assms
  proof (cases rule: Step_cases)
    case (unsafe p r)
    from unsafe(1) have "eq_prev eq' = p \<and> eq_progress eq' = eq_progress eq"
      by (cases rule: unsafe_cases) simp_all
    with unsafe(2) show ?thesis by blast
  next
    case consolidate
    from consolidate(1) have "eq_prev eq' = eq_prev eq \<and> eq_progress eq' = eq_progress eq"
      by (cases rule: consolidate_cases) (simp_all add: force_prev)
    then show ?thesis by blast
  qed (auto dest: force_prev)
  then show "eq_prev eq' = eq_prev eq \<or> (\<exists>r. next (eq_safeHead eq) (eq_prev eq) = (r, eq_prev eq'))"
    "eq_progress eq' = eq_progress eq" by simp_all
qed

section \<open>The invariant\<close>


text \<open>The finality data is well formed, the finalized head not above the safe head, the queue of payloads in order.\<close>

definition heads_inv :: "(hash \<Rightarrow> u64) \<Rightarrow> 'p engine_queue \<Rightarrow> bool" where
  "heads_inv num eq \<longleftrightarrow> wf_finality (l2_Number (eq_safeHead eq)) (eq_finalityData eq)
    \<and> l2_Number (eq_finalized eq) \<le> l2_Number (eq_safeHead eq)
    \<and> num (l2_Hash (eq_safeHead eq)) = l2_Number (eq_safeHead eq)
    \<and> wf_payloads (eq_unsafePayloads eq)"

lemma heads_inv_new_safe:
  assumes "heads_inv num eq" and "l2_Number (eq_safeHead eq) \<le> l2_Number ref" and "num (l2_Hash ref) = l2_Number ref"
    and "eq_finalityData eq0 = eq_finalityData eq" "eq_finalized eq0 = eq_finalized eq" "eq_safeHead eq0 = ref"
      "eq_unsafePayloads eq0 = eq_unsafePayloads eq"
  shows "heads_inv num (postProcessSafeL2 org eq0)"
  using assms postProcessSafeL2_wf [of "l2_Number (eq_safeHead eq)" eq0 org]
  by (auto simp: heads_inv_def)

lemma force_inv:
  assumes "heads_inv num eq" and "builds_child num eng" and "forceNextSafeAttributes G cfg eng org eq = (e, eq')"
  shows "heads_inv num eq'"
  using assms(3)
proof (cases rule: force_cases)
  case (inserted attrs rest payload ref)
  note ref = PayloadToBlockRef_fields [OF inserted(4)]
  have "unat (pl_BlockNumber payload) = Suc (unat (num (l2_Hash (eq_safeHead eq))))"
    "num (pl_BlockHash payload) = pl_BlockNumber payload"
    using inserted(3) assms(2) unfolding inserted_def builds_child_def by fastforce+
  with ref assms(1) have "l2_Number (eq_safeHead eq) \<le> l2_Number ref" "num (l2_Hash ref) = l2_Number ref"
    by (simp_all add: heads_inv_def word_le_nat_alt)
  then show ?thesis unfolding inserted(5) by (intro heads_inv_new_safe [OF assms(1), of ref]) simp_all
qed (use assms(1) in \<open>simp_all add: heads_inv_def\<close>)

lemma Step_inv:
  assumes "heads_inv num eq" and "honest_engine num cfg eng" and "EngineQueue_Step G cfg eng org next eq = (e, eq')"
  shows "heads_inv num eq'"
  using assms(3)
proof (cases rule: Step_cases)
  case (unsafe p)
  from unsafe(1) show ?thesis
    by (cases rule: unsafe_cases) (use assms(1) in \<open>simp_all add: heads_inv_def wf_payloads_Pop\<close>)
next
  case consolidate
  note lt = consolidate(2)
  from consolidate(1) show ?thesis
  proof (cases rule: consolidate_cases)
    case forced
    then show ?thesis using force_inv assms(1,2) by (auto simp: honest_engine_def)
  next
    case (matched attrs rest payload ref)
    note ref = PayloadToBlockRef_fields [OF matched(5)]
    have "pl_BlockNumber payload = l2_Number (eq_safeHead eq) + 1" "num (pl_BlockHash payload) = pl_BlockNumber payload"
      using matched(3) assms(2) by (auto simp: honest_engine_def numbers_blocks_def)
    with ref lt have "l2_Number (eq_safeHead eq) \<le> l2_Number ref" "num (l2_Hash ref) = l2_Number ref"
      by (simp_all add: word_le_nat_alt unat_inc)
    then show ?thesis unfolding matched(6) by (intro heads_inv_new_safe [OF assms(1), of ref]) simp_all
  qed (use assms(1) in simp)
next
  case force
  then show ?thesis using force_inv assms(1,2) by (auto simp: honest_engine_def)
qed (use assms(1) in \<open>simp_all add: heads_inv_def\<close>)

lemma ResetStep_inv:
  assumes "EngineQueue_ResetStep cfg eng l1 eq = Some (Some EOF, eq')" and "numbers_blocks num cfg eng"
    and "wf_payloads (eq_unsafePayloads eq)"
  shows "heads_inv num eq'"
proof -
  from assms(1) obtain res org where res: "FindL2Heads cfg l1 (L2Source eng) = Some (Inr res)"
    "eq' = eq\<lparr>eq_unsafeHead := fh_Unsafe res, eq_safeHead := fh_Safe res,
       eq_finalized := fh_Finalized res, eq_finalityData := [], eq_progress := \<lparr>pr_Origin = org, pr_Closed = False\<rparr>\<rparr>"
    by (auto simp: EngineQueue_ResetStep_def Let_def split: option.splits sum.splits if_splits)
  have "above_finalized (L2Source eng) (fh_Safe res) res"
    using FindL2Heads_above_finalized [OF res(1)] assms(2) by (simp add: numbers_blocks_def)
  with assms(2,3) res(2) show ?thesis
    by (simp add: heads_inv_def above_finalized_def numbers_blocks_def wf_finality_def)
qed

lemma AddUnsafePayload_inv:
  assumes "heads_inv num eq"
  obtains upq where "AddUnsafePayload payload eq = Some (None, eq\<lparr>eq_unsafePayloads := upq\<rparr>)"
    "heads_inv num (eq\<lparr>eq_unsafePayloads := upq\<rparr>)"
proof (cases payload)
  case None
  with that [of "eq_unsafePayloads eq"] assms show ?thesis by (simp add: AddUnsafePayload_def)
next
  case (Some p)
  have wf: "wf_payloads (eq_unsafePayloads eq)" using assms by (simp add: heads_inv_def)
  obtain err upq where push: "PayloadsQueue_Push (Some p) (eq_unsafePayloads eq) = Some (err, upq)" "wf_payloads upq"
    "err = None \<Longrightarrow> upq_pq upq \<noteq> []"
    by (rule PayloadsQueue_Push_wf [OF wf]) blast
  then have "AddUnsafePayload payload eq = Some (None, eq\<lparr>eq_unsafePayloads := upq\<rparr>)"
    using Some by (cases err) (simp_all add: AddUnsafePayload_def PayloadsQueue_Peek_def)
  moreover have "heads_inv num (eq\<lparr>eq_unsafePayloads := upq\<rparr>)" using push(2) assms by (simp add: heads_inv_def)
  ultimately show ?thesis by (rule that)
qed

lemma Finalize_inv: "heads_inv num eq \<Longrightarrow> heads_inv num (Finalize i eq)"
proof -
  assume inv: "heads_inv num eq"
  have "l2_Number (finalized_loop (id_Number i) (eq_finalized eq) (eq_finalityData eq)) \<le> l2_Number (eq_safeHead eq)"
    using finalized_loop_cases [of "id_Number i" "eq_finalized eq" "eq_finalityData eq"] inv
    by (auto simp: heads_inv_def wf_finality_def)
  with inv show ?thesis by (simp add: Finalize_def tryFinalizeL2_def heads_inv_def)
qed

text \<open>
  The transitions of the queue: its operations, with an honest engine at every step. The previous stage
  may hand out anything, and the L1 client may answer anything.
\<close>

inductive queue_trans ::
    "geth \<Rightarrow> config \<Rightarrow> (hash \<Rightarrow> u64) \<Rightarrow> ('p \<Rightarrow> l1_block_ref) \<Rightarrow> 'p engine_queue \<Rightarrow> 'p engine_queue \<Rightarrow> bool"
  for G cfg num org where
  step: "\<lbrakk>honest_engine num cfg eng; EngineQueue_Step G cfg eng org next eq = (e, eq')\<rbrakk> \<Longrightarrow> queue_trans G cfg num org eq eq'"
| reset: "\<lbrakk>honest_engine num cfg eng; EngineQueue_ResetStep cfg eng l1 eq = Some (e, eq')\<rbrakk> \<Longrightarrow> queue_trans G cfg num org eq eq'"
| final: "queue_trans G cfg num org eq (Finalize i eq)"
| unsafe: "AddUnsafePayload payload eq = Some (e, eq') \<Longrightarrow> queue_trans G cfg num org eq eq'"
| safe: "queue_trans G cfg num org eq (AddSafeAttributes attrs eq)"
| head: "queue_trans G cfg num org eq (SetUnsafeHead h eq)"

lemma ResetStep_failed:
  "EngineQueue_ResetStep cfg eng l1 eq = Some (e, eq') \<Longrightarrow> e \<noteq> Some EOF \<Longrightarrow> eq' = eq"
  by (auto simp: EngineQueue_ResetStep_def Let_def split: option.splits sum.splits if_splits)

lemma queue_trans_inv:
  assumes "queue_trans G cfg num org eq eq'" and "heads_inv num eq"
  shows "heads_inv num eq'"
  using assms
proof cases
  case (step eng "next" e)
  then show ?thesis using Step_inv assms(2) by blast
next
  case (reset eng l1 e)
  then show ?thesis
    using ResetStep_inv [of cfg eng l1 eq eq' num] ResetStep_failed [OF reset(2)] assms(2)
    by (cases "e = Some EOF") (auto simp: honest_engine_def heads_inv_def)
next
  case (unsafe payload e)
  obtain upq where "AddUnsafePayload payload eq = Some (None, eq\<lparr>eq_unsafePayloads := upq\<rparr>)"
    "heads_inv num (eq\<lparr>eq_unsafePayloads := upq\<rparr>)"
    by (rule AddUnsafePayload_inv [OF assms(2)])
  with unsafe show ?thesis by simp
next
  case (final i)
  then show ?thesis using Finalize_inv assms(2) by simp
qed (use assms(2) in \<open>auto simp: heads_inv_def AddSafeAttributes_def SetUnsafeHead_def\<close>)


text \<open>An engine that holds a chain of three blocks and builds a block on the first of them.\<close>

definition sample_num :: "hash \<Rightarrow> u64" where
  "sample_num h = (if h = 3 then 1 else if h = 4 then 2 else 0)"

definition sample_engine :: engine where
  "sample_engine = \<lparr>
     GetPayload = (\<lambda>i. Inr (sample_payload\<lparr>pl_ParentHash := 2, pl_BlockNumber := 1, pl_Timestamp := i, pl_BlockHash := 3\<rparr>)),
     ForkchoiceUpdate = (\<lambda>fc attrs. Inr \<lparr>fcr_Status = ExecutionValid,
       fcr_PayloadID = (case attrs of None \<Rightarrow> None | Some a \<Rightarrow> if fc_Head fc = 2 then Some (at_Timestamp a) else None)\<rparr>),
     NewPayload = (\<lambda>p. Inr ExecutionValid), PayloadByNumber = (\<lambda>n. Inl NotFound), L2Source = chain_l2\<rparr>"

lemma sample_engine_honest: "honest_engine sample_num sample_config sample_engine"
proof -
  have "builds_child sample_num sample_engine"
    by (auto simp: builds_child_def sample_engine_def sample_num_def split: option.splits if_splits)
  moreover have "source_block chain_l2 b \<Longrightarrow> b \<in> {chain_block 0, chain_block 1, chain_block 2}" for b
    by (auto simp: source_block_def chain_l2_def split: if_splits)
  then have "source_block chain_l2 b \<Longrightarrow> sample_num (l2_Hash b) = l2_Number b" for b
    by (fastforce simp: chain_block_def sample_num_def)
  moreover have "numbered_chain chain_l2"
    by (auto simp: numbered_chain_def source_block_def chain_l2_def chain_block_def split: if_splits)
  moreover have "consistent_labels sample_config chain_l2"
    by (simp add: consistent_labels_def currentHeads_def chain_l2_def chain_block_def sample_config_def)
  ultimately show ?thesis
    by (simp add: honest_engine_def numbers_blocks_def) (simp add: sample_engine_def)
qed

definition sample_l1_client :: l1_fetcher where
  "sample_l1_client = (chain_l1 1)\<lparr>L1BlockRefByHash :=
     (\<lambda>h. Inr \<lparr>l1_Hash = h, l1_Number = 0, l1_ParentHash = 0, l1_Time = 100\<rparr>)\<rparr>"

text \<open>The queue after its first reset.\<close>

definition reset_queue :: "'p \<Rightarrow> 'p engine_queue" where
  "reset_queue p = (NewEngineQueue p)\<lparr>eq_unsafeHead := chain_block 2, eq_safeHead := chain_block 0,
     eq_finalized := chain_block 0, eq_finalityData := [],
     eq_progress := \<lparr>pr_Origin = \<lparr>l1_Hash = 1, l1_Number = 0, l1_ParentHash = 0, l1_Time = 100\<rparr>, pr_Closed = False\<rparr>\<rparr>"

lemma sample_find:
  "FindL2Heads sample_config sample_l1_client chain_l2 = Some (Inr \<lparr>fh_Unsafe = chain_block 2, fh_Safe = chain_block 0,
     fh_Finalized = chain_block 0\<rparr>)"
  unfolding FindL2Heads_def
  by (simp add: currentHeads_def chain_defs, (subst find_loop.simps, simp add: chain_defs sample_l1_client_def)+)

lemma sample_reset:
  "EngineQueue_ResetStep sample_config sample_engine sample_l1_client (NewEngineQueue p) = Some (Some EOF, reset_queue p)"
  using sample_find
  by (simp add: EngineQueue_ResetStep_def sample_engine_def)
    (simp add: sample_l1_client_def chain_l1_def chain_block_def sample_config_def reset_queue_def NewEngineQueue_def
      Let_def)

lemma new_queue_wf: "wf_payloads (eq_unsafePayloads (NewEngineQueue p))"
  by (simp add: NewEngineQueue_def wf_payloads_def wf_sizes_def is_heap_def total_size_def maxUnsafePayloadsMemory_def)

definition sample_attrs :: payload_attributes where
  "sample_attrs = \<lparr>at_Timestamp = 102, at_PrevRandao = 0, at_SuggestedFeeRecipient = 12, at_Transactions = [[1]],
     at_NoTxPool = True\<rparr>"

definition sample_stepped :: "unit engine_queue" where
  "sample_stepped = snd (EngineQueue_Step sample_geth sample_config sample_engine (\<lambda>_. zero_l1) (\<lambda>h p. (Inl EOF, p))
     (SetUnsafeHead (chain_block 0) (AddSafeAttributes sample_attrs (reset_queue ()))))"

lemma sample_path: "(queue_trans sample_geth sample_config sample_num (\<lambda>_. zero_l1))\<^sup>*\<^sup>* (reset_queue ()) sample_stepped"
proof -
  let ?R = "queue_trans sample_geth sample_config sample_num (\<lambda>_ :: unit. zero_l1)"
  have "?R (reset_queue ()) (AddSafeAttributes sample_attrs (reset_queue ()))" by (rule safe)
  moreover have "?R (AddSafeAttributes sample_attrs (reset_queue ()))
      (SetUnsafeHead (chain_block 0) (AddSafeAttributes sample_attrs (reset_queue ())))" by (rule head)
  moreover have "?R (SetUnsafeHead (chain_block 0) (AddSafeAttributes sample_attrs (reset_queue ()))) sample_stepped"
    unfolding sample_stepped_def by (rule step [OF sample_engine_honest surjective_pairing])
  ultimately show ?thesis by (meson converse_rtranclp_into_rtranclp r_into_rtranclp)
qed


section \<open>Refinement of a chain of heads\<close>

text \<open>
  The abstract machine: three heads on a chain of blocks. A step is labelled with the attributes it
  turns into a block, if any.
\<close>

record heads =
  hd_finalized :: l2_block_ref
  hd_safe :: l2_block_ref
  hd_unsafe :: l2_block_ref

definition heads_of :: "'p engine_queue \<Rightarrow> heads" where
  "heads_of eq = \<lparr>hd_finalized = eq_finalized eq, hd_safe = eq_safeHead eq, hd_unsafe = eq_unsafeHead eq\<rparr>"

text \<open>\<open>b\<close> is a child of \<open>a\<close>.\<close>

definition child_of :: "l2_block_ref \<Rightarrow> l2_block_ref \<Rightarrow> bool" where
  "child_of a b \<longleftrightarrow> l2_ParentHash b = l2_Hash a \<and> unat (l2_Number b) = Suc (unat (l2_Number a))"

inductive heads_step :: "heads \<Rightarrow> payload_attributes option \<Rightarrow> heads \<Rightarrow> bool" where
  stay: "heads_step h None h"
| extend: "\<lbrakk>l2_ParentHash b = l2_Hash (hd_unsafe h); l2_Number (hd_safe h) < l2_Number b\<rbrakk>
    \<Longrightarrow> heads_step h None (h\<lparr>hd_unsafe := b\<rparr>)"
| repair: "l2_Number (hd_unsafe h) < l2_Number (hd_safe h) \<Longrightarrow> heads_step h None (h\<lparr>hd_unsafe := hd_safe h\<rparr>)"
| adopt: "\<lbrakk>child_of (hd_safe h) b; l2_Time b = at_Timestamp attrs; l2_Number b \<le> l2_Number (hd_unsafe h)\<rbrakk>
    \<Longrightarrow> heads_step h (Some attrs) (h\<lparr>hd_safe := b\<rparr>)"
| build: "\<lbrakk>child_of (hd_safe h) b; l2_Time b = at_Timestamp attrs\<rbrakk>
    \<Longrightarrow> heads_step h (Some attrs) (h\<lparr>hd_safe := b, hd_unsafe := b\<rparr>)"

text \<open>
  What a step does to the buffered attributes: the first are consumed when the abstract machine makes a
  block of them; otherwise nothing, the arrival of the next ones, or the removal of the transactions
  that are not deposits.
\<close>

inductive attributes_step :: "payload_attributes list \<Rightarrow> payload_attributes option \<Rightarrow> payload_attributes list \<Rightarrow> bool" where
  consumed: "attributes_step (attrs # rest) (Some attrs) rest"
| unchanged: "attributes_step as None as"
| arrived: "attributes_step [] None [attrs]"
| reduced: "\<exists>tx\<in>set (at_Transactions attrs). \<not> is_deposit tx \<Longrightarrow>
    attributes_step (attrs # rest) None (attrs\<lparr>at_Transactions := filter is_deposit (at_Transactions attrs)\<rparr> # rest)"

lemma force_refines:
  assumes "heads_inv num eq" and "builds_child num eng" and "forceNextSafeAttributes G cfg eng org eq = (e, eq')"
  shows "\<exists>l. heads_step (heads_of eq) l (heads_of eq') \<and> attributes_step (eq_safeAttributes eq) l (eq_safeAttributes eq')"
  using assms(3)
proof (cases rule: force_cases)
  case same
  then show ?thesis by (auto intro: stay unchanged)
next
  case (dropped attrs rest)
  then have "heads_of eq' = heads_of eq" by (simp add: heads_of_def)
  with dropped show ?thesis by (auto intro: stay reduced)
next
  case (inserted attrs rest payload ref)
  note ref = PayloadToBlockRef_fields [OF inserted(4)]
  have "pl_ParentHash payload = l2_Hash (eq_safeHead eq) \<and> pl_Timestamp payload = at_Timestamp attrs
      \<and> unat (pl_BlockNumber payload) = Suc (unat (num (l2_Hash (eq_safeHead eq))))"
    using inserted(3) assms(2) unfolding inserted_def builds_child_def by fastforce
  with ref assms(1) have "child_of (eq_safeHead eq) ref" "l2_Time ref = at_Timestamp attrs"
    by (simp_all add: child_of_def heads_inv_def)
  then have "heads_step (heads_of eq) (Some attrs) (heads_of eq')"
    using build [of "heads_of eq" ref attrs] by (simp add: heads_of_def inserted(5))
  moreover have "attributes_step (eq_safeAttributes eq) (Some attrs) (eq_safeAttributes eq')"
    by (simp add: inserted(1,5) consumed)
  ultimately show ?thesis by blast
qed

lemma consolidate_refines:
  assumes "heads_inv num eq" and "honest_engine num cfg eng" and "consolidateNextSafeAttributes G cfg eng org eq = (e, eq')"
    and lt: "l2_Number (eq_safeHead eq) < l2_Number (eq_unsafeHead eq)"
  shows "\<exists>l. heads_step (heads_of eq) l (heads_of eq') \<and> attributes_step (eq_safeAttributes eq) l (eq_safeAttributes eq')"
  using assms(3)
proof (cases rule: consolidate_cases)
  case same
  then show ?thesis by (auto intro: stay unchanged)
next
  case forced
  then show ?thesis using force_refines [OF assms(1)] assms(2) unfolding honest_engine_def by blast
next
  case (matched attrs rest payload ref)
  note ref = PayloadToBlockRef_fields [OF matched(5)]
  have "pl_BlockNumber payload = l2_Number (eq_safeHead eq) + 1"
    using matched(3) assms(2) by (auto simp: honest_engine_def numbers_blocks_def)
  with ref matched(4) unat_inc [OF lt] have "child_of (eq_safeHead eq) ref" "l2_Time ref = at_Timestamp attrs"
    by (simp_all add: child_of_def AttributesMatchBlock_None)
  moreover from this(1) lt have "l2_Number ref \<le> l2_Number (eq_unsafeHead eq)"
    by (simp add: child_of_def word_le_nat_alt word_less_nat_alt)
  ultimately have "heads_step (heads_of eq) (Some attrs) (heads_of eq')"
    using adopt [of "heads_of eq" ref attrs] by (simp add: heads_of_def matched(6))
  moreover have "attributes_step (eq_safeAttributes eq) (Some attrs) (eq_safeAttributes eq')"
    by (simp add: matched(1,6) consumed)
  ultimately show ?thesis by blast
qed

text \<open>
  C2. The engine queue refines the chain of heads: with an honest engine, every \<^verbatim>\<open>Step\<close>, whatever it returns,
  is a step of the abstract machine. The safe head moves only to a child of itself, one block per
  attributes, in the order in which they were derived and with their timestamp; the unsafe head moves
  only to a child of itself, or together with the safe head, or back to it when it was behind; the
  finalized head does not move; and the only change attributes suffer before they become a block is
  that their transactions other than deposits are removed.
\<close>

theorem engine_queue_refines_heads:
  assumes "heads_inv num eq" and "honest_engine num cfg eng" and "EngineQueue_Step G cfg eng org next eq = (e, eq')"
  shows "\<exists>l. heads_step (heads_of eq) l (heads_of eq') \<and> attributes_step (eq_safeAttributes eq) l (eq_safeAttributes eq')"
  using assms(3)
proof (cases rule: Step_cases)
  case (pulled p)
  then have "heads_of eq' = heads_of eq" "eq_safeAttributes eq' = eq_safeAttributes eq" by (simp_all add: heads_of_def)
  then show ?thesis by (auto intro: stay unchanged)
next
  case (queued p attrs)
  then have "heads_of eq' = heads_of eq" by (simp add: heads_of_def)
  with queued show ?thesis by (auto intro: stay arrived)
next
  case (unsafe p)
  from unsafe(1) have "eq_safeAttributes eq' = eq_safeAttributes eq \<and> heads_step (heads_of eq) None (heads_of eq')"
  proof (cases rule: unsafe_cases)
    case (executed first ref)
    then have "heads_of eq' = (heads_of eq)\<lparr>hd_unsafe := ref\<rparr>" by (simp add: heads_of_def)
    with executed PayloadToBlockRef_fields [OF executed(5)] extend [of ref "heads_of eq"] show ?thesis
      by (simp add: heads_of_def)
  qed (simp_all add: heads_of_def stay)
  then show ?thesis by (auto intro: unchanged)
next
  case repair
  then show ?thesis using heads_step.repair [of "heads_of eq"] by (auto simp: heads_of_def intro: unchanged)
next
  case consolidate
  then show ?thesis using consolidate_refines assms(1,2) by blast
next
  case force
  then show ?thesis using force_refines [OF assms(1)] assms(2) unfolding honest_engine_def by blast
qed

theorem engine_queue_refines_heads_witness:
  "\<exists>l. heads_step (heads_of (SetUnsafeHead (chain_block 0) (AddSafeAttributes sample_attrs (reset_queue ())))) l
         (heads_of sample_stepped)
     \<and> attributes_step (eq_safeAttributes (SetUnsafeHead (chain_block 0) (AddSafeAttributes sample_attrs (reset_queue ())))) l
         (eq_safeAttributes sample_stepped)"
proof (rule engine_queue_refines_heads [OF _ sample_engine_honest])
  show "heads_inv sample_num (SetUnsafeHead (chain_block 0) (AddSafeAttributes sample_attrs (reset_queue ())))"
    using ResetStep_inv [OF sample_reset [of "()"] _ new_queue_wf, of sample_num] sample_engine_honest
    by (simp add: honest_engine_def heads_inv_def SetUnsafeHead_def AddSafeAttributes_def)
next
  show "EngineQueue_Step sample_geth sample_config sample_engine (\<lambda>_. zero_l1) (\<lambda>h p. (Inl EOF, p))
      (SetUnsafeHead (chain_block 0) (AddSafeAttributes sample_attrs (reset_queue ()))) = (fst (EngineQueue_Step sample_geth
      sample_config sample_engine (\<lambda>_. zero_l1) (\<lambda>h p. (Inl EOF, p))
      (SetUnsafeHead (chain_block 0) (AddSafeAttributes sample_attrs (reset_queue ())))), sample_stepped)"
    by (simp add: sample_stepped_def)
qed

end
