(* ===== verification/Pipeline.thy ===== *)
theory Pipeline
  imports Engine_Heads
begin

text \<open>
  The derivation pipeline: \<^verbatim>\<open>pipeline.go\<close> of \<^verbatim>\<open>op-node/rollup/derive\<close>. It connects the stages, from the L1
  traversal to the engine queue, resets them one after the other and steps the engine queue, which
  pulls from all the others.
\<close>

section \<open>The stages\<close>

text \<open>
  The engine queue owns the attributes queue it pulls from, and so on down to the L1 traversal; the
  pipeline reaches each of them through the engine queue.
\<close>

type_synonym attributes_state = "queue_state attributes_queue"
type_synonym engine_state = "attributes_state engine_queue"

definition map_attributes :: "(attributes_state \<Rightarrow> attributes_state) \<Rightarrow> engine_state \<Rightarrow> engine_state" where
  "map_attributes f eq = eq\<lparr>eq_prev := f (eq_prev eq)\<rparr>"

definition map_batches :: "(queue_state \<Rightarrow> queue_state) \<Rightarrow> engine_state \<Rightarrow> engine_state" where
  "map_batches f = map_attributes (\<lambda>aq. aq\<lparr>aq_prev := f (aq_prev aq)\<rparr>)"

definition map_reader :: "(reader_state \<Rightarrow> reader_state) \<Rightarrow> engine_state \<Rightarrow> engine_state" where
  "map_reader f = map_batches (\<lambda>bq. bq\<lparr>bq_prev := f (bq_prev bq)\<rparr>)"

definition map_bank :: "(bank_state \<Rightarrow> bank_state) \<Rightarrow> engine_state \<Rightarrow> engine_state" where
  "map_bank f = map_reader (\<lambda>cr. cr\<lparr>ci_prev := f (ci_prev cr)\<rparr>)"

definition map_retrieval :: "(l1_traversal l1_retrieval \<Rightarrow> l1_traversal l1_retrieval) \<Rightarrow> engine_state \<Rightarrow> engine_state" where
  "map_retrieval f = map_bank (\<lambda>cb. cb\<lparr>cb_prev := f (cb_prev cb)\<rparr>)"

definition map_traversal :: "(l1_traversal \<Rightarrow> l1_traversal) \<Rightarrow> engine_state \<Rightarrow> engine_state" where
  "map_traversal f = map_retrieval (\<lambda>lr. lr\<lparr>lr_prev := f (lr_prev lr)\<rparr>)"

lemmas map_stage_defs = map_attributes_def map_batches_def map_reader_def map_bank_def map_retrieval_def map_traversal_def

definition the_bank :: "engine_state \<Rightarrow> bank_state" where
  "the_bank eq = ci_prev (bq_prev (aq_prev (eq_prev eq)))"

definition the_traversal :: "engine_state \<Rightarrow> l1_traversal" where
  "the_traversal eq = lr_prev (cb_prev (the_bank eq))"

section \<open>The pipeline\<close>

record derivation_pipeline =
  dp_resetting :: nat
  dp_pullResetIdx :: nat
  dp_eng :: engine_state

definition NewDerivationPipeline :: derivation_pipeline where
  "NewDerivationPipeline =
    (let l1Traversal = NewL1Traversal;
         l1Src = \<lparr>lr_datas = None, lr_prev = l1Traversal\<rparr>;
         bank = NewChannelBank l1Src;
         chInReader = NewChannelInReader bank;
         batchQueue = NewBatchQueue chInReader;
         attributesQueue = NewAttributesQueue batchQueue;
         eng = NewEngineQueue attributesQueue
     in \<lparr>dp_resetting = 0, dp_pullResetIdx = 0, dp_eng = eng\<rparr>)"

definition DerivationPipeline_Reset :: "derivation_pipeline \<Rightarrow> derivation_pipeline" where
  "DerivationPipeline_Reset dp = dp\<lparr>dp_resetting := 0, dp_pullResetIdx := 0\<rparr>"

definition DerivationPipeline_Progress :: "derivation_pipeline \<Rightarrow> progress" where
  "DerivationPipeline_Progress dp = eq_progress (dp_eng dp)"

definition DerivationPipeline_Finalize :: "block_id \<Rightarrow> derivation_pipeline \<Rightarrow> derivation_pipeline" where
  "DerivationPipeline_Finalize l1Origin dp = dp\<lparr>dp_eng := Finalize l1Origin (dp_eng dp)\<rparr>"

definition DerivationPipeline_SetUnsafeHead :: "l2_block_ref \<Rightarrow> derivation_pipeline \<Rightarrow> derivation_pipeline" where
  "DerivationPipeline_SetUnsafeHead head dp = dp\<lparr>dp_eng := SetUnsafeHead head (dp_eng dp)\<rparr>"

definition DerivationPipeline_AddUnsafePayload ::
    "execution_payload option \<Rightarrow> derivation_pipeline \<Rightarrow> (derr option \<times> derivation_pipeline) option" where
  "DerivationPipeline_AddUnsafePayload payload dp =
     map_option (\<lambda>(e, eq). (e, dp\<lparr>dp_eng := eq\<rparr>)) (AddUnsafePayload payload (dp_eng dp))"

text \<open>
  The environment of a step: the rollup configuration, what is used of go-ethereum, RLP and zlib, the
  recovery of the sender of a transaction, the L1 client and the engine.
\<close>

record pipeline_env =
  pe_cfg :: config
  pe_geth :: geth
  pe_codec :: batch_codec
  pe_Sender :: tx_signer
  pe_l1 :: l1_fetcher
  pe_engine :: engine

text \<open>The pull stages in the order in which they are reset; every reset returns \<^verbatim>\<open>io.EOF\<close>.\<close>

definition pullStages :: "pipeline_env \<Rightarrow> l1_block_ref \<Rightarrow> (engine_state \<Rightarrow> engine_state) list" where
  "pullStages E base =
    [map_attributes (\<lambda>aq. snd (AttributesQueue_Reset aq)),
     map_batches (\<lambda>bq. snd (BatchQueue_Reset base bq)),
     map_reader (\<lambda>cr. snd (ChannelInReader_Reset cr)),
     map_bank (ChannelBank_Reset base),
     map_retrieval (L1Retrieval_Reset (pe_cfg E) (pe_Sender E) (pe_l1 E) base),
     map_traversal (L1Traversal_Reset base)]"

text \<open>The attributes queue as the engine queue sees it.\<close>

abbreviation attributes_pull :: "pipeline_env \<Rightarrow> l2_block_ref \<Rightarrow> attributes_state \<Rightarrow> (payload_attributes, attributes_state) outcome" where
  "attributes_pull E \<equiv> NextAttributes (pe_geth E) (pe_cfg E) (pe_l1 E)
     (queue_pull (pe_cfg E) (pe_codec E) (pe_Sender E) (pe_l1 E))"

abbreviation attributes_origin :: "attributes_state \<Rightarrow> l1_block_ref" where
  "attributes_origin \<equiv> AttributesQueue_Origin queue_origin"

text \<open>The error that wraps the error of a stage keeps its level. \<open>None\<close> overall if a stage does not return.\<close>

definition advance_stages :: "pipeline_env \<Rightarrow> derivation_pipeline \<Rightarrow> derr option \<times> derivation_pipeline" where
  "advance_stages E dp =
    (case EngineQueue_Step (pe_geth E) (pe_cfg E) (pe_engine E) attributes_origin (attributes_pull E) (dp_eng dp) of
       (Some EOF, eq) \<Rightarrow>
         (case AdvanceL1Block (pe_l1 E) (the_traversal eq) of
            (e, l1t) \<Rightarrow> (e, dp\<lparr>dp_eng := map_traversal (\<lambda>_. l1t) eq\<rparr>))
     | (e, eq) \<Rightarrow> (e, dp\<lparr>dp_eng := eq\<rparr>))"

definition DerivationPipeline_Step :: "pipeline_env \<Rightarrow> derivation_pipeline \<Rightarrow> (derr option \<times> derivation_pipeline) option" where
  "DerivationPipeline_Step E dp =
    (if dp_resetting dp < 1 then
       (case EngineQueue_ResetStep (pe_cfg E) (pe_engine E) (pe_l1 E) (dp_eng dp) of
          None \<Rightarrow> None
        | Some (Some EOF, eq) \<Rightarrow> Some (None, dp\<lparr>dp_resetting := dp_resetting dp + 1, dp_eng := eq\<rparr>)
        | Some (e, eq) \<Rightarrow> Some (e, dp\<lparr>dp_eng := eq\<rparr>))
     else if dp_pullResetIdx dp < length (pullStages E zero_l1) then
       Some (None, dp\<lparr>dp_pullResetIdx := dp_pullResetIdx dp + 1,
         dp_eng := (pullStages E (pr_Origin (eq_progress (dp_eng dp))) ! dp_pullResetIdx dp) (dp_eng dp)\<rparr>)
     else Some (advance_stages E dp))"

text \<open>Steps in a row, one environment each; \<open>None\<close> if one of them does not return or returns an error.\<close>

fun run_steps :: "pipeline_env list \<Rightarrow> derivation_pipeline \<Rightarrow> derivation_pipeline option" where
  "run_steps [] dp = Some dp"
| "run_steps (E # Es) dp =
    (case DerivationPipeline_Step E dp of Some (None, dp) \<Rightarrow> run_steps Es dp | _ \<Rightarrow> None)"

section \<open>Resetting\<close>

lemma length_pullStages [simp]: "length (pullStages E base) = 6"
  by (simp add: pullStages_def)

lemma map_stage_progress [simp]:
  "eq_progress (map_attributes f eq) = eq_progress eq"
  "eq_progress (map_batches f1 eq) = eq_progress eq"
  "eq_progress (map_reader f2 eq) = eq_progress eq"
  "eq_progress (map_bank f3 eq) = eq_progress eq"
  "eq_progress (map_retrieval f4 eq) = eq_progress eq"
  "eq_progress (map_traversal f5 eq) = eq_progress eq"
  by (simp_all add: map_stage_defs)

text \<open>A step that resets one pull stage.\<close>

lemma reset_pull_stage:
  assumes "dp_resetting dp = 1" and "dp_pullResetIdx dp < 6"
  shows "DerivationPipeline_Step E dp = Some (None, dp\<lparr>dp_pullResetIdx := Suc (dp_pullResetIdx dp),
    dp_eng := (pullStages E (pr_Origin (eq_progress (dp_eng dp))) ! dp_pullResetIdx dp) (dp_eng dp)\<rparr>)"
  using assms by (simp add: DerivationPipeline_Step_def)

text \<open>All pull stages, reset to the same L1 block; \<open>l1\<close> is the L1 client at the step that resets the retrieval.\<close>

definition reset_stages :: "pipeline_env \<Rightarrow> l1_block_ref \<Rightarrow> engine_state \<Rightarrow> engine_state" where
  "reset_stages E base =
     map_attributes (\<lambda>aq. aq\<lparr>aq_prev := \<lparr>bq_origin = base, bq_l1Blocks = [base], bq_batches = Map.empty,
       bq_prev = \<lparr>ci_nextBatchFn = None, ci_prev = \<lparr>cb_channels = [], cb_channelQueue = [],
         cb_prev = \<lparr>lr_datas = Some (NewDataSource (pe_cfg E) (pe_Sender E) (pe_l1 E) (L1BlockRef_ID base)),
           lr_prev = \<lparr>lt_block = base, lt_done = False\<rparr>\<rparr>\<rparr>\<rparr>\<rparr>\<rparr>)"

lemma pull_stages_reset:
  assumes "dp_resetting dp = 1" and "dp_pullResetIdx dp = 0" and base: "pr_Origin (eq_progress (dp_eng dp)) = base"
  shows "run_steps [E1, E2, E3, E4, E5, E6] dp = Some (dp\<lparr>dp_pullResetIdx := 6, dp_eng := reset_stages E5 base (dp_eng dp)\<rparr>)"
  using assms
  by (simp add: reset_pull_stage pullStages_def)
    (simp add: map_stage_defs reset_stages_def AttributesQueue_Reset_def BatchQueue_Reset_def ChannelInReader_Reset_def
      ChannelBank_Reset_def L1Retrieval_Reset_def L1Traversal_Reset_def numeral_eq_Suc)


definition sample_pipeline_env :: pipeline_env where
  "sample_pipeline_env = \<lparr>pe_cfg = sample_config, pe_geth = sample_geth, pe_codec = sample_rlp,
     pe_Sender = (\<lambda>cfg tx. None), pe_l1 = sample_l1_client, pe_engine = sample_engine\<rparr>"


section \<open>The invariant\<close>

text \<open>The channel bank and the queue of payloads are in order; once the heads are known, so are they.\<close>

definition pipeline_inv :: "(hash \<Rightarrow> u64) \<Rightarrow> derivation_pipeline \<Rightarrow> bool" where
  "pipeline_inv num dp \<longleftrightarrow> wf_bank (the_bank (dp_eng dp)) \<and> wf_payloads (eq_unsafePayloads (dp_eng dp))
    \<and> (if dp_resetting dp = 0 then True else heads_inv num (dp_eng dp))"

lemma the_bank_map [simp]:
  "the_bank (map_traversal f eq) = (the_bank eq)\<lparr>cb_prev := (cb_prev (the_bank eq))\<lparr>lr_prev := f (the_traversal eq)\<rparr>\<rparr>"
  by (simp add: the_bank_def the_traversal_def map_stage_defs)

lemma heads_inv_map_attributes [simp]: "heads_inv num (map_attributes f eq) \<longleftrightarrow> heads_inv num eq"
  by (simp add: heads_inv_def map_attributes_def)

lemma heads_inv_map_traversal [simp]: "heads_inv num (map_traversal f eq) \<longleftrightarrow> heads_inv num eq"
  by (simp add: heads_inv_def map_stage_defs)

lemma payloads_map_traversal [simp]: "eq_unsafePayloads (map_traversal f eq) = eq_unsafePayloads eq"
  by (simp add: map_stage_defs)

lemma pull_reset_inv:
  assumes "i < 6" and "wf_bank (the_bank eq)"
  shows "wf_bank (the_bank ((pullStages E base ! i) eq))"
    and "heads_inv num ((pullStages E base ! i) eq) \<longleftrightarrow> heads_inv num eq"
    and "eq_unsafePayloads ((pullStages E base ! i) eq) = eq_unsafePayloads eq"
proof -
  from assms(1) consider "i = 0" | "i = 1" | "i = 2" | "i = 3" | "i = 4" | "i = 5" by linarith
  then have "wf_bank (the_bank ((pullStages E base ! i) eq)) \<and> (heads_inv num ((pullStages E base ! i) eq) \<longleftrightarrow> heads_inv num eq)
      \<and> eq_unsafePayloads ((pullStages E base ! i) eq) = eq_unsafePayloads eq"
    by cases (use assms(2) in \<open>simp_all add: pullStages_def map_stage_defs the_bank_def heads_inv_def
      AttributesQueue_Reset_def BatchQueue_Reset_def ChannelInReader_Reset_def\<close>)
  then show "wf_bank (the_bank ((pullStages E base ! i) eq))" "heads_inv num ((pullStages E base ! i) eq) \<longleftrightarrow> heads_inv num eq"
    "eq_unsafePayloads ((pullStages E base ! i) eq) = eq_unsafePayloads eq" by simp_all
qed

text \<open>Pulling attributes keeps the channel bank in order.\<close>

lemma engine_step_bank:
  assumes "EngineQueue_Step (pe_geth E) (pe_cfg E) (pe_engine E) attributes_origin (attributes_pull E) eq = (e, eq')"
    and "wf_bank (the_bank eq)"
  shows "wf_bank (the_bank eq')"
  using Step_prev(1) [OF assms(1)]
    attributes_queue.attributes.pull_inv [of "eq_prev eq" "pe_geth E" "pe_cfg E" "pe_l1 E"] assms(2)
  by (auto simp: the_bank_def)

lemma advance_stages_inv:
  assumes "advance_stages E dp = (e, dp')" and "pipeline_inv num dp" and "honest_engine num (pe_cfg E) (pe_engine E)"
    and "dp_resetting dp \<noteq> 0"
  shows "pipeline_inv num dp'"
proof -
  obtain e1 eq where step: "EngineQueue_Step (pe_geth E) (pe_cfg E) (pe_engine E) attributes_origin (attributes_pull E)
      (dp_eng dp) = (e1, eq)" by fastforce
  have bank: "wf_bank (the_bank eq)" using engine_step_bank [OF step] assms(2) by (simp add: pipeline_inv_def)
  have heads: "heads_inv num eq" using Step_inv [OF _ assms(3) step] assms(2,4) by (simp add: pipeline_inv_def)
  then have wf: "wf_payloads (eq_unsafePayloads eq)" by (simp add: heads_inv_def)
  have "pipeline_inv num (dp\<lparr>dp_eng := eq\<rparr>)" "pipeline_inv num (dp\<lparr>dp_eng := map_traversal f eq\<rparr>)" for f
    using bank heads wf by (simp_all add: pipeline_inv_def)
  with assms(1) step show ?thesis
    by (auto simp: advance_stages_def split: option.splits derr.splits prod.splits)
qed

lemma Step_pipeline_inv:
  assumes "DerivationPipeline_Step E dp = Some (e, dp')" and "pipeline_inv num dp"
    and "honest_engine num (pe_cfg E) (pe_engine E)"
  shows "pipeline_inv num dp'"
proof (cases "dp_resetting dp = 0")
  case True
  with assms(1) obtain e1 eq where reset:
    "EngineQueue_ResetStep (pe_cfg E) (pe_engine E) (pe_l1 E) (dp_eng dp) = Some (e1, eq)"
    by (auto simp: DerivationPipeline_Step_def split: option.splits)
  show ?thesis
  proof (cases "e1 = Some EOF")
    case False
    with assms(1) True reset have "dp_eng dp' = eq" "dp_resetting dp' = 0"
      by (auto simp: DerivationPipeline_Step_def split: option.splits derr.splits)
    with ResetStep_failed [OF reset False] assms(2) show ?thesis by (simp add: pipeline_inv_def)
  next
    case ok: True
    have "heads_inv num eq"
      using ResetStep_inv [OF reset [unfolded ok]] assms(2,3) by (simp add: pipeline_inv_def honest_engine_def)
    moreover have "eq_prev eq = eq_prev (dp_eng dp)"
      using reset ok by (auto simp: EngineQueue_ResetStep_def Let_def split: option.splits sum.splits if_splits)
    moreover have "dp_eng dp' = eq" "dp_resetting dp' = 1"
      using assms(1) True reset ok by (auto simp: DerivationPipeline_Step_def)
    ultimately show ?thesis using assms(2) by (simp add: pipeline_inv_def the_bank_def heads_inv_def)
  qed
next
  case False
  show ?thesis
  proof (cases "dp_pullResetIdx dp < 6")
    case True
    let ?base = "pr_Origin (eq_progress (dp_eng dp))"
    have "dp' = dp\<lparr>dp_pullResetIdx := Suc (dp_pullResetIdx dp),
        dp_eng := (pullStages E ?base ! dp_pullResetIdx dp) (dp_eng dp)\<rparr>"
      using assms(1) False True by (auto simp: DerivationPipeline_Step_def)
    with pull_reset_inv(1,3) [OF True, of "dp_eng dp" E ?base] pull_reset_inv(2) [OF True, of "dp_eng dp" num E ?base]
      assms(2) False show ?thesis
      by (simp add: pipeline_inv_def)
  next
    case idx: False
    with assms(1) False have "advance_stages E dp = (e, dp')" by (simp add: DerivationPipeline_Step_def)
    then show ?thesis using advance_stages_inv assms(2,3) False by blast
  qed
qed

text \<open>The transitions of the pipeline as the driver uses it, with an honest engine at every step.\<close>

inductive pipeline_trans :: "(hash \<Rightarrow> u64) \<Rightarrow> derivation_pipeline \<Rightarrow> derivation_pipeline \<Rightarrow> bool" for num where
  step: "\<lbrakk>honest_engine num (pe_cfg E) (pe_engine E); DerivationPipeline_Step E dp = Some (e, dp')\<rbrakk> \<Longrightarrow> pipeline_trans num dp dp'"
| reset: "pipeline_trans num dp (DerivationPipeline_Reset dp)"
| final: "pipeline_trans num dp (DerivationPipeline_Finalize i dp)"
| head: "pipeline_trans num dp (DerivationPipeline_SetUnsafeHead h dp)"
| payload: "DerivationPipeline_AddUnsafePayload p dp = Some (e, dp') \<Longrightarrow> pipeline_trans num dp dp'"

lemma AddUnsafePayload_pipeline_inv:
  assumes "DerivationPipeline_AddUnsafePayload p dp = Some (e, dp')" and "pipeline_inv num dp"
  shows "pipeline_inv num dp'"
proof -
  from assms(2) have wf: "wf_payloads (eq_unsafePayloads (dp_eng dp))" by (simp add: pipeline_inv_def)
  obtain upq where upq: "AddUnsafePayload p (dp_eng dp) = Some (None, (dp_eng dp)\<lparr>eq_unsafePayloads := upq\<rparr>)"
    "wf_payloads upq"
  proof (cases p)
    case None
    with that [of "eq_unsafePayloads (dp_eng dp)"] wf show ?thesis by (simp add: AddUnsafePayload_def)
  next
    case (Some pl)
    obtain err upq where "PayloadsQueue_Push (Some pl) (eq_unsafePayloads (dp_eng dp)) = Some (err, upq)"
      "wf_payloads upq" "err = None \<Longrightarrow> upq_pq upq \<noteq> []"
      by (rule PayloadsQueue_Push_wf [OF wf]) blast
    with that Some show ?thesis by (cases err) (simp_all add: AddUnsafePayload_def PayloadsQueue_Peek_def)
  qed
  with assms show ?thesis
    by (auto simp: DerivationPipeline_AddUnsafePayload_def pipeline_inv_def the_bank_def heads_inv_def)
qed

lemma pipeline_trans_inv: "pipeline_trans num dp dp' \<Longrightarrow> pipeline_inv num dp \<Longrightarrow> pipeline_inv num dp'"
proof (induction rule: pipeline_trans.induct)
  case (final dp i)
  have "heads_inv num (dp_eng dp) \<Longrightarrow> heads_inv num (Finalize i (dp_eng dp))" by (rule Finalize_inv)
  moreover have "the_bank (Finalize i (dp_eng dp)) = the_bank (dp_eng dp)"
    "eq_unsafePayloads (Finalize i (dp_eng dp)) = eq_unsafePayloads (dp_eng dp)"
    by (simp_all add: Finalize_def tryFinalizeL2_def the_bank_def)
  ultimately show ?case using final by (simp add: DerivationPipeline_Finalize_def pipeline_inv_def)
next
  case (step E dp e dp')
  then show ?case using Step_pipeline_inv by blast
next
  case (payload p dp e dp')
  then show ?case using AddUnsafePayload_pipeline_inv by blast
qed (auto simp: DerivationPipeline_Reset_def DerivationPipeline_SetUnsafeHead_def SetUnsafeHead_def pipeline_inv_def
    the_bank_def heads_inv_def)

lemma new_pipeline_inv: "pipeline_inv num NewDerivationPipeline"
  by (simp add: pipeline_inv_def NewDerivationPipeline_def Let_def the_bank_def NewEngineQueue_def NewAttributesQueue_def
      NewBatchQueue_def NewChannelInReader_def wf_payloads_def wf_sizes_def is_heap_def total_size_def
      maxUnsafePayloadsMemory_def)


definition sample_pipeline :: derivation_pipeline where
  "sample_pipeline = DerivationPipeline_Finalize \<lparr>id_Hash = 9, id_Number = 5\<rparr>
     (snd (the (DerivationPipeline_Step sample_pipeline_env NewDerivationPipeline)))"

lemma sample_pipeline_step:
  "DerivationPipeline_Step sample_pipeline_env NewDerivationPipeline
    = Some (None, NewDerivationPipeline\<lparr>dp_resetting := 1, dp_eng := reset_queue (eq_prev (dp_eng NewDerivationPipeline))\<rparr>)"
proof -
  have "dp_eng NewDerivationPipeline = NewEngineQueue (eq_prev (dp_eng NewDerivationPipeline))"
    by (simp add: NewDerivationPipeline_def Let_def NewEngineQueue_def)
  then have "EngineQueue_ResetStep sample_config sample_engine sample_l1_client (dp_eng NewDerivationPipeline)
      = Some (Some EOF, reset_queue (eq_prev (dp_eng NewDerivationPipeline)))"
    using sample_reset by metis
  moreover have "dp_resetting NewDerivationPipeline = 0" by (simp add: NewDerivationPipeline_def Let_def)
  ultimately show ?thesis by (simp add: DerivationPipeline_Step_def sample_pipeline_env_def)
qed


section \<open>What survives a reset\<close>

text \<open>
  Attributes derived before a reset are executed after it: resetting the engine queue keeps the
  buffered attributes. If the new safe head is also the unsafe head, the next step builds a block from
  the old attributes on top of the new safe head and declares it safe, with the timestamp of the old
  attributes, whatever the timestamp of the new safe head, and without asking the stages that were
  reset for anything.
\<close>

lemma stale_attributes_become_safe:
  assumes reset: "EngineQueue_ResetStep cfg eng l1 eq = Some (Some EOF, eq1)"
    and stale: "eq_safeAttributes eq = attrs # rest"
    and heads: "l2_Number (eq_safeHead eq1) = l2_Number (eq_unsafeHead eq1)"
    and accepted: "InsertHeadBlock eng (safe_forkchoice eq1) attrs True = (Some payload, BlockInsertOK, None)"
    and decoded: "PayloadToBlockRef (g_tx G) payload (Genesis cfg) = Inr ref"
    and builds: "builds_child num eng"
  shows "\<exists>eq2. EngineQueue_Step G cfg eng org next eq1 = (None, eq2) \<and> eq_safeHead eq2 = ref \<and> eq_prev eq2 = eq_prev eq1
    \<and> l2_ParentHash ref = l2_Hash (eq_safeHead eq1) \<and> l2_Time ref = at_Timestamp attrs"
proof -
  have attrs: "eq_safeAttributes eq1 = attrs # rest"
    using reset stale by (auto simp: EngineQueue_ResetStep_def Let_def split: option.splits sum.splits if_splits)
  have "inserted eng (safe_forkchoice eq1) attrs True payload" using InsertHeadBlock_ok [OF accepted] by simp
  then have "pl_ParentHash payload = l2_Hash (eq_safeHead eq1) \<and> pl_Timestamp payload = at_Timestamp attrs"
    using builds unfolding inserted_def builds_child_def by fastforce
  then have "l2_ParentHash ref = l2_Hash (eq_safeHead eq1)" "l2_Time ref = at_Timestamp attrs"
    using PayloadToBlockRef_fields [OF decoded] by simp_all
  moreover have "EngineQueue_Step G cfg eng org next eq1
      = (None, postProcessSafeL2 org (eq1\<lparr>eq_safeHead := ref, eq_unsafeHead := ref, eq_safeAttributes := rest\<rparr>))"
    using attrs heads accepted decoded
    by (simp add: EngineQueue_Step_def tryNextSafeAttributes_def forceNextSafeAttributes_def)
  ultimately show ?thesis by simp
qed

end
