(* ===== verification/Channel_Out.thy ===== *)
theory Channel_Out
  imports Channel_In
begin

text \<open>
  Writing channels: \<^verbatim>\<open>op-node/rollup/derive/channel_out.go\<close>, the batcher's side of the frame and batch
  encodings. The zlib compressor is a parameter with a state of its own: every call returns the bytes
  it appends to the output buffer.
\<close>

record 'z zlib_writer =
  zw_New :: 'z
  zw_Write :: "bytes \<Rightarrow> 'z \<Rightarrow> bytes \<times> 'z"
  zw_Flush :: "'z \<Rightarrow> bytes \<times> 'z"
  zw_Close :: "'z \<Rightarrow> bytes \<times> 'z"

record 'z channel_out =
  co_id :: channel_id
  co_frame :: u64
  co_offset :: u64
  co_scratch :: bytes
  co_compress :: 'z
  co_buf :: bytes
  co_closed :: bool

text \<open>The random channel id is an argument; \<open>None\<close> is a failure of the random source.\<close>

definition NewChannelOut :: "'z zlib_writer \<Rightarrow> channel_id option \<Rightarrow> 'z channel_out option" where
  "NewChannelOut Z rand = map_option (\<lambda>i.
     \<lparr>co_id = i, co_frame = 0, co_offset = 0, co_scratch = [], co_compress = zw_New Z, co_buf = [],
      co_closed = False\<rparr>) rand"

definition ChannelOut_Reset :: "'z zlib_writer \<Rightarrow> channel_id option \<Rightarrow> 'z channel_out \<Rightarrow> bool \<times> 'z channel_out" where
  "ChannelOut_Reset Z rand co =
    (let co = co\<lparr>co_frame := 0, co_offset := 0, co_buf := [], co_scratch := [], co_compress := zw_New Z,
         co_closed := False\<rparr>
     in case rand of None \<Rightarrow> (False, co) | Some i \<Rightarrow> (True, co\<lparr>co_id := i\<rparr>))"

section \<open>Blocks and batches\<close>

text \<open>A transaction and a block of go-ethereum, as the methods used here show them.\<close>

record block_tx =
  btx_Type :: byte
  btx_Data :: bytes
  btx_MarshalBinary :: "cause + bytes"

record l2_block =
  blk_Hash :: hash
  blk_ParentHash :: hash
  blk_NumberU64 :: u64
  blk_Time :: u64
  blk_Transactions :: "block_tx list"

fun opaque_txs :: "block_tx list \<Rightarrow> cause + bytes list" where
  "opaque_txs [] = Inr []"
| "opaque_txs (tx # txs) =
    (if btx_Type tx = DepositTxType then opaque_txs txs
     else case btx_MarshalBinary tx of
         Inl c \<Rightarrow> Inl c
       | Inr otx \<Rightarrow> (case opaque_txs txs of Inl c \<Rightarrow> Inl c | Inr otxs \<Rightarrow> Inr (otx # otxs)))"

definition block_batch :: "l2_block \<Rightarrow> derr + batch_data" where
  "block_batch block =
    (case opaque_txs (blk_Transactions block) of
       Inl c \<Rightarrow> Inl (Plain c)
     | Inr opaqueTxs \<Rightarrow>
         (case blk_Transactions block of
            [] \<Rightarrow> Inl (Panic ''index out of range'')
          | l1InfoTx # _ \<Rightarrow>
              if btx_Type l1InfoTx \<noteq> DepositTxType
              then Inl (Plain ''first transaction in block is not a deposit tx'')
              else (case L1InfoDepositTxData (btx_Data l1InfoTx) of
                  Inl c \<Rightarrow> Inl (Plain c)
                | Inr l1Info \<Rightarrow> Inr \<lparr>bt_ParentHash = blk_ParentHash block, bt_EpochNum = li_Number l1Info,
                    bt_EpochHash = li_BlockHash l1Info, bt_Timestamp = blk_Time block,
                    bt_Transactions = opaqueTxs\<rparr>)))"

text \<open>The bytes that \<^verbatim>\<open>blockToBatch\<close> writes to the compressor.\<close>

definition blockToBatch :: "batch_codec \<Rightarrow> l2_block \<Rightarrow> derr + bytes" where
  "blockToBatch C block =
    (case block_batch block of Inl e \<Rightarrow> Inl e | Inr batch \<Rightarrow> Inr (BatchData_EncodeRLP C batch))"

definition AddBlock :: "batch_codec \<Rightarrow> 'z zlib_writer \<Rightarrow> l2_block \<Rightarrow> 'z channel_out
    \<Rightarrow> derr option \<times> 'z channel_out" where
  "AddBlock C Z block co =
    (if co_closed co then (Some (Plain ''already closed''), co)
     else case blockToBatch C block of
         Inl e \<Rightarrow> (Some e, co)
       | Inr bs \<Rightarrow> (let (out, z) = zw_Write Z bs (co_compress co)
                   in (None, co\<lparr>co_compress := z, co_buf := co_buf co @ out\<rparr>)))"

definition ReadyBytes :: "'z channel_out \<Rightarrow> nat" where
  "ReadyBytes co = length (co_buf co)"

definition ChannelOut_Flush :: "'z zlib_writer \<Rightarrow> 'z channel_out \<Rightarrow> 'z channel_out" where
  "ChannelOut_Flush Z co =
    (let (out, z) = zw_Flush Z (co_compress co) in co\<lparr>co_compress := z, co_buf := co_buf co @ out\<rparr>)"

definition ChannelOut_Close :: "'z zlib_writer \<Rightarrow> 'z channel_out \<Rightarrow> derr option \<times> 'z channel_out" where
  "ChannelOut_Close Z co =
    (if co_closed co then (Some (Plain ''already closed''), co)
     else let (out, z) = zw_Close Z (co_compress co)
       in (None, co\<lparr>co_closed := True, co_compress := z, co_buf := co_buf co @ out\<rparr>))"

section \<open>Frames\<close>

text \<open>
  \<^verbatim>\<open>OutputFrame\<close>: whether it returned \<^verbatim>\<open>io.EOF\<close>, the frame written, and the channel afterwards. The
  subtraction of the overhead is unsigned. The read of the buffer never fails, since at most its
  length is asked for.
\<close>

definition OutputFrame :: "u64 \<Rightarrow> 'z channel_out \<Rightarrow> bool \<times> bytes \<times> 'z channel_out" where
  "OutputFrame maxSize co =
    (let maxDataSize = maxSize - 47 - 1;
         bufLen = (word_of_nat (length (co_buf co)) :: u64);
         (size, isLast) = (if maxDataSize > bufLen then (bufLen, co_closed co) else (maxDataSize, False));
         f = \<lparr>f_ID = co_id co, f_FrameNumber = ucast (co_frame co),
              f_Data = take (unat size) (co_buf co), f_IsLast = isLast\<rparr>
     in (isLast, Frame_MarshalBinary f,
         co\<lparr>co_frame := co_frame co + 1, co_buf := drop (unat size) (co_buf co)\<rparr>))"

text \<open>
  Pulling frames until \<^verbatim>\<open>io.EOF\<close>, the way the batcher does. The loop does not end for every \<^verbatim>\<open>maxSize\<close>,
  so it takes the number of frames it may output; \<open>None\<close> means that this was not enough.
\<close>

fun output_frames :: "nat \<Rightarrow> u64 \<Rightarrow> 'z channel_out \<Rightarrow> bytes list option" where
  "output_frames 0 maxSize co = None"
| "output_frames (Suc n) maxSize co =
    (case OutputFrame maxSize co of
       (eof, out, co) \<Rightarrow> if eof then Some [out] else map_option ((#) out) (output_frames n maxSize co))"

section \<open>What the frames hold\<close>

text \<open>The pieces a buffer is cut into: full ones, then a last one that is shorter, possibly empty.\<close>

function chunks :: "nat \<Rightarrow> bytes \<Rightarrow> bytes list" where
  "chunks n bs = (if n = 0 \<or> length bs < n then [bs] else take n bs # chunks n (drop n bs))"
  by pat_completeness auto
termination by (relation "measure (\<lambda>(n, bs). length bs)") auto

declare chunks.simps [simp del]

lemma concat_chunks [simp]: "concat (chunks n bs) = bs"
proof (induction n bs rule: chunks.induct)
  case (1 n bs)
  show ?case
  proof (cases "n = 0 \<or> length bs < n")
    case False
    then show ?thesis using 1 by (subst chunks.simps) simp
  qed (subst chunks.simps, simp)
qed

lemma chunks_nonempty [simp]: "chunks n bs \<noteq> []"
  by (subst chunks.simps) simp

lemma length_chunks: "0 < n \<Longrightarrow> length (chunks n bs) = Suc (length bs div n)"
proof (induction n bs rule: chunks.induct)
  case (1 n bs)
  show ?case
  proof (cases "length bs < n")
    case True
    then show ?thesis by (subst chunks.simps) simp
  next
    case False
    with 1 have "length (chunks n (drop n bs)) = Suc ((length bs - n) div n)" by simp
    with False 1(2) show ?thesis by (subst chunks.simps) (simp add: le_div_geq)
  qed
qed

lemma chunks_size: "0 < n \<Longrightarrow> c \<in> set (chunks n bs) \<Longrightarrow> length c \<le> n"
proof (induction n bs rule: chunks.induct)
  case (1 n bs)
  show ?case
  proof (cases "length bs < n")
    case True
    with 1 show ?thesis by (subst (asm) chunks.simps) simp
  next
    case False
    with 1 show ?thesis by (subst (asm) (2) chunks.simps) (auto simp: min_def)
  qed
qed

text \<open>The frames for a list of pieces, numbered from \<open>k\<close>.\<close>

fun frames_from :: "channel_id \<Rightarrow> nat \<Rightarrow> bytes list \<Rightarrow> frame list" where
  "frames_from i k [] = []"
| "frames_from i k (d # ds) =
     \<lparr>f_ID = i, f_FrameNumber = word_of_nat k, f_Data = d, f_IsLast = (ds = [])\<rparr> # frames_from i (Suc k) ds"

lemma length_frames_from [simp]: "length (frames_from i k ds) = length ds"
  by (induction ds arbitrary: k) auto

lemma frames_from_nth:
  "n < length ds \<Longrightarrow> frames_from i k ds ! n =
     \<lparr>f_ID = i, f_FrameNumber = word_of_nat (k + n), f_Data = ds ! n, f_IsLast = (Suc n = length ds)\<rparr>"
proof (induction ds arbitrary: k n)
  case (Cons d ds)
  then show ?case by (cases n) auto
qed simp

lemma frame_sequence_frames_from: "frame_sequence i ds = frames_from i 0 ds"
  by (rule nth_equalityI) (simp_all add: frame_sequence_sel frames_from_nth)

lemma ucast_frame_number: "(ucast (word_of_nat k :: u64) :: u16) = word_of_nat k"
  by (simp add: unsigned_of_nat word_of_nat_eq_iff)

lemma max_data_size:
  "48 \<le> unat maxSize \<Longrightarrow> unat (maxSize - 48 :: u64) = unat maxSize - 48"
  "unat maxSize < 48 \<Longrightarrow> unat (maxSize - 48 :: u64) = unat maxSize + (2 ^ 64 - 48)"
  by (simp_all add: unat_sub_if')

lemma OutputFrame_step:
  assumes size: "48 \<le> unat maxSize" and buf: "length (co_buf co) < 2 ^ 64"
    and closed: "co_closed co" and frame: "co_frame co = word_of_nat k"
  shows "OutputFrame maxSize co =
    (let m = unat maxSize - 48; isLast = (length (co_buf co) < m);
         size = (if isLast then length (co_buf co) else m)
     in (isLast, Frame_MarshalBinary \<lparr>f_ID = co_id co, f_FrameNumber = word_of_nat k,
           f_Data = take size (co_buf co), f_IsLast = isLast\<rparr>,
         co\<lparr>co_frame := word_of_nat (Suc k), co_buf := drop size (co_buf co)\<rparr>))"
proof -
  have len: "unat (word_of_nat (length (co_buf co)) :: u64) = length (co_buf co)"
    using buf by (simp add: unat_of_nat)
  show ?thesis
    using closed frame
    by (simp add: OutputFrame_def Let_def word_less_nat_alt max_data_size(1) [OF size] len
        ucast_frame_number add.commute)
qed

lemma output_frames_chunks:
  assumes size: "48 < unat maxSize" and "length (co_buf co) < 2 ^ 64" and "co_closed co"
    and "co_frame co = word_of_nat k"
  shows "output_frames (length (chunks (unat maxSize - 48) (co_buf co))) maxSize co
    = Some (map Frame_MarshalBinary (frames_from (co_id co) k (chunks (unat maxSize - 48) (co_buf co))))"
  using assms(2-)
proof (induction "length (co_buf co)" arbitrary: co k rule: less_induct)
  case less
  let ?m = "unat maxSize - 48"
  note step = OutputFrame_step [OF less_imp_le [OF size] less.prems]
  show ?case
  proof (cases "length (co_buf co) < ?m")
    case True
    then have "chunks ?m (co_buf co) = [co_buf co]" by (subst chunks.simps) simp
    with True step show ?thesis by (simp add: Let_def)
  next
    case False
    let ?co = "co\<lparr>co_frame := word_of_nat (Suc k), co_buf := drop ?m (co_buf co)\<rparr>"
    have chunks: "chunks ?m (co_buf co) = take ?m (co_buf co) # chunks ?m (drop ?m (co_buf co))"
      using False size by (subst chunks.simps) simp
    have "output_frames (length (chunks ?m (co_buf ?co))) maxSize ?co
        = Some (map Frame_MarshalBinary (frames_from (co_id ?co) (Suc k) (chunks ?m (co_buf ?co))))"
      by (rule less.hyps) (use False size less.prems in auto)
    with False step show ?thesis by (simp add: chunks Let_def)
  qed
qed

text \<open>
  C34. The frames a closed channel is cut into: for every size limit above 48 the loop over \<^verbatim>\<open>OutputFrame\<close>
  ends after \<open>length buf div (maxSize - 48) + 1\<close> frames; these are numbered from 0, only the last one is
  marked as such, their data is the buffer cut into pieces of \<open>maxSize - 48\<close> bytes, and together with the
  version byte no frame exceeds the limit.
\<close>

theorem output_frames_correct:
  assumes "48 < unat maxSize" and "length (co_buf co) < 2 ^ 64" and "co_closed co" and "co_frame co = 0"
  shows "\<exists>outs. output_frames (Suc (length (co_buf co) div (unat maxSize - 48))) maxSize co = Some outs
    \<and> outs = map Frame_MarshalBinary (frame_sequence (co_id co) (chunks (unat maxSize - 48) (co_buf co)))
    \<and> (\<forall>out\<in>set outs. 1 + length out \<le> unat maxSize)"
proof -
  let ?fs = "frame_sequence (co_id co) (chunks (unat maxSize - 48) (co_buf co))"
  have "f_Data f \<in> set (chunks (unat maxSize - 48) (co_buf co))" if "f \<in> set ?fs" for f
    using that by (auto simp: frame_sequence_def)
  with chunks_size assms(1) have "length (f_Data f) \<le> unat maxSize - 48" if "f \<in> set ?fs" for f
    using that zero_less_diff by blast
  then have "1 + length (Frame_MarshalBinary f) \<le> unat maxSize" if "f \<in> set ?fs" for f
    using that assms(1) by (fastforce simp: Frame_MarshalBinary_body length_frame_body)
  moreover have "output_frames (Suc (length (co_buf co) div (unat maxSize - 48))) maxSize co
      = Some (map Frame_MarshalBinary ?fs)"
    using output_frames_chunks [OF assms(1-3), of 0] assms(1,4)
    by (simp add: length_chunks frame_sequence_frames_from)
  ultimately show ?thesis by auto
qed

definition sample_out :: "unit channel_out" where
  "sample_out = \<lparr>co_id = 9, co_frame = 0, co_offset = 0, co_scratch = [], co_compress = (),
     co_buf = [1, 2, 3, 4, 5], co_closed = True\<rparr>"

theorem output_frames_correct_witness:
  "\<exists>outs. output_frames (Suc (length (co_buf sample_out) div (unat (50 :: u64) - 48))) 50 sample_out = Some outs
    \<and> outs = map Frame_MarshalBinary
        (frame_sequence (co_id sample_out) (chunks (unat (50 :: u64) - 48) (co_buf sample_out)))
    \<and> (\<forall>out\<in>set outs. 1 + length out \<le> unat (50 :: u64))"
  by (rule output_frames_correct) (simp_all add: sample_out_def)

lemma output_frames_48:
  assumes "co_closed co" and "length (co_buf co) < 2 ^ 64"
  shows "output_frames n 48 co = None"
  using assms
proof (induction n arbitrary: co)
  case (Suc n)
  then show ?case by (simp add: OutputFrame_def Let_def)
qed simp

lemma OutputFrame_small_limit:
  assumes "unat maxSize < 48" and "length (co_buf co) < 2 ^ 63" and "co_closed co"
  shows "OutputFrame maxSize co = (True, Frame_MarshalBinary \<lparr>f_ID = co_id co,
      f_FrameNumber = ucast (co_frame co), f_Data = co_buf co, f_IsLast = True\<rparr>,
    co\<lparr>co_frame := co_frame co + 1, co_buf := []\<rparr>)"
proof -
  have len: "unat (word_of_nat (length (co_buf co)) :: u64) = length (co_buf co)"
    using assms(2) by (simp add: unat_of_nat)
  have "length (co_buf co) < unat (maxSize - 48)"
    using assms(1,2) by (simp add: max_data_size(2))
  then show ?thesis
    using assms(3) by (simp add: OutputFrame_def Let_def word_less_nat_alt len)
qed

text \<open>
  The size limit is not checked against the overhead. With a limit of exactly 48 every frame is
  empty and none is the last, so the loop over a closed channel never ends; with a smaller limit the
  unsigned subtraction wraps around and a single frame holds the whole buffer, whatever its size.
\<close>

lemma OutputFrame_limit_unchecked:
  assumes "co_closed co" and "length (co_buf co) < 2 ^ 63" and "unat maxSize < 48"
  shows "output_frames n 48 co = None
    \<and> output_frames (Suc n) maxSize co
        = Some [Frame_MarshalBinary \<lparr>f_ID = co_id co, f_FrameNumber = ucast (co_frame co),
                  f_Data = co_buf co, f_IsLast = True\<rparr>]"
  using output_frames_48 [OF assms(1)] OutputFrame_small_limit [OF assms(3,2,1)] assms(2) by simp

end
