(* ===== verification/Batcher.thy ===== *)
theory Batcher
  imports Channel_Out
begin

text \<open>
  The batch submitter: the main loop of \<^verbatim>\<open>op-batcher/batch_submitter.go\<close>, which puts the L2 blocks since
  the last submission into one channel and publishes its frames, one transaction each. What the rollup
  node, the L2 node, the L1 client and the transaction manager answer is an environment.
\<close>

section \<open>Transactions\<close>

record dynamic_fee_tx =
  dtx_ChainID :: int
  dtx_Nonce :: u64
  dtx_To :: address
  dtx_GasTipCap :: int
  dtx_GasFeeCap :: int
  dtx_Gas :: u64
  dtx_Data :: bytes

record batcher_config =
  bc_MaxL1TxSize :: u64
  bc_BatchInboxAddress :: address
  bc_ChainID :: int

definition CalcGasFeeCap :: "int \<Rightarrow> int \<Rightarrow> int" where
  "CalcGasFeeCap baseFee gasTipCap = gasTipCap + baseFee * 2"

text \<open>
  The gas tip and the base fee of the head are the answers of the L1 client, the intrinsic gas that of
  go-ethereum. The result is the transaction that is then signed.
\<close>

definition CraftTx ::
    "batcher_config \<Rightarrow> cause + int \<Rightarrow> cause + int \<Rightarrow> (bytes \<Rightarrow> cause + u64) \<Rightarrow> bytes \<Rightarrow> u64 \<Rightarrow> cause + dynamic_fee_tx" where
  "CraftTx cfg tip head IntrinsicGas data nonce =
    (case tip of Inl c \<Rightarrow> Inl c | Inr gasTipCap \<Rightarrow>
     case head of Inl c \<Rightarrow> Inl c | Inr baseFee \<Rightarrow>
     case IntrinsicGas data of Inl c \<Rightarrow> Inl c | Inr gas \<Rightarrow>
       Inr \<lparr>dtx_ChainID = bc_ChainID cfg, dtx_Nonce = nonce, dtx_To = bc_BatchInboxAddress cfg,
         dtx_GasTipCap = gasTipCap, dtx_GasFeeCap = CalcGasFeeCap baseFee gasTipCap, dtx_Gas = gas,
         dtx_Data = data\<rparr>)"

definition UpdateGasPrice ::
    "batcher_config \<Rightarrow> cause + int \<Rightarrow> cause + int \<Rightarrow> dynamic_fee_tx \<Rightarrow> cause + dynamic_fee_tx" where
  "UpdateGasPrice cfg tip head tx =
    (case tip of Inl c \<Rightarrow> Inl c | Inr gasTipCap \<Rightarrow>
     case head of Inl c \<Rightarrow> Inl c | Inr baseFee \<Rightarrow>
       Inr \<lparr>dtx_ChainID = bc_ChainID cfg, dtx_Nonce = dtx_Nonce tx, dtx_To = dtx_To tx,
         dtx_GasTipCap = gasTipCap, dtx_GasFeeCap = CalcGasFeeCap baseFee gasTipCap, dtx_Gas = dtx_Gas tx,
         dtx_Data = dtx_Data tx\<rparr>)"

text \<open>Whatever the gas prices become, the transaction keeps its target, its nonce and its data.\<close>

lemma updated_tx_payload:
  assumes "CraftTx cfg tip head IntrinsicGas data nonce = Inr tx" and "UpdateGasPrice cfg tip' head' tx = Inr tx'"
  shows "dtx_To tx' = bc_BatchInboxAddress cfg \<and> dtx_Data tx' = data \<and> dtx_Nonce tx' = nonce
    \<and> dtx_Gas tx' = dtx_Gas tx"
  using assms by (auto simp: CraftTx_def UpdateGasPrice_def split: sum.splits)

section \<open>The main loop\<close>

record sync_status =
  ss_CurrentL1 :: l1_block_ref
  ss_HeadL1 :: l1_block_ref
  ss_SafeL1 :: l1_block_ref
  ss_FinalizedL1 :: l1_block_ref
  ss_UnsafeL2 :: l2_block_ref
  ss_SafeL2 :: l2_block_ref
  ss_FinalizedL2 :: l2_block_ref

text \<open>
  The environment of one iteration. The L1 client answers, for the transaction with index \<open>k\<close>, the
  nonce, the suggested gas tip and the base fee of the head. The transaction manager gets the closure
  that updates the gas prices and reports an error if no transaction was confirmed.
\<close>

record batcher_env =
  be_SyncStatus :: "cause + sync_status"
  be_Rand :: "channel_id option"
  be_BlockByNumber :: "u64 \<Rightarrow> cause + l2_block"
  be_NonceAt :: "nat \<Rightarrow> cause + u64"
  be_GasTipCap :: "nat \<Rightarrow> cause + int"
  be_BaseFee :: "nat \<Rightarrow> cause + int"
  be_IntrinsicGas :: "bytes \<Rightarrow> cause + u64"
  be_Send :: "nat \<Rightarrow> (cause + int \<Rightarrow> cause + int \<Rightarrow> cause + dynamic_fee_tx) \<Rightarrow> cause option"

datatype 'z add_result = AddFailed | AddReorg | AddPanic | Added block_id "'z channel_out"

text \<open>The loop over the numbers of the blocks to add.\<close>

fun add_blocks :: "batch_codec \<Rightarrow> 'z zlib_writer \<Rightarrow> batcher_env \<Rightarrow> u64 list \<Rightarrow> block_id \<Rightarrow> 'z channel_out \<Rightarrow> 'z add_result" where
  "add_blocks C Z E [] prevID ch = Added prevID ch"
| "add_blocks C Z E (i # is) prevID ch =
    (case be_BlockByNumber E i of
       Inl c \<Rightarrow> AddFailed
     | Inr block \<Rightarrow>
         if blk_ParentHash block \<noteq> id_Hash prevID then AddReorg
         else (case AddBlock C Z block ch of
             (Some e, ch) \<Rightarrow> if is_panic e then AddPanic else AddFailed
           | (None, ch) \<Rightarrow>
               add_blocks C Z E is \<lparr>id_Hash = blk_Hash block, id_Number = blk_NumberU64 block\<rparr> ch))"

text \<open>
  The block numbers of \<^verbatim>\<open>for i := last + 1; i <= unsafe; i++\<close>; the loop would not end for an unsafe head
  with the largest 64-bit number, which is left out.
\<close>

definition block_range :: "u64 \<Rightarrow> u64 \<Rightarrow> u64 list" where
  "block_range lastNum unsafe = map word_of_nat [unat (lastNum + 1)..<Suc (unat unsafe)]"

text \<open>Publishing the data of one transaction: an error, or none when it was confirmed.\<close>

definition publish_tx :: "batcher_config \<Rightarrow> batcher_env \<Rightarrow> nat \<Rightarrow> bytes \<Rightarrow> cause option" where
  "publish_tx cfg E k data =
    (case be_NonceAt E k of
       Inl c \<Rightarrow> Some c
     | Inr nonce \<Rightarrow>
         (case CraftTx cfg (be_GasTipCap E k) (be_BaseFee E k) (be_IntrinsicGas E) data nonce of
            Inl c \<Rightarrow> Some c
          | Inr tx \<Rightarrow> be_Send E k (\<lambda>tip head. UpdateGasPrice cfg tip head tx)))"

text \<open>
  The loop that publishes the frames: whether all were published, and the data of those that were.
  It need not end, so it is a partial function.
\<close>

partial_function (option) publish_frames ::
    "batcher_config \<Rightarrow> batcher_env \<Rightarrow> nat \<Rightarrow> 'z channel_out \<Rightarrow> (bool \<times> bytes list) option" where
  "publish_frames cfg E k ch =
    (case OutputFrame (bc_MaxL1TxSize cfg - 1) ch of
       (done, out, ch) \<Rightarrow>
         (case publish_tx cfg E k (DerivationVersion0 # out) of
            Some err \<Rightarrow> Some (False, [])
          | None \<Rightarrow>
              if done then Some (True, [DerivationVersion0 # out])
              else Option.bind (publish_frames cfg E (Suc k) ch)
                     (\<lambda>(ok, rest). Some (ok, (DerivationVersion0 # out) # rest))))"

datatype tick_result = Ticked block_id "bytes list" | Crashed

text \<open>Where to continue: at the safe head after a start, or when submission lags behind it.\<close>

definition start_block :: "sync_status \<Rightarrow> block_id \<Rightarrow> block_id" where
  "start_block st lastSubmitted =
    (let l = (if lastSubmitted = zero_id then L2BlockRef_ID (ss_SafeL2 st) else lastSubmitted)
     in if id_Number l < l2_Number (ss_SafeL2 st) then L2BlockRef_ID (ss_SafeL2 st) else l)"

text \<open>
  The rest of an iteration, from the creation of the channel: the new last submitted block and the data
  published.
\<close>

definition submit_channel ::
    "batch_codec \<Rightarrow> 'z zlib_writer \<Rightarrow> batcher_config \<Rightarrow> batcher_env \<Rightarrow> sync_status \<Rightarrow> block_id
      \<Rightarrow> tick_result option" where
  "submit_channel C Z cfg E st lastSubmitted =
    (case NewChannelOut Z (be_Rand E) of
       None \<Rightarrow> Some (Ticked lastSubmitted [])
     | Some ch \<Rightarrow>
         (case add_blocks C Z E (block_range (id_Number lastSubmitted) (l2_Number (ss_UnsafeL2 st)))
             lastSubmitted ch of
            AddFailed \<Rightarrow> Some (Ticked lastSubmitted [])
          | AddReorg \<Rightarrow> Some (Ticked (L2BlockRef_ID (ss_SafeL2 st)) [])
          | AddPanic \<Rightarrow> Some Crashed
          | Added prevID ch \<Rightarrow>
              (case ChannelOut_Close Z ch of
                 (Some err, ch) \<Rightarrow> Some (Ticked lastSubmitted [])
               | (None, ch) \<Rightarrow>
                   (case publish_frames cfg E 0 ch of
                      None \<Rightarrow> None
                    | Some (ok, published) \<Rightarrow> Some (Ticked (if ok then prevID else lastSubmitted) published)))))"

text \<open>One iteration of the loop.\<close>

definition batcher_tick ::
    "batch_codec \<Rightarrow> 'z zlib_writer \<Rightarrow> batcher_config \<Rightarrow> batcher_env \<Rightarrow> block_id \<Rightarrow> tick_result option" where
  "batcher_tick C Z cfg E lastSubmitted =
    (case be_SyncStatus E of
       Inl c \<Rightarrow> Some (Ticked lastSubmitted [])
     | Inr st \<Rightarrow>
         if ss_HeadL1 st = zero_l1 then Some (Ticked lastSubmitted [])
         else if l2_Number (ss_SafeL2 st) \<ge> l2_Number (ss_UnsafeL2 st) then Some (Ticked lastSubmitted [])
         else submit_channel C Z cfg E st (start_block st lastSubmitted))"

section \<open>What is written to the channel\<close>

text \<open>Writing a list of byte strings to a compressor: the bytes it outputs and its state.\<close>

fun zw_write_all :: "'z zlib_writer \<Rightarrow> bytes list \<Rightarrow> 'z \<Rightarrow> bytes \<times> 'z" where
  "zw_write_all Z [] z = ([], z)"
| "zw_write_all Z (w # ws) z =
    (case zw_Write Z w z of (out, z) \<Rightarrow> case zw_write_all Z ws z of (outs, z) \<Rightarrow> (out @ outs, z))"

definition zw_run :: "'z zlib_writer \<Rightarrow> bytes list \<Rightarrow> bytes" where
  "zw_run Z ws =
    (case zw_write_all Z ws (zw_New Z) of (out, z) \<Rightarrow> out @ fst (zw_Close Z z))"

text \<open>The blocks the environment returns for the given numbers, if they form a chain on \<open>prevID\<close>.\<close>

fun chain_blocks :: "batcher_env \<Rightarrow> u64 list \<Rightarrow> block_id \<Rightarrow> l2_block list \<Rightarrow> bool" where
  "chain_blocks E [] prevID blocks \<longleftrightarrow> blocks = []"
| "chain_blocks E (i # is) prevID blocks \<longleftrightarrow>
    (\<exists>b bs. blocks = b # bs \<and> be_BlockByNumber E i = Inr b \<and> blk_ParentHash b = id_Hash prevID
       \<and> chain_blocks E is \<lparr>id_Hash = blk_Hash b, id_Number = blk_NumberU64 b\<rparr> bs)"

definition last_id :: "block_id \<Rightarrow> l2_block list \<Rightarrow> block_id" where
  "last_id prevID blocks =
    (if blocks = [] then prevID else \<lparr>id_Hash = blk_Hash (last blocks), id_Number = blk_NumberU64 (last blocks)\<rparr>)"

lemma AddBlock_ok:
  assumes "AddBlock C Z block ch = (None, ch')"
  shows "\<exists>b. block_batch block = Inr b
    \<and> ch' = ch\<lparr>co_compress := snd (zw_Write Z (BatchData_EncodeRLP C b) (co_compress ch)),
        co_buf := co_buf ch @ fst (zw_Write Z (BatchData_EncodeRLP C b) (co_compress ch))\<rparr>"
  using assms
  by (auto simp: AddBlock_def blockToBatch_def split: if_splits sum.splits prod.splits)

lemma add_blocks_ok:
  assumes "add_blocks C Z E is prevID ch = Added lastID ch'"
  shows "\<exists>blocks bs. chain_blocks E is prevID blocks \<and> lastID = last_id prevID blocks
    \<and> map block_batch blocks = map Inr bs
    \<and> ch' = ch\<lparr>co_compress := snd (zw_write_all Z (map (BatchData_EncodeRLP C) bs) (co_compress ch)),
        co_buf := co_buf ch @ fst (zw_write_all Z (map (BatchData_EncodeRLP C) bs) (co_compress ch))\<rparr>"
  using assms
proof (induction "is" arbitrary: prevID ch)
  case Nil
  then show ?case by (intro exI [of _ "[]"]) (simp add: last_id_def)
next
  case (Cons i "is")
  from Cons.prems obtain block ch1 where block: "be_BlockByNumber E i = Inr block"
    "blk_ParentHash block = id_Hash prevID" "AddBlock C Z block ch = (None, ch1)"
    "add_blocks C Z E is \<lparr>id_Hash = blk_Hash block, id_Number = blk_NumberU64 block\<rparr> ch1 = Added lastID ch'"
    by (auto split: sum.splits if_splits prod.splits option.splits)
  from AddBlock_ok [OF block(3)] obtain b where b: "block_batch block = Inr b"
    "ch1 = ch\<lparr>co_compress := snd (zw_Write Z (BatchData_EncodeRLP C b) (co_compress ch)),
        co_buf := co_buf ch @ fst (zw_Write Z (BatchData_EncodeRLP C b) (co_compress ch))\<rparr>"
    by blast
  from Cons.IH [OF block(4)] obtain blocks bs where IH:
    "chain_blocks E is \<lparr>id_Hash = blk_Hash block, id_Number = blk_NumberU64 block\<rparr> blocks"
    "lastID = last_id \<lparr>id_Hash = blk_Hash block, id_Number = blk_NumberU64 block\<rparr> blocks"
    "map block_batch blocks = map Inr bs"
    "ch' = ch1\<lparr>co_compress := snd (zw_write_all Z (map (BatchData_EncodeRLP C) bs) (co_compress ch1)),
        co_buf := co_buf ch1 @ fst (zw_write_all Z (map (BatchData_EncodeRLP C) bs) (co_compress ch1))\<rparr>"
    by blast
  have "chain_blocks E (i # is) prevID (block # blocks)" using block IH(1) by simp
  moreover have "lastID = last_id prevID (block # blocks)" using IH(2) by (simp add: last_id_def)
  moreover have "map block_batch (block # blocks) = map Inr (b # bs)" using b(1) IH(3) by simp
  moreover have "ch' = ch\<lparr>co_compress := snd (zw_write_all Z (map (BatchData_EncodeRLP C) (b # bs)) (co_compress ch)),
      co_buf := co_buf ch @ fst (zw_write_all Z (map (BatchData_EncodeRLP C) (b # bs)) (co_compress ch))\<rparr>"
    by (simp add: IH(4) b(2) split: prod.split)
  ultimately show ?case by blast
qed

section \<open>What is published\<close>

lemma publish_frames_output:
  assumes "output_frames n (bc_MaxL1TxSize cfg - 1) ch = Some outs"
  shows "\<exists>ok ds. publish_frames cfg E k ch = Some (ok, ds)
    \<and> (\<exists>rest. map ((#) DerivationVersion0) outs = ds @ rest) \<and> (ok \<longleftrightarrow> ds = map ((#) DerivationVersion0) outs)"
  using assms
proof (induction n arbitrary: ch outs k)
  case (Suc n)
  obtain eof out ch1 where step: "OutputFrame (bc_MaxL1TxSize cfg - 1) ch = (eof, out, ch1)" by (metis prod_cases3)
  show ?case
  proof (cases "publish_tx cfg E k (DerivationVersion0 # out)")
    case (Some err)
    with step have "publish_frames cfg E k ch = Some (False, [])"
      by (subst publish_frames.simps) simp
    moreover have "outs \<noteq> []" using Suc.prems step by (auto split: if_splits)
    ultimately show ?thesis by (simp add: ex_bool_eq)
  next
    case None
    show ?thesis
    proof (cases eof)
      case True
      with None step have "publish_frames cfg E k ch = Some (True, [DerivationVersion0 # out])"
        by (subst publish_frames.simps) simp
      with True step Suc.prems show ?thesis by auto
    next
      case False
      with Suc.prems step obtain outs1 where outs1: "output_frames n (bc_MaxL1TxSize cfg - 1) ch1 = Some outs1"
        "outs = out # outs1" by auto
      from Suc.IH [OF outs1(1), of "Suc k"] obtain ok ds rest where IH:
        "publish_frames cfg E (Suc k) ch1 = Some (ok, ds)"
        "map ((#) DerivationVersion0) outs1 = ds @ rest" "ok \<longleftrightarrow> ds = map ((#) DerivationVersion0) outs1"
        by blast
      from False None step IH(1)
      have "publish_frames cfg E k ch = Some (ok, (DerivationVersion0 # out) # ds)"
        by (subst publish_frames.simps) simp
      with IH(2,3) outs1(2) show ?thesis by simp
    qed
  qed
qed simp

text \<open>The channel of a submission: the data transactions for its batches.\<close>

definition channel_txs :: "batch_codec \<Rightarrow> 'z zlib_writer \<Rightarrow> u64 \<Rightarrow> channel_id \<Rightarrow> batch_data list \<Rightarrow> bytes list" where
  "channel_txs C Z maxL1TxSize i bs =
     map (\<lambda>f. DerivationVersion0 # Frame_MarshalBinary f)
       (frame_sequence i (chunks (unat maxL1TxSize - 49) (zw_run Z (map (BatchData_EncodeRLP C) bs))))"

lemma publish_channel:
  assumes size: "49 < unat (bc_MaxL1TxSize cfg)" and buf: "length (zw_run Z (map (BatchData_EncodeRLP C) bs)) < 2 ^ 64"
    and ch: "co_buf ch = zw_run Z (map (BatchData_EncodeRLP C) bs)" "co_closed ch" "co_frame ch = 0"
  shows "\<exists>ok ds. publish_frames cfg E 0 ch = Some (ok, ds)
    \<and> (\<exists>rest. channel_txs C Z (bc_MaxL1TxSize cfg) (co_id ch) bs = ds @ rest)
    \<and> (ok \<longleftrightarrow> ds = channel_txs C Z (bc_MaxL1TxSize cfg) (co_id ch) bs)"
proof -
  have one: "unat (bc_MaxL1TxSize cfg - 1) = unat (bc_MaxL1TxSize cfg) - 1"
    using size by (simp add: unat_sub_if')
  have "output_frames (length (chunks (unat (bc_MaxL1TxSize cfg - 1) - 48) (co_buf ch))) (bc_MaxL1TxSize cfg - 1) ch
      = Some (map Frame_MarshalBinary (frames_from (co_id ch) 0 (chunks (unat (bc_MaxL1TxSize cfg - 1) - 48) (co_buf ch))))"
    by (rule output_frames_chunks) (use assms one in auto)
  from publish_frames_output [OF this] show ?thesis
    unfolding channel_txs_def frame_sequence_frames_from one ch(1) by (simp add: comp_def)
qed

text \<open>What a submission looks like: where it starts, the blocks and their batches.\<close>

definition submission :: "batcher_env \<Rightarrow> sync_status \<Rightarrow> block_id \<Rightarrow> l2_block list \<Rightarrow> batch_data list \<Rightarrow> bool" where
  "submission E st start blocks bs \<longleftrightarrow>
     be_SyncStatus E = Inr st
     \<and> l2_Number (ss_SafeL2 st) \<le> id_Number start
     \<and> chain_blocks E (block_range (id_Number start) (l2_Number (ss_UnsafeL2 st))) start blocks
     \<and> map block_batch blocks = map Inr bs"

lemma NewChannelOut_Some:
  "NewChannelOut Z r = Some ch \<Longrightarrow> \<exists>i. r = Some i \<and> ch =
     \<lparr>co_id = i, co_frame = 0, co_offset = 0, co_scratch = [], co_compress = zw_New Z, co_buf = [],
      co_closed = False\<rparr>"
  by (auto simp: NewChannelOut_def)

lemma publish_frames_succeeds:
  assumes "output_frames n (bc_MaxL1TxSize cfg - 1) ch = Some outs" and "\<And>k d. publish_tx cfg E k d = None"
  shows "publish_frames cfg E k ch = Some (True, map ((#) DerivationVersion0) outs)"
  using assms(1)
proof (induction n arbitrary: ch outs k)
  case (Suc n)
  obtain eof out ch1 where step: "OutputFrame (bc_MaxL1TxSize cfg - 1) ch = (eof, out, ch1)" by (metis prod_cases3)
  show ?case
  proof (cases eof)
    case True
    with step Suc.prems assms(2) show ?thesis by (subst publish_frames.simps) auto
  next
    case False
    with step Suc.prems obtain outs1 where "output_frames n (bc_MaxL1TxSize cfg - 1) ch1 = Some outs1" "outs = out # outs1"
      by auto
    with False step Suc.IH assms(2) show ?thesis by (subst publish_frames.simps) auto
  qed
qed simp

lemma block_range_empty: "unat n < 2 ^ 64 - 1 \<Longrightarrow> block_range n n = []"
  by (simp add: block_range_def unat_word_ariths)

text \<open>A poll that finds every block up to the unsafe head submitted, but not yet safe.\<close>

lemma tick_without_new_blocks:
  assumes size: "49 < unat (bc_MaxL1TxSize cfg)" and buf: "length (zw_run Z []) < 2 ^ 64"
    and st: "be_SyncStatus E = Inr st" "ss_HeadL1 st \<noteq> zero_l1" "l2_Number (ss_SafeL2 st) < l2_Number (ss_UnsafeL2 st)"
    and last: "id_Number lastSubmitted = l2_Number (ss_UnsafeL2 st)" "lastSubmitted \<noteq> zero_id"
      "unat (id_Number lastSubmitted) < 2 ^ 64 - 1"
    and ok: "be_Rand E = Some i" "\<And>k d. publish_tx cfg E k d = None"
  shows "batcher_tick C Z cfg E lastSubmitted
    = Some (Ticked lastSubmitted (channel_txs C Z (bc_MaxL1TxSize cfg) i []))"
proof -
  obtain out z where close: "zw_Close Z (zw_New Z) = (out, z)" by fastforce
  define ch where "ch = \<lparr>co_id = i, co_frame = 0, co_offset = 0, co_scratch = [], co_compress = z, co_buf = out,
    co_closed = True\<rparr>"
  have one: "unat (bc_MaxL1TxSize cfg - 1) = unat (bc_MaxL1TxSize cfg) - 1"
    using size by (simp add: unat_sub_if')
  have "output_frames (length (chunks (unat (bc_MaxL1TxSize cfg - 1) - 48) (co_buf ch))) (bc_MaxL1TxSize cfg - 1) ch
      = Some (map Frame_MarshalBinary (frames_from (co_id ch) 0 (chunks (unat (bc_MaxL1TxSize cfg - 1) - 48) (co_buf ch))))"
    by (rule output_frames_chunks) (use size buf close one in \<open>auto simp: ch_def zw_run_def\<close>)
  from publish_frames_succeeds [OF this ok(2)]
  have "publish_frames cfg E 0 ch = Some (True, channel_txs C Z (bc_MaxL1TxSize cfg) i [])"
    by (simp add: channel_txs_def frame_sequence_frames_from one ch_def zw_run_def close comp_def)
  moreover have "start_block st lastSubmitted = lastSubmitted"
    using st(3) last by (simp add: start_block_def)
  moreover have "block_range (id_Number lastSubmitted) (l2_Number (ss_UnsafeL2 st)) = []"
    using block_range_empty last by metis
  moreover have "\<not> l2_Number (ss_UnsafeL2 st) \<le> l2_Number (ss_SafeL2 st)"
    using st(3) by (simp add: not_le)
  ultimately show ?thesis
    using st(1,2) ok(1) close
    by (simp add: batcher_tick_def submit_channel_def NewChannelOut_def ChannelOut_Close_def ch_def)
qed


text \<open>A compressor that passes its input through, and an environment in which every call succeeds.\<close>

definition plain_zlib :: "unit zlib_writer" where
  "plain_zlib = \<lparr>zw_New = (), zw_Write = (\<lambda>w z. (w, z)), zw_Flush = (\<lambda>z. ([], z)), zw_Close = (\<lambda>z. ([], z))\<rparr>"

definition sample_status :: sync_status where
  "sample_status = \<lparr>ss_CurrentL1 = zero_l1, ss_HeadL1 = sample_l1 ! 1, ss_SafeL1 = zero_l1, ss_FinalizedL1 = zero_l1,
     ss_UnsafeL2 = sample_safe\<lparr>l2_Number := 4, l2_Hash := 78\<rparr>, ss_SafeL2 = sample_safe, ss_FinalizedL2 = zero_l2\<rparr>"

definition sample_env :: batcher_env where
  "sample_env = \<lparr>be_SyncStatus = Inr sample_status, be_Rand = Some 9,
     be_BlockByNumber = (\<lambda>n. Inl ''not found''), 
     be_NonceAt = (\<lambda>k. Inr (word_of_nat k)), be_GasTipCap = (\<lambda>k. Inr 2), be_BaseFee = (\<lambda>k. Inr 7),
     be_IntrinsicGas = (\<lambda>d. Inr 21000), be_Send = (\<lambda>k update. None)\<rparr>"

definition sample_batcher :: batcher_config where
  "sample_batcher = \<lparr>bc_MaxL1TxSize = 120000, bc_BatchInboxAddress = 13, bc_ChainID = 900\<rparr>"

lemma sample_tick:
  "batcher_tick sample_rlp plain_zlib sample_batcher sample_env \<lparr>id_Hash = 78, id_Number = 4\<rparr>
    = Some (Ticked \<lparr>id_Hash = 78, id_Number = 4\<rparr> (channel_txs sample_rlp plain_zlib (bc_MaxL1TxSize sample_batcher) 9 []))"
  by (rule tick_without_new_blocks [of _ _ _ sample_status])
    (simp_all add: sample_batcher_def sample_env_def sample_status_def sample_safe_def sample_l1_def plain_zlib_def
      zw_run_def zero_l1_def zero_id_def publish_tx_def CraftTx_def)

lemma channel_txs_nonempty [simp]: "channel_txs C Z m i bs \<noteq> []"
  by (simp add: channel_txs_def frame_sequence_def)

lemma sample_submission: "submission sample_env st start blocks bs \<Longrightarrow> bs = []"
  by (cases "block_range (id_Number start) (l2_Number (ss_UnsafeL2 st))")
    (auto simp: submission_def sample_env_def)


text \<open>
  While submitted blocks wait to become safe, every poll publishes a channel without any batch: if
  the last submitted block is the unsafe head, the code does not stop but opens, closes and publishes
  an empty channel, paying for a transaction that carries no block.
\<close>

lemma batcher_publishes_empty_channel:
  assumes "49 < unat (bc_MaxL1TxSize cfg)" and "length (zw_run Z []) < 2 ^ 64"
    and "be_SyncStatus E = Inr st" and "ss_HeadL1 st \<noteq> zero_l1"
    and "l2_Number (ss_SafeL2 st) < l2_Number (ss_UnsafeL2 st)"
    and "lastSubmitted = L2BlockRef_ID (ss_UnsafeL2 st)" and "unat (l2_Number (ss_UnsafeL2 st)) < 2 ^ 64 - 1"
    and "be_Rand E = Some i" and "\<And>k d. publish_tx cfg E k d = None"
  shows "batcher_tick C Z cfg E lastSubmitted
      = Some (Ticked lastSubmitted (channel_txs C Z (bc_MaxL1TxSize cfg) i []))
    \<and> channel_txs C Z (bc_MaxL1TxSize cfg) i [] \<noteq> []"
proof -
  have "id_Number lastSubmitted \<noteq> 0" using assms(5,6) by (auto simp: L2BlockRef_ID_def)
  then have "lastSubmitted \<noteq> zero_id" by (auto simp: zero_id_def)
  then show ?thesis
    using tick_without_new_blocks [OF assms(1-5) _ _ _ assms(8,9)] assms(6,7) by (simp add: L2BlockRef_ID_def)
qed

end
