(* ===== verification/Driver.thy ===== *)
theory Driver
  imports Pipeline Batcher
begin

text \<open>
  The driver of the rollup node: \<^verbatim>\<open>conf_depth.go\<close>, \<^verbatim>\<open>config.go\<close>, \<^verbatim>\<open>step.go\<close> and \<^verbatim>\<open>state.go\<close> of
  \<^verbatim>\<open>op-node/rollup/driver\<close>. Its event loop reacts to signals about the L1 chain and to timers: it steps the
  derivation pipeline, and as a sequencer it creates new L2 blocks.
\<close>

section \<open>Confirmation depth\<close>

text \<open>The L1 client that hides blocks without enough confirmations.\<close>

definition confDepth :: "u64 \<Rightarrow> l1_block_ref \<Rightarrow> l1_fetcher \<Rightarrow> l1_fetcher" where
  "confDepth depth l1Head fetcher = fetcher\<lparr>L1BlockRefByNumber :=
     (\<lambda>num. if num = 0 \<or> depth = 0 \<or> num + depth \<le> l1_Number l1Head then L1BlockRefByNumber fetcher num
            else Inl NotFound)\<rparr>"

section \<open>State\<close>

record driver_config =
  VerifierConfDepth :: u64
  SequencerConfDepth :: u64
  SequencerEnabled :: bool

text \<open>
  The fields of the driver and the variables of the event loop: whether a request is in \<^verbatim>\<open>stepReqCh\<close> or
  \<^verbatim>\<open>l2BlockCreationReqCh\<close>, which hold one each, whether \<^verbatim>\<open>delayedStepReq\<close> is armed, the number of pending
  calls of \<^verbatim>\<open>time.AfterFunc\<close>, and \<^verbatim>\<open>stepAttempts\<close>.
\<close>

record driver =
  dr_l1Head :: l1_block_ref
  dr_l1Safe :: l1_block_ref
  dr_l1Finalized :: l1_block_ref
  dr_derivation :: derivation_pipeline
  dr_idleDerivation :: bool
  dr_stepReq :: bool
  dr_creationReq :: bool
  dr_delayedStepReq :: bool
  dr_catchUps :: nat
  dr_stepAttempts :: nat

definition UnsafeL2Head :: "driver \<Rightarrow> l2_block_ref" where
  "UnsafeL2Head s = eq_unsafeHead (dp_eng (dr_derivation s))"

definition SafeL2Head :: "driver \<Rightarrow> l2_block_ref" where
  "SafeL2Head s = eq_safeHead (dp_eng (dr_derivation s))"

definition FinalizedL2 :: "driver \<Rightarrow> l2_block_ref" where
  "FinalizedL2 s = eq_finalized (dp_eng (dr_derivation s))"

definition step_request :: "driver \<Rightarrow> driver" where
  "step_request s = s\<lparr>dr_stepReq := True\<rparr>"

definition reqStep :: "driver \<Rightarrow> driver" where
  "reqStep s =
    (if dr_stepAttempts s > 0 then (if \<not> dr_delayedStepReq s then s\<lparr>dr_delayedStepReq := True\<rparr> else s)
     else step_request s)"

definition reqL2BlockCreation :: "driver \<Rightarrow> driver" where
  "reqL2BlockCreation s = s\<lparr>dr_creationReq := True\<rparr>"

text \<open>The driver when the event loop starts: \<^verbatim>\<open>NewState\<close>, \<^verbatim>\<open>Start\<close>, and the first \<^verbatim>\<open>reqStep\<close>.\<close>

definition NewState :: driver where
  "NewState = \<lparr>dr_l1Head = zero_l1, dr_l1Safe = zero_l1, dr_l1Finalized = zero_l1,
     dr_derivation = NewDerivationPipeline, dr_idleDerivation = False, dr_stepReq = False, dr_creationReq = False,
     dr_delayedStepReq = False, dr_catchUps = 0, dr_stepAttempts = 0\<rparr>"

definition Start :: "driver \<Rightarrow> driver" where
  "Start s = reqStep (s\<lparr>dr_derivation := DerivationPipeline_Reset (dr_derivation s)\<rparr>)"

section \<open>L1 signals\<close>

definition handleNewL1HeadBlock :: "l1_block_ref \<Rightarrow> driver \<Rightarrow> driver" where
  "handleNewL1HeadBlock head s = s\<lparr>dr_l1Head := head\<rparr>"

definition handleNewL1SafeBlock :: "l1_block_ref \<Rightarrow> driver \<Rightarrow> driver" where
  "handleNewL1SafeBlock safe s = s\<lparr>dr_l1Safe := safe\<rparr>"

definition handleNewL1FinalizedBlock :: "l1_block_ref \<Rightarrow> driver \<Rightarrow> driver" where
  "handleNewL1FinalizedBlock finalized s =
     s\<lparr>dr_l1Finalized := finalized,
       dr_derivation := DerivationPipeline_Finalize (L1BlockRef_ID finalized) (dr_derivation s)\<rparr>"

section \<open>Sequencing\<close>

text \<open>The L1 origin of the next block; \<open>l1\<close> is the plain L1 client.\<close>

definition findL1Origin :: "driver_config \<Rightarrow> config \<Rightarrow> l1_fetcher \<Rightarrow> l1_block_ref \<Rightarrow> l2_block_ref \<Rightarrow> rpc_error + l1_block_ref" where
  "findL1Origin dcfg cfg l1 l1Head l2Head =
    (if id_Hash (l2_L1Origin l2Head) = l1_Hash l1Head then Inr l1Head
     else case L1BlockRefByHash l1 (id_Hash (l2_L1Origin l2Head)) of
         Inl e \<Rightarrow> Inl e
       | Inr currentOrigin \<Rightarrow>
           if l1_Number currentOrigin + 1 + SequencerConfDepth dcfg > l1_Number l1Head then Inr currentOrigin
           else (case L1BlockRefByNumber l1 (l1_Number currentOrigin + 1) of
               Inl e \<Rightarrow> Inr currentOrigin
             | Inr nextOrigin \<Rightarrow>
                 if l2_Time l2Head + BlockTime cfg \<ge> l1_Time nextOrigin then Inr nextOrigin else Inr currentOrigin))"

definition createNewBlock ::
    "geth \<Rightarrow> config \<Rightarrow> l1_fetcher \<Rightarrow> engine \<Rightarrow> l2_block_ref \<Rightarrow> block_id \<Rightarrow> block_id \<Rightarrow> l1_block_ref
      \<Rightarrow> derr + (l2_block_ref \<times> execution_payload)" where
  "createNewBlock G cfg dl eng l2Head l2SafeHead l2Finalized l1Origin =
    (case PreparePayloadAttributes G cfg dl l2Head (l2_Time l2Head + BlockTime cfg) (L1BlockRef_ID l1Origin) of
       Inl e \<Rightarrow> Inl e
     | Inr attrs \<Rightarrow>
         (let attrs = attrs\<lparr>at_NoTxPool := at_Timestamp attrs \<ge> l1_Time l1Origin + MaxSequencerDrift cfg\<rparr>;
              fc = \<lparr>fc_Head = l2_Hash l2Head, fc_Safe = id_Hash l2SafeHead, fc_Finalized = id_Hash l2Finalized\<rparr>
          in case InsertHeadBlock eng fc attrs False of
               (_, _, Some err) \<Rightarrow> Inl (if is_panic err then err else Plain ''failed to extend L2 chain'')
             | (None, _, None) \<Rightarrow> Inl (Panic ''nil pointer dereference'')
             | (Some payload, _, None) \<Rightarrow>
                 (case PayloadToBlockRef (g_tx G) payload (Genesis cfg) of
                    Inl c \<Rightarrow> Inl (Plain c)
                  | Inr ref \<Rightarrow> Inr (ref, payload))))"

text \<open>The error, the payload handed to the network, and the new state.\<close>

definition createNewL2Block ::
    "driver_config \<Rightarrow> pipeline_env \<Rightarrow> driver \<Rightarrow> derr option \<times> execution_payload option \<times> driver" where
  "createNewL2Block dcfg E s =
    (case findL1Origin dcfg (pe_cfg E) (pe_l1 E) (dr_l1Head s) (UnsafeL2Head s) of
       Inl e \<Rightarrow> (Some (Plain ''error finding next L1 origin''), None, s)
     | Inr l1Origin \<Rightarrow>
         if l1_Number l1Origin < id_Number (gen_L1 (Genesis (pe_cfg E))) then (None, None, s)
         else if l2_Time (UnsafeL2Head s) + BlockTime (pe_cfg E) < l1_Time l1Origin
         then (Some (Plain ''cannot build L2 block for time before L1 origin''), None, s)
         else (case createNewBlock (pe_geth E) (pe_cfg E) (pe_l1 E) (pe_engine E) (UnsafeL2Head s)
                 (L2BlockRef_ID (SafeL2Head s)) (L2BlockRef_ID (FinalizedL2 s)) l1Origin of
             Inl e \<Rightarrow> (Some e, None, s)
           | Inr (newUnsafeL2Head, payload) \<Rightarrow>
               (None, Some payload,
                s\<lparr>dr_derivation := DerivationPipeline_SetUnsafeHead newUnsafeL2Head (dr_derivation s)\<rparr>)))"

section \<open>The event loop\<close>

datatype event =
    CreationTicker | CreationRequest | CatchUpTimer
  | UnsafePayload "execution_payload option"
  | L1HeadSignal l1_block_ref | L1SafeSignal l1_block_ref | L1FinalizedSignal l1_block_ref
  | DelayedStep | StepRequest | SyncStatusRequest | ForceReset | DoneSignal

text \<open>Which events can occur: those from the outside always, the others when their channel or timer is ready.\<close>

fun enabled :: "driver_config \<Rightarrow> driver \<Rightarrow> event \<Rightarrow> bool" where
  "enabled dcfg s CreationTicker \<longleftrightarrow> SequencerEnabled dcfg"
| "enabled dcfg s CreationRequest \<longleftrightarrow> dr_creationReq s"
| "enabled dcfg s CatchUpTimer \<longleftrightarrow> dr_catchUps s > 0"
| "enabled dcfg s DelayedStep \<longleftrightarrow> dr_delayedStepReq s"
| "enabled dcfg s StepRequest \<longleftrightarrow> dr_stepReq s"
| "enabled dcfg s _ \<longleftrightarrow> True"

text \<open>What an event leads to: the loop goes on, returns, or the program panics.\<close>

datatype loop_result = Continues driver | Returned driver | Panicked

definition on_creation_request :: "driver_config \<Rightarrow> pipeline_env \<Rightarrow> driver \<Rightarrow> loop_result" where
  "on_creation_request dcfg E s =
    (let s = s\<lparr>dr_creationReq := False\<rparr> in
     if \<not> dr_idleDerivation s then Continues s
     else case createNewL2Block dcfg E s of
         (Some err, _, s) \<Rightarrow> if is_panic err then Panicked else Continues s
       | (None, _, s) \<Rightarrow>
           if l1_Number (dr_l1Head s) > id_Number (l2_L1Origin (UnsafeL2Head s)) + SequencerConfDepth dcfg
           then Continues (s\<lparr>dr_catchUps := dr_catchUps s + 1\<rparr>) else Continues s)"

text \<open>The reaction to the error of a derivation step.\<close>

definition after_step :: "derr option \<Rightarrow> driver \<Rightarrow> loop_result" where
  "after_step err s =
    (let s = s\<lparr>dr_stepAttempts := dr_stepAttempts s + 1\<rparr> in
     case err of
       Some (Panic c) \<Rightarrow> Panicked
     | Some EOF \<Rightarrow> Continues (s\<lparr>dr_idleDerivation := True, dr_stepAttempts := 0\<rparr>)
     | Some (Leveled LevelReset c) \<Rightarrow>
         Continues (s\<lparr>dr_derivation := DerivationPipeline_Reset (dr_derivation s)\<rparr>)
     | Some (Leveled LevelTemporary c) \<Rightarrow> Continues (reqStep s)
     | Some (Leveled LevelCritical c) \<Rightarrow> Returned s
     | Some NotEnoughData \<Rightarrow> Continues (reqStep (s\<lparr>dr_stepAttempts := 0\<rparr>))
     | Some (Plain c) \<Rightarrow> Continues (reqStep s)
     | None \<Rightarrow> Continues (reqStep (s\<lparr>dr_stepAttempts := 0\<rparr>)))"

text \<open>\<open>None\<close> if the derivation step does not return. The pipeline reads L1 through \<^verbatim>\<open>confDepth\<close>.\<close>

definition on_step_request :: "driver_config \<Rightarrow> pipeline_env \<Rightarrow> driver \<Rightarrow> loop_result option" where
  "on_step_request dcfg E s =
    (let s = s\<lparr>dr_stepReq := False, dr_idleDerivation := False\<rparr>;
         E = E\<lparr>pe_l1 := confDepth (VerifierConfDepth dcfg) (dr_l1Head s) (pe_l1 E)\<rparr>
     in map_option (\<lambda>(err, dp). after_step err (s\<lparr>dr_derivation := dp\<rparr>)) (DerivationPipeline_Step E (dr_derivation s)))"

definition SyncStatus :: "driver \<Rightarrow> sync_status" where
  "SyncStatus s = \<lparr>ss_CurrentL1 = pr_Origin (DerivationPipeline_Progress (dr_derivation s)), ss_HeadL1 = dr_l1Head s,
     ss_SafeL1 = dr_l1Safe s, ss_FinalizedL1 = dr_l1Finalized s, ss_UnsafeL2 = UnsafeL2Head s,
     ss_SafeL2 = SafeL2Head s, ss_FinalizedL2 = FinalizedL2 s\<rparr>"

text \<open>\<^verbatim>\<open>payload.ID()\<close> in a log message dereferences the payload, which is nil if a nil payload is signalled.\<close>

definition on_unsafe_payload :: "execution_payload option \<Rightarrow> driver \<Rightarrow> loop_result option" where
  "on_unsafe_payload payload s =
    (case payload of
       None \<Rightarrow> Some Panicked
     | Some p \<Rightarrow>
         map_option (\<lambda>(err, dp). if err = None then Continues (reqStep (s\<lparr>dr_derivation := dp\<rparr>)) else Panicked)
           (DerivationPipeline_AddUnsafePayload (Some p) (dr_derivation s)))"

fun eventLoop :: "driver_config \<Rightarrow> pipeline_env \<Rightarrow> event \<Rightarrow> driver \<Rightarrow> loop_result option" where
  "eventLoop dcfg E CreationTicker s = Some (Continues (reqL2BlockCreation s))"
| "eventLoop dcfg E CreationRequest s = Some (on_creation_request dcfg E s)"
| "eventLoop dcfg E CatchUpTimer s = Some (Continues (reqL2BlockCreation (s\<lparr>dr_catchUps := dr_catchUps s - 1\<rparr>)))"
| "eventLoop dcfg E (UnsafePayload payload) s = on_unsafe_payload payload s"
| "eventLoop dcfg E (L1HeadSignal head) s = Some (Continues (reqStep (handleNewL1HeadBlock head s)))"
| "eventLoop dcfg E (L1SafeSignal safe) s = Some (Continues (handleNewL1SafeBlock safe s))"
| "eventLoop dcfg E (L1FinalizedSignal finalized) s =
     Some (Continues (reqStep (handleNewL1FinalizedBlock finalized s)))"
| "eventLoop dcfg E DelayedStep s = Some (Continues (step_request (s\<lparr>dr_delayedStepReq := False\<rparr>)))"
| "eventLoop dcfg E StepRequest s = on_step_request dcfg E s"
| "eventLoop dcfg E SyncStatusRequest s = Some (Continues s)"
| "eventLoop dcfg E ForceReset s =
     Some (Continues (s\<lparr>dr_derivation := DerivationPipeline_Reset (dr_derivation s)\<rparr>))"
| "eventLoop dcfg E DoneSignal s = Some (Returned s)"

section \<open>Scheduling\<close>

text \<open>A derivation step is requested or scheduled.\<close>

definition step_pending :: "driver \<Rightarrow> bool" where
  "step_pending s \<longleftrightarrow> dr_stepReq s \<or> dr_delayedStepReq s"

definition freshly_reset :: "driver \<Rightarrow> bool" where
  "freshly_reset s \<longleftrightarrow> dp_resetting (dr_derivation s) = 0 \<and> dp_pullResetIdx (dr_derivation s) = 0"

lemma reqStep_pending [simp]: "step_pending (reqStep s)"
  by (simp add: step_pending_def reqStep_def step_request_def)

lemma reqStep_frame [simp]:
  "dr_derivation (reqStep s) = dr_derivation s" "dr_idleDerivation (reqStep s) = dr_idleDerivation s"
  "dr_l1Head (reqStep s) = dr_l1Head s"
  by (simp_all add: reqStep_def step_request_def)

lemma freshly_reset_Reset [simp]: "freshly_reset (s\<lparr>dr_derivation := DerivationPipeline_Reset dp\<rparr>)"
  by (simp add: freshly_reset_def DerivationPipeline_Reset_def)

definition attended :: "driver \<Rightarrow> bool" where
  "attended s \<longleftrightarrow> step_pending s \<or> dr_idleDerivation s \<or> freshly_reset s"

lemma after_step_attended: "after_step err s = Continues s' \<Longrightarrow> attended s'"
  by (cases err rule: option.exhaust [case_names nil err])
    (auto simp: after_step_def attended_def Let_def freshly_reset_def DerivationPipeline_Reset_def
      split: derr.splits level.splits)

lemma createNewL2Block_frame:
  assumes "createNewL2Block dcfg E s = (err, p, s')"
  shows "dr_stepReq s' = dr_stepReq s" "dr_delayedStepReq s' = dr_delayedStepReq s"
    "dr_idleDerivation s' = dr_idleDerivation s" "freshly_reset s' = freshly_reset s"
  using assms
  by (auto simp: createNewL2Block_def freshly_reset_def DerivationPipeline_SetUnsafeHead_def
      split: sum.splits if_splits prod.splits)

lemma on_creation_request_attended:
  assumes "on_creation_request dcfg E s = Continues s'" and "attended s"
  shows "attended s'"
proof -
  obtain err p s1 where create: "createNewL2Block dcfg E (s\<lparr>dr_creationReq := False\<rparr>) = (err, p, s1)"
    by (metis prod_cases3)
  have "attended s1"
    using createNewL2Block_frame [OF create] assms(2) by (simp add: attended_def step_pending_def freshly_reset_def)
  moreover have "s' = s\<lparr>dr_creationReq := False\<rparr> \<or> s' = s1 \<or> s' = s1\<lparr>dr_catchUps := dr_catchUps s1 + 1\<rparr>"
    using assms(1) create by (auto simp: on_creation_request_def Let_def split: if_splits option.splits)
  ultimately show ?thesis using assms(2) by (auto simp: attended_def step_pending_def freshly_reset_def)
qed

lemma eventLoop_attended:
  assumes "eventLoop dcfg E ev s = Some (Continues s')" and "attended s"
  shows "attended s'"
proof (cases ev)
  case StepRequest
  with assms(1) show ?thesis by (auto simp: on_step_request_def Let_def intro: after_step_attended)
next
  case CreationRequest
  with assms show ?thesis by (auto intro: on_creation_request_attended)
next
  case (UnsafePayload payload)
  with assms(1) show ?thesis
    by (auto simp: on_unsafe_payload_def attended_def split: option.splits if_splits)
next
  case (L1HeadSignal head)
  with assms(1) show ?thesis by (auto simp: attended_def)
next
  case (L1FinalizedSignal finalized)
  with assms(1) show ?thesis by (auto simp: attended_def)
qed (use assms in \<open>auto simp: attended_def reqL2BlockCreation_def step_pending_def freshly_reset_def step_request_def
    handleNewL1SafeBlock_def DerivationPipeline_Reset_def\<close>)

text \<open>The states the event loop reaches, with any sequence of possible events and any answers of the clients.\<close>

inductive driver_reachable :: "driver_config \<Rightarrow> driver \<Rightarrow> bool" for dcfg where
  started: "driver_reachable dcfg (Start NewState)"
| event: "\<lbrakk>driver_reachable dcfg s; enabled dcfg s ev; eventLoop dcfg E ev s = Some (Continues s')\<rbrakk>
    \<Longrightarrow> driver_reachable dcfg s'"

text \<open>
  C10. The driver does not forget to derive: in every state its event loop reaches, a derivation step is
  requested or scheduled, or the derivation is idle because it ran out of L1 data, or the pipeline has
  just been reset; and in every such state a signal about a new L1 head leads to a state in which a
  step is requested or scheduled.
\<close>

theorem driver_keeps_deriving:
  assumes "driver_reachable dcfg s"
  shows "(enabled dcfg s StepRequest \<or> enabled dcfg s DelayedStep \<or> dr_idleDerivation s \<or> freshly_reset s)
    \<and> (\<exists>s'. eventLoop dcfg E (L1HeadSignal head) s = Some (Continues s') \<and> dr_l1Head s' = head
         \<and> (enabled dcfg s' StepRequest \<or> enabled dcfg s' DelayedStep))"
proof -
  from assms have "attended s"
  proof induction
    case started
    then show ?case by (simp add: attended_def Start_def)
  next
    case (event s ev E s')
    then show ?case using eventLoop_attended by blast
  qed
  moreover have "step_pending (reqStep (handleNewL1HeadBlock head s))" by simp
  ultimately show ?thesis
    by (auto simp: attended_def step_pending_def handleNewL1HeadBlock_def)
qed

definition sample_driver_config :: driver_config where
  "sample_driver_config = \<lparr>VerifierConfDepth = 4, SequencerConfDepth = 2, SequencerEnabled = True\<rparr>"

text \<open>The driver after a first L1 head and a derivation step that resets the engine queue.\<close>

definition sample_l1_head :: l1_block_ref where
  "sample_l1_head = \<lparr>l1_Hash = 95, l1_Number = 5, l1_ParentHash = 94, l1_Time = 160\<rparr>"

lemma sample_driver_reachable:
  "driver_reachable sample_driver_config (reqStep (handleNewL1HeadBlock sample_l1_head (Start NewState)))"
  by (rule event [OF started, of _ "L1HeadSignal sample_l1_head" sample_pipeline_env]) simp_all

theorem driver_keeps_deriving_witness:
  "\<exists>s. (enabled sample_driver_config s StepRequest \<or> enabled sample_driver_config s DelayedStep
      \<or> dr_idleDerivation s \<or> freshly_reset s)
    \<and> (\<exists>s'. eventLoop sample_driver_config sample_pipeline_env (L1HeadSignal zero_l1) s = Some (Continues s')
         \<and> dr_l1Head s' = zero_l1 \<and> (enabled sample_driver_config s' StepRequest \<or> enabled sample_driver_config s' DelayedStep))"
  using driver_keeps_deriving [OF sample_driver_reachable, of sample_pipeline_env zero_l1] by blast

section \<open>Sequencing and derivation\<close>

text \<open>The batch for the block that the sequencer builds on \<open>head\<close> with the given origin.\<close>

definition sequenced_batch :: "config \<Rightarrow> l2_block_ref \<Rightarrow> l1_block_ref \<Rightarrow> bytes list \<Rightarrow> batch_data" where
  "sequenced_batch cfg head origin txs = \<lparr>bt_ParentHash = l2_Hash head, bt_EpochNum = l1_Number origin,
     bt_EpochHash = l1_Hash origin, bt_Timestamp = l2_Time head + BlockTime cfg, bt_Transactions = txs\<rparr>"

lemma findL1Origin_choice:
  assumes "findL1Origin dcfg cfg l1 l1Head head = Inr origin"
    and "L1BlockRefByHash l1 (id_Hash (l2_L1Origin head)) = Inr current"
    and "L1BlockRefByNumber l1 (l1_Number current + 1) = Inr successor"
    and "id_Hash (l2_L1Origin head) = l1_Hash l1Head \<Longrightarrow> l1Head = current"
  shows "origin = current \<or> origin = successor"
  using assms by (auto simp: findL1Origin_def split: if_splits)

lemma CheckBatch_sequenced:
  assumes "l1_chain (current # successor # later)" and "l1_Hash current = id_Hash (l2_L1Origin head)"
    and "origin = current \<or> origin = successor" and "\<not> has_invalid_tx txs"
    and "l1_Number incl \<le> l1_Number origin + SeqWindowSize cfg"
  shows "CheckBatch cfg (current # successor # later) head
      \<lparr>bw_L1InclusionBlock = incl, bw_Batch = sequenced_batch cfg head origin txs\<rparr>
    = (if l2_Time head + BlockTime cfg > l1_Time origin + MaxSequencerDrift cfg then BatchDrop else BatchAccept)"
proof -
  note numbers = l1_chain_next [OF assms(1)]
  have "\<not> l1_Number successor < l1_Number current" using numbers(2) by (simp add: not_less less_imp_le)
  then have "select_batch_origin current (successor # later) (l1_Number origin) = Inr origin"
    using assms(3) numbers by (auto simp: select_batch_origin_def)
  with assms(2,4) leD [OF assms(5)] show ?thesis by (simp add: CheckBatch_on_time sequenced_batch_def)
qed

lemma createNewBlock_ok:
  assumes "createNewBlock G cfg dl eng head safe finalized origin = Inr (ref, payload)"
  obtains attrs where "at_Timestamp attrs = l2_Time head + BlockTime cfg"
    "at_NoTxPool attrs \<longleftrightarrow> l2_Time head + BlockTime cfg \<ge> l1_Time origin + MaxSequencerDrift cfg"
    "inserted eng \<lparr>fc_Head = l2_Hash head, fc_Safe = id_Hash safe, fc_Finalized = id_Hash finalized\<rparr> attrs False payload"
    "PayloadToBlockRef (g_tx G) payload (Genesis cfg) = Inr ref"
proof (cases "PreparePayloadAttributes G cfg dl head (l2_Time head + BlockTime cfg) (L1BlockRef_ID origin)")
  case (Inl e)
  with assms show ?thesis by (simp add: createNewBlock_def)
next
  case (Inr attrs0)
  define attrs where "attrs = attrs0\<lparr>at_NoTxPool := at_Timestamp attrs0 \<ge> l1_Time origin + MaxSequencerDrift cfg\<rparr>"
  define fc where "fc = \<lparr>fc_Head = l2_Hash head, fc_Safe = id_Hash safe, fc_Finalized = id_Hash finalized\<rparr>"
  have ts: "at_Timestamp attrs0 = l2_Time head + BlockTime cfg" by (rule PreparePayloadAttributes_ok [OF Inr]) simp
  obtain p kind err where ins: "InsertHeadBlock eng fc attrs False = (p, kind, err)" by (metis prod_cases3)
  have create: "createNewBlock G cfg dl eng head safe finalized origin =
      (case (p, kind, err) of
         (_, _, Some err) \<Rightarrow> Inl (if is_panic err then err else Plain ''failed to extend L2 chain'')
       | (None, _, None) \<Rightarrow> Inl (Panic ''nil pointer dereference'')
       | (Some payload, _, None) \<Rightarrow>
           (case PayloadToBlockRef (g_tx G) payload (Genesis cfg) of Inl c \<Rightarrow> Inl (Plain c) | Inr ref \<Rightarrow> Inr (ref, payload)))"
    unfolding createNewBlock_def Inr sum.case Let_def attrs_def [symmetric] fc_def [symmetric] ins ..
  have "err = None" using assms create by (cases err; cases p) simp_all
  moreover have "p = Some payload" "PayloadToBlockRef (g_tx G) payload (Genesis cfg) = Inr ref"
    using assms create \<open>err = None\<close> by (cases p; simp split: sum.splits)+
  ultimately show ?thesis
    using that [of attrs] InsertHeadBlock_ok [of eng fc attrs False p kind] ins ts
    by (simp add: attrs_def fc_def)
qed

lemma createNewL2Block_created:
  assumes "createNewL2Block dcfg E s = (None, Some payload, s')"
  obtains origin attrs where
    "findL1Origin dcfg (pe_cfg E) (pe_l1 E) (dr_l1Head s) (UnsafeL2Head s) = Inr origin"
    "l1_Time origin \<le> l2_Time (UnsafeL2Head s) + BlockTime (pe_cfg E)"
    "at_Timestamp attrs = l2_Time (UnsafeL2Head s) + BlockTime (pe_cfg E)"
    "at_NoTxPool attrs \<longleftrightarrow> l2_Time (UnsafeL2Head s) + BlockTime (pe_cfg E) \<ge> l1_Time origin + MaxSequencerDrift (pe_cfg E)"
    "inserted (pe_engine E) \<lparr>fc_Head = l2_Hash (UnsafeL2Head s), fc_Safe = l2_Hash (SafeL2Head s),
       fc_Finalized = l2_Hash (FinalizedL2 s)\<rparr> attrs False payload"
    "l2_Hash (UnsafeL2Head s') = pl_BlockHash payload"
proof -
  let ?create = "createNewBlock (pe_geth E) (pe_cfg E) (pe_l1 E) (pe_engine E) (UnsafeL2Head s)
    (L2BlockRef_ID (SafeL2Head s)) (L2BlockRef_ID (FinalizedL2 s))"
  from assms obtain origin where found:
    "findL1Origin dcfg (pe_cfg E) (pe_l1 E) (dr_l1Head s) (UnsafeL2Head s) = Inr origin"
    by (cases "findL1Origin dcfg (pe_cfg E) (pe_l1 E) (dr_l1Head s) (UnsafeL2Head s)")
      (simp_all add: createNewL2Block_def)
  have late: "\<not> l1_Number origin < id_Number (gen_L1 (Genesis (pe_cfg E)))"
    using assms found
    by (cases "l1_Number origin < id_Number (gen_L1 (Genesis (pe_cfg E)))") (simp_all add: createNewL2Block_def)
  have time: "\<not> l2_Time (UnsafeL2Head s) + BlockTime (pe_cfg E) < l1_Time origin"
  proof
    assume "l2_Time (UnsafeL2Head s) + BlockTime (pe_cfg E) < l1_Time origin"
    with assms found late show False by (simp only: createNewL2Block_def sum.case if_True if_False prod.inject option.distinct simp_thms)
  qed
  have eq: "createNewL2Block dcfg E s = (case ?create origin of Inl e \<Rightarrow> (Some e, None, s)
      | Inr (ref, p) \<Rightarrow> (None, Some p, s\<lparr>dr_derivation := DerivationPipeline_SetUnsafeHead ref (dr_derivation s)\<rparr>))"
    using found late time by (simp only: createNewL2Block_def sum.case if_False)
  obtain ref where origin: "?create origin = Inr (ref, payload)"
    "s' = s\<lparr>dr_derivation := DerivationPipeline_SetUnsafeHead ref (dr_derivation s)\<rparr>"
  proof (cases "?create origin")
    case (Inl e)
    then have "createNewL2Block dcfg E s = (Some e, None, s)" by (simp only: eq sum.case)
    with assms show ?thesis by simp
  next
    case (Inr rp)
    obtain ref p where rp: "rp = (ref, p)" by fastforce
    have "createNewL2Block dcfg E s = (None, Some p, s\<lparr>dr_derivation := DerivationPipeline_SetUnsafeHead ref (dr_derivation s)\<rparr>)"
      by (simp only: eq Inr rp sum.case prod.case)
    with assms have "p = payload" "s' = s\<lparr>dr_derivation := DerivationPipeline_SetUnsafeHead ref (dr_derivation s)\<rparr>" by simp_all
    then show ?thesis using that Inr rp by blast
  qed
  from createNewBlock_ok [OF origin(1)] obtain attrs where attrs:
    "at_Timestamp attrs = l2_Time (UnsafeL2Head s) + BlockTime (pe_cfg E)"
    "at_NoTxPool attrs \<longleftrightarrow> l2_Time (UnsafeL2Head s) + BlockTime (pe_cfg E) \<ge> l1_Time origin + MaxSequencerDrift (pe_cfg E)"
    "inserted (pe_engine E) \<lparr>fc_Head = l2_Hash (UnsafeL2Head s), fc_Safe = id_Hash (L2BlockRef_ID (SafeL2Head s)),
       fc_Finalized = id_Hash (L2BlockRef_ID (FinalizedL2 s))\<rparr> attrs False payload"
    "PayloadToBlockRef (g_tx (pe_geth E)) payload (Genesis (pe_cfg E)) = Inr ref" by blast
  have "l2_Hash (UnsafeL2Head s') = pl_BlockHash payload"
    using PayloadToBlockRef_fields(1) [OF attrs(4)]
    by (simp add: origin(2) UnsafeL2Head_def DerivationPipeline_SetUnsafeHead_def SetUnsafeHead_def)
  with that [OF found _ attrs(1,2)] attrs(3) time show ?thesis by (simp add: L2BlockRef_ID_def not_less)
qed


definition seq_origin :: l1_block_ref where
  "seq_origin = \<lparr>l1_Hash = 1, l1_Number = 0, l1_ParentHash = 0, l1_Time = 90\<rparr>"

definition seq_next :: l1_block_ref where
  "seq_next = \<lparr>l1_Hash = 91, l1_Number = 1, l1_ParentHash = 1, l1_Time = 200\<rparr>"

definition seq_env :: pipeline_env where
  "seq_env = sample_pipeline_env\<lparr>pe_l1 := no_l1\<lparr>L1BlockRefByHash := (\<lambda>h. Inr seq_origin),
     L1BlockRefByNumber := (\<lambda>n. Inr seq_next), InfoByHash := (\<lambda>h. Inr (sample_info\<lparr>bi_Hash := h\<rparr>))\<rparr>\<rparr>"

definition seq_driver :: driver where
  "seq_driver = NewState\<lparr>dr_l1Head := sample_l1_head, dr_derivation := NewDerivationPipeline\<lparr>dp_eng :=
     (dp_eng NewDerivationPipeline)\<lparr>eq_unsafeHead := chain_block 0, eq_safeHead := chain_block 0,
        eq_finalized := chain_block 0\<rparr>\<rparr>\<rparr>"

lemma seq_origin_found:
  "findL1Origin sample_driver_config sample_config (pe_l1 seq_env) sample_l1_head (chain_block 0) = Inr seq_origin"
  by (simp add: findL1Origin_def sample_driver_config_def sample_config_def seq_env_def sample_l1_head_def chain_block_def
      seq_origin_def seq_next_def)

definition seq_payload :: execution_payload where
  "seq_payload = sample_payload\<lparr>pl_ParentHash := 2, pl_BlockNumber := 1, pl_Timestamp := 102, pl_BlockHash := 3\<rparr>"

lemma seq_payload_sane: "sanityCheckPayload seq_payload = None"
proof -
  have "is_deposit (projr (L1InfoDepositBytes (\<lambda>bs. 0) sample_codec 3 sample_info))"
    by (simp add: L1InfoDepositBytes_def L1InfoDeposit_def L1BlockInfo_MarshalBinary_def FillBytes32_def sample_info_def
        sample_codec_def is_deposit_def)
  then show ?thesis by (simp add: sanityCheckPayload_None deposits_first_def seq_payload_def sample_payload_def)
qed

lemma seq_payload_ref: "\<exists>ref. PayloadToBlockRef (g_tx sample_geth) seq_payload (Genesis sample_config) = Inr ref"
proof -
  have "L1InfoDepositBytes (\<lambda>bs. 0) sample_codec 3 sample_info
      = Inr (projr (L1InfoDepositBytes (\<lambda>bs. 0) sample_codec 3 sample_info))"
    by (simp add: L1InfoDepositBytes_def L1InfoDeposit_def L1BlockInfo_MarshalBinary_def FillBytes32_def
        sample_info_def sample_codec_def)
  then show ?thesis
    by (rule L1InfoDepositTxData_deposit) (drule sample_codec_roundtrip,
      simp add: PayloadToBlockRef_def seq_payload_def sample_payload_def sample_geth_def sample_config_def)
qed

lemma seq_attributes:
  "\<exists>attrs. PreparePayloadAttributes sample_geth sample_config (pe_l1 seq_env) (chain_block 0) 102 (L1BlockRef_ID seq_origin)
     = Inr attrs \<and> at_Timestamp attrs = 102"
  by (simp add: PreparePayloadAttributes_def epoch_inputs_def seq_env_def seq_origin_def chain_block_def L1BlockRef_ID_def sample_config_def
      sample_geth_def L1InfoDepositBytes_def L1InfoDeposit_def L1BlockInfo_MarshalBinary_def FillBytes32_def
      sample_info_def sample_codec_def)

lemma seq_created: "\<exists>s'. createNewL2Block sample_driver_config seq_env seq_driver = (None, Some seq_payload, s')"
proof -
  have env: "pe_geth seq_env = sample_geth" "pe_cfg seq_env = sample_config" "pe_engine seq_env = sample_engine"
    by (simp_all add: seq_env_def sample_pipeline_env_def)
  have head: "UnsafeL2Head seq_driver = chain_block 0" "SafeL2Head seq_driver = chain_block 0"
    "FinalizedL2 seq_driver = chain_block 0" "dr_l1Head seq_driver = sample_l1_head"
    by (simp_all add: UnsafeL2Head_def SafeL2Head_def FinalizedL2_def seq_driver_def)
  have time: "l2_Time (chain_block 0) + BlockTime sample_config = 102" by (simp add: chain_block_def sample_config_def)
  obtain attrs where attrs: "PreparePayloadAttributes sample_geth sample_config (pe_l1 seq_env) (chain_block 0) 102
      (L1BlockRef_ID seq_origin) = Inr attrs" "at_Timestamp attrs = 102" using seq_attributes by blast
  have insert: "InsertHeadBlock sample_engine \<lparr>fc_Head = l2_Hash (chain_block 0), fc_Safe = s, fc_Finalized = f\<rparr>
      (attrs\<lparr>at_NoTxPool := b\<rparr>) False = (Some seq_payload, BlockInsertOK, None)" for s f b
    using seq_payload_sane attrs(2)
    by (simp add: InsertHeadBlock_def build_block_def adopt_block_def Let_def sample_engine_def chain_block_def seq_payload_def)
  obtain ref where "PayloadToBlockRef (g_tx sample_geth) seq_payload (Genesis sample_config) = Inr ref"
    using seq_payload_ref by blast
  then have "createNewBlock sample_geth sample_config (pe_l1 seq_env) sample_engine (chain_block 0) s f seq_origin
      = Inr (ref, seq_payload)" for s f
    by (simp add: createNewBlock_def time attrs insert Let_def)
  then show ?thesis
    by (simp add: createNewL2Block_def env head seq_origin_found)
      (simp add: sample_config_def seq_origin_def chain_block_def)
qed


end
