(* ===== verification/SSZ.thy ===== *)
theory SSZ
  imports Rollup_Types
begin

text \<open>
  The SSZ encoding of execution payloads, \<^verbatim>\<open>op-node/eth/ssz.go\<close>, as it is gossiped between nodes.

  Buffers come from a pool and keep what was in them: encoding starts from an arbitrary backing array, and
  a Go slice expression may reach up to the capacity of that array. \<open>blit\<close> is \<^verbatim>\<open>copy(buf[lo:hi], src)\<close>
  on a backing array and \<open>slice_of\<close> is the value of \<^verbatim>\<open>buf[lo:hi]\<close>; both fail where Go panics. Decoding leaves a
  partly written payload behind when it fails, which no caller looks at; the model returns only the error.
\<close>

section \<open>Slices of buffers\<close>

definition blit :: "nat \<Rightarrow> nat \<Rightarrow> bytes \<Rightarrow> bytes \<Rightarrow> bytes option" where
  "blit lo hi src buf =
    (if lo \<le> hi \<and> hi \<le> length buf
     then Some (take lo buf @ take (hi - lo) src @ drop (lo + length (take (hi - lo) src)) buf) else None)"

definition slice_of :: "u32 \<Rightarrow> u32 \<Rightarrow> bytes \<Rightarrow> bytes option" where
  "slice_of lo hi buf =
    (if lo \<le> hi \<and> unat hi \<le> length buf then Some (take (unat hi - unat lo) (drop (unat lo) buf)) else None)"

definition out_of_range :: derr where
  "out_of_range = Panic ''slice bounds out of range''"

definition le_bytes :: "'a::len word \<Rightarrow> bytes" where
  "le_bytes w = rev (word_bytes w)"

definition le_word :: "bytes \<Rightarrow> 'a::len word" where
  "le_word bs = bytes_word (rev bs)"

section \<open>Encoding\<close>

definition executionPayloadFixedPart :: u32 where
  "executionPayloadFixedPart = 32 + 20 + 32 + 32 + 256 + 32 + 8 + 8 + 8 + 8 + 4 + 32 + 32 + 4"

definition maxTransactionsPerPayload :: u32 where
  "maxTransactionsPerPayload = push_bit 20 1"

definition SizeSSZ :: "execution_payload \<Rightarrow> u32" where
  "SizeSSZ payload =
    foldl (\<lambda>full tx. full + word_of_nat (length tx))
      (executionPayloadFixedPart + word_of_nat (length (pl_ExtraData payload))
        + word_of_nat (length (pl_Transactions payload)) * 4)
      (pl_Transactions payload)"

text \<open>The four limbs of a \<^verbatim>\<open>uint256.Int\<close>, least significant first.\<close>

definition limb :: "256 word \<Rightarrow> nat \<Rightarrow> u64" where
  "limb z i = ucast (drop_bit (64 * i) z)"

definition marshalBytes32LE :: "256 word \<Rightarrow> bytes" where
  "marshalBytes32LE z = le_bytes (limb z 0) @ le_bytes (limb z 1) @ le_bytes (limb z 2) @ le_bytes (limb z 3)"

definition unmarshalBytes32LE :: "bytes \<Rightarrow> 256 word" where
  "unmarshalBytes32LE bs =
    (let z = (\<lambda>i. le_word (take 8 (drop (8 * i) bs)) :: u64)
     in word_of_nat (unat (z 0) + 2 ^ 64 * (unat (z 1) + 2 ^ 64 * (unat (z 2) + 2 ^ 64 * unat (z 3)))))"

text \<open>The fixed part, in the order in which \<^verbatim>\<open>MarshalSSZ\<close> writes it; each field is as wide as its slice.\<close>

definition fixed_fields :: "execution_payload \<Rightarrow> bytes list" where
  "fixed_fields payload =
    [word_bytes (pl_ParentHash payload), word_bytes (pl_FeeRecipient payload), word_bytes (pl_StateRoot payload),
     word_bytes (pl_ReceiptsRoot payload), word_bytes (pl_LogsBloom payload), word_bytes (pl_PrevRandao payload),
     le_bytes (pl_BlockNumber payload), le_bytes (pl_GasLimit payload), le_bytes (pl_GasUsed payload),
     le_bytes (pl_Timestamp payload), le_bytes executionPayloadFixedPart, marshalBytes32LE (pl_BaseFeePerGas payload),
     word_bytes (pl_BlockHash payload),
     le_bytes (executionPayloadFixedPart + word_of_nat (length (pl_ExtraData payload)))]"

fun put_fields :: "u32 \<Rightarrow> bytes list \<Rightarrow> bytes \<Rightarrow> (u32 \<times> bytes) option" where
  "put_fields offset [] buf = Some (offset, buf)"
| "put_fields offset (f # fs) buf =
    (let next = offset + word_of_nat (length f) in
     case blit (unat offset) (unat next) f buf of None \<Rightarrow> None | Some buf \<Rightarrow> put_fields next fs buf)"

fun marshalTransactions_loop :: "u32 \<Rightarrow> u32 \<Rightarrow> bytes list \<Rightarrow> bytes \<Rightarrow> bytes option" where
  "marshalTransactions_loop offset txOffset [] out = Some out"
| "marshalTransactions_loop offset txOffset (tx # txs) out =
    (case blit (unat offset) (unat (offset + 4)) (le_bytes txOffset) out of
       None \<Rightarrow> None
     | Some out \<Rightarrow>
         (let nextTxOffset = txOffset + word_of_nat (length tx) in
          case blit (unat txOffset) (unat nextTxOffset) tx out of
            None \<Rightarrow> None
          | Some out \<Rightarrow> marshalTransactions_loop (offset + 4) nextTxOffset txs out))"

definition marshalTransactions :: "bytes \<Rightarrow> bytes list \<Rightarrow> bytes option" where
  "marshalTransactions out txs = marshalTransactions_loop 0 (word_of_nat (length txs) * 4) txs out"

text \<open>
  \<open>pool\<close> is the backing array of the buffer taken from the pool. The buffer is its first \<open>scope\<close> bytes, and
  those are what is written to the writer.
\<close>

definition MarshalSSZ :: "bytes \<Rightarrow> execution_payload \<Rightarrow> derr + bytes" where
  "MarshalSSZ pool payload =
    (if length (pl_ExtraData payload) > 2 ^ 32 - 1 - unat executionPayloadFixedPart
     then Inl (Plain ''extra data too large'')
     else let scope = SizeSSZ payload;
              buf = (if (word_of_nat (length pool) :: u32) < scope then replicate (unat scope) 0 else pool)
     in case put_fields 0 (fixed_fields payload) buf of
          None \<Rightarrow> Inl out_of_range
        | Some (offset, buf) \<Rightarrow>
     if offset \<noteq> executionPayloadFixedPart then Inl (Panic ''fixed part size is inconsistent'')
     else let extraEnd = offset + word_of_nat (length (pl_ExtraData payload)) in
     case blit (unat offset) (unat extraEnd) (pl_ExtraData payload) buf of
       None \<Rightarrow> Inl out_of_range
     | Some buf \<Rightarrow>
     if extraEnd > scope then Inl out_of_range
     else case marshalTransactions (drop (unat extraEnd) buf) (pl_Transactions payload) of
       None \<Rightarrow> Inl out_of_range
     | Some out \<Rightarrow> Inr (take (unat scope) (take (unat extraEnd) buf @ out)))"

section \<open>Decoding\<close>

text \<open>The loop over the transactions, with the number of transactions still to read.\<close>

fun unmarshalTransactions_loop :: "bytes \<Rightarrow> u32 \<Rightarrow> nat \<Rightarrow> u32 \<Rightarrow> u32 \<Rightarrow> derr + bytes list" where
  "unmarshalTransactions_loop inp scope 0 offset currentTxOffset = Inr []"
| "unmarshalTransactions_loop inp scope (Suc left) offset currentTxOffset =
    (case (if 0 < left then map_option (\<lambda>bs. (le_word bs, offset + 4)) (slice_of offset (offset + 4) inp)
           else Some (scope, offset)) of
       None \<Rightarrow> Inl out_of_range
     | Some (nextTxOffset, offset) \<Rightarrow>
         if nextTxOffset < currentTxOffset \<or> nextTxOffset > scope then Inl (Plain ''tx has bad next offset'')
         else (case slice_of currentTxOffset nextTxOffset inp of
             None \<Rightarrow> Inl out_of_range
           | Some tx \<Rightarrow>
               (case unmarshalTransactions_loop inp scope left offset nextTxOffset of
                  Inl e \<Rightarrow> Inl e
                | Inr txs \<Rightarrow> Inr (tx # txs))))"

definition unmarshalTransactions :: "bytes \<Rightarrow> derr + bytes list" where
  "unmarshalTransactions inp =
    (let scope = (word_of_nat (length inp) :: u32) in
     if scope = 0 then Inr []
     else if scope < 4 then Inl (Plain ''not enough scope to read first tx offset'')
     else case slice_of 0 4 inp of
       None \<Rightarrow> Inl out_of_range
     | Some bs \<Rightarrow>
     let firstTxOffset = (le_word bs :: u32) in
     if firstTxOffset mod 4 \<noteq> 0 then Inl (Plain ''invalid first tx offset, not a multiple of offset size'')
     else if firstTxOffset > scope then Inl (Plain ''invalid first tx offset, out of scope'')
     else let txCount = firstTxOffset div 4 in
     if txCount > maxTransactionsPerPayload then Inl (Plain ''too many transactions'')
     else unmarshalTransactions_loop inp scope (unat txCount) 4 firstTxOffset)"

definition get_fixed :: "bytes \<Rightarrow> execution_payload" where
  "get_fixed buf = \<lparr>
     pl_ParentHash = bytes_word (take 32 buf), pl_FeeRecipient = bytes_word (take 20 (drop 32 buf)),
     pl_StateRoot = bytes_word (take 32 (drop 52 buf)), pl_ReceiptsRoot = bytes_word (take 32 (drop 84 buf)),
     pl_LogsBloom = bytes_word (take 256 (drop 116 buf)), pl_PrevRandao = bytes_word (take 32 (drop 372 buf)),
     pl_BlockNumber = le_word (take 8 (drop 404 buf)), pl_GasLimit = le_word (take 8 (drop 412 buf)),
     pl_GasUsed = le_word (take 8 (drop 420 buf)), pl_Timestamp = le_word (take 8 (drop 428 buf)),
     pl_ExtraData = [], pl_BaseFeePerGas = unmarshalBytes32LE (take 32 (drop 440 buf)),
     pl_BlockHash = bytes_word (take 32 (drop 472 buf)), pl_Transactions = []\<rparr>"

text \<open>The reader is the list of bytes it still holds.\<close>

definition UnmarshalSSZ :: "u32 \<Rightarrow> bytes \<Rightarrow> derr + execution_payload" where
  "UnmarshalSSZ scope r =
    (if scope < executionPayloadFixedPart then Inl (Plain ''scope too small to decode execution payload'')
     else if length r < unat scope then Inl (Plain ''failed to read fixed-size part of ExecutionPayload'')
     else let buf = take (unat scope) r;
              payload = get_fixed buf;
              extraDataOffset = (le_word (take 4 (drop 436 buf)) :: u32) in
     if extraDataOffset \<noteq> executionPayloadFixedPart then Inl (Plain ''unexpected extra data offset'')
     else let transactionsOffset = (le_word (take 4 (drop 504 buf)) :: u32) in
     if transactionsOffset < extraDataOffset then Inl (Plain ''transactions offset is smaller than extra data offset'')
     else if transactionsOffset > extraDataOffset + 32 \<or> transactionsOffset > scope
     then Inl (Plain ''extra-data is too large'')
     else case slice_of extraDataOffset transactionsOffset buf of
       None \<Rightarrow> Inl out_of_range
     | Some extra \<Rightarrow>
     case unmarshalTransactions (drop (unat transactionsOffset) buf) of
       Inl e \<Rightarrow> Inl e
     | Inr txs \<Rightarrow> Inr (payload\<lparr>pl_ExtraData := extra, pl_Transactions := txs\<rparr>))"

section \<open>Little-endian numbers\<close>

lemma le_bytes_simps [simp, byte_simps]:
  "length (le_bytes (w :: 'a::len word)) = LENGTH('a) div 8"
  "le_word (le_bytes (v :: u32)) = v" "le_word (le_bytes (x :: u64)) = x"
  by (simp_all add: le_bytes_def le_word_def)

lemma le_bytes_le_word: "length bs = 4 \<Longrightarrow> le_bytes (le_word bs :: u32) = bs"
  "length bs = 8 \<Longrightarrow> le_bytes (le_word bs :: u64) = bs"
  by (simp_all add: le_bytes_def le_word_def word_bytes_bytes_word)

lemma length_marshalBytes32LE [simp]: "length (marshalBytes32LE z) = 32"
  by (simp add: marshalBytes32LE_def)

lemma be_bytes_add: "be_bytes (n + m) x = be_bytes n (x div 256 ^ m) @ be_bytes m x"
  by (induction m arbitrary: x) (simp_all add: div_mult2_eq)

lemma unat_limb: "unat (limb z i) = unat z div 256 ^ (8 * i) mod 256 ^ 8"
proof -
  have "(256 :: nat) ^ (8 * i) = 2 ^ (64 * i)" by (simp add: power_mult)
  moreover have "unat (drop_bit (64 * i) z) = unat z div 2 ^ (64 * i)"
    unfolding unat_drop_bit_eq by (rule drop_bit_eq_div)
  ultimately show ?thesis by (simp add: limb_def unsigned_ucast_eq take_bit_eq_mod)
qed

lemma marshalBytes32LE_le_bytes: "marshalBytes32LE z = le_bytes z"
proof -
  have limb: "le_bytes (limb z i) = rev (be_bytes 8 (unat z div 256 ^ (8 * i)))" for i
    using be_bytes_mod [of 8 "unat z div 256 ^ (8 * i)"] by (simp add: le_bytes_def word_bytes_def unat_limb)
  have "word_bytes z = be_bytes (((8 + 8) + 8) + 8) (unat z)" by (simp add: word_bytes_def)
  also have "\<dots> = be_bytes 8 (unat z div 256 ^ (8 * 3)) @ be_bytes 8 (unat z div 256 ^ (8 * 2))
      @ be_bytes 8 (unat z div 256 ^ (8 * 1)) @ be_bytes 8 (unat z div 256 ^ (8 * 0))"
    unfolding be_bytes_add by (simp add: div_mult2_eq [symmetric])
  finally show ?thesis
    unfolding marshalBytes32LE_def limb by (simp add: le_bytes_def)
qed

lemma be_val_le_word: "length bs = 8 \<Longrightarrow> be_val (rev bs) = unat (le_word bs :: u64)"
  using be_val_less [of "rev bs"] by (simp add: le_word_def bytes_word_def unat_of_nat)

lemma unmarshalBytes32LE_le_word:
  assumes "length bs = 32"
  shows "unmarshalBytes32LE bs = le_word bs"
proof -
  define d where "d i = take 8 (drop (8 * i) bs)" for i
  have len: "length (d 0) = 8" "length (d 1) = 8" "length (d 2) = 8" "length (d 3) = 8" using assms by (simp_all add: d_def)
  have "take (8 + (8 + (8 + 8))) bs = d 0 @ d 1 @ d 2 @ d 3"
    unfolding take_add drop_drop by (simp add: d_def)
  then have bs: "bs = d 0 @ d 1 @ d 2 @ d 3" using assms by simp
  have "be_val (rev bs) = be_val (rev (d 3) @ rev (d 2) @ rev (d 1) @ rev (d 0))" by (subst bs) simp
  also have "\<dots> = unat (le_word (d 0) :: u64) + 256 ^ 8 * (unat (le_word (d 1) :: u64) + 256 ^ 8 * (unat (le_word (d 2) :: u64)
      + 256 ^ 8 * unat (le_word (d 3) :: u64)))"
    unfolding be_val_append be_val_le_word [OF len(1)] be_val_le_word [OF len(2)] be_val_le_word [OF len(3)] be_val_le_word [OF len(4)]
    by (simp add: len len(2) [unfolded One_nat_def])
  finally have "le_word bs = (word_of_nat (unat (le_word (d 0) :: u64) + 2 ^ 64 * (unat (le_word (d 1) :: u64)
      + 2 ^ 64 * (unat (le_word (d 2) :: u64) + 2 ^ 64 * unat (le_word (d 3) :: u64)))) :: 256 word)"
    by (simp add: le_word_def bytes_word_def del: of_nat_add of_nat_mult)
  then show ?thesis unfolding unmarshalBytes32LE_def Let_def d_def by (simp only:)
qed

lemma unmarshalBytes32LE_marshalBytes32LE [simp]: "unmarshalBytes32LE (marshalBytes32LE z) = z"
  by (simp add: unmarshalBytes32LE_le_word) (simp add: marshalBytes32LE_le_bytes le_word_def le_bytes_def)

lemma marshalBytes32LE_unmarshalBytes32LE: "length bs = 32 \<Longrightarrow> marshalBytes32LE (unmarshalBytes32LE bs) = bs"
  by (simp add: unmarshalBytes32LE_le_word) (simp add: marshalBytes32LE_le_bytes le_word_def le_bytes_def word_bytes_bytes_word)

section \<open>What the encoder writes\<close>

lemma blit_exact:
  "lo + length src = hi \<Longrightarrow> hi \<le> length buf \<Longrightarrow> blit lo hi src buf = Some (take lo buf @ src @ drop hi buf)"
  by (auto simp: blit_def)

lemma unat_add_small: "unat (a :: u32) + n < 2 ^ 32 \<Longrightarrow> unat (a + word_of_nat n) = unat a + n"
  by (simp add: unat_word_ariths unat_of_nat)

lemma put_fields_writes:
  assumes "unat offset + length (concat fs) \<le> length buf" "unat offset + length (concat fs) < 2 ^ 32"
  shows "put_fields offset fs buf = Some (offset + word_of_nat (length (concat fs)),
    take (unat offset) buf @ concat fs @ drop (unat offset + length (concat fs)) buf)"
  using assms
proof (induction fs arbitrary: offset buf)
  case (Cons f fs)
  have step: "unat (offset + word_of_nat (length f)) = unat offset + length f"
    using Cons.prems by (intro unat_add_small) simp
  have "put_fields offset (f # fs) buf
      = put_fields (offset + word_of_nat (length f)) fs (take (unat offset) buf @ f @ drop (unat offset + length f) buf)"
    using Cons.prems by (simp add: step blit_exact)
  also have "\<dots> = Some (offset + word_of_nat (length (concat (f # fs))),
      take (unat offset) buf @ concat (f # fs) @ drop (unat offset + length (concat (f # fs))) buf)"
    using Cons.prems by (subst Cons.IH) (simp_all add: step ac_simps)
  finally show ?case .
qed simp

text \<open>The table of offsets in front of the transactions.\<close>

fun offsets :: "nat \<Rightarrow> bytes list \<Rightarrow> bytes" where
  "offsets pos [] = []"
| "offsets pos (tx # txs) = le_bytes (word_of_nat pos :: u32) @ offsets (pos + length tx) txs"

lemma length_offsets [simp]: "length (offsets pos txs) = 4 * length txs"
  by (induction txs arbitrary: pos) auto

lemma blit_app:
  "length pre = lo \<Longrightarrow> length old = length src \<Longrightarrow> lo + length src = hi \<Longrightarrow>
     blit lo hi src (pre @ old @ post) = Some (pre @ src @ post)"
  by (simp add: blit_exact)

lemma marshalTransactions_loop_writes:
  assumes "length A = unat offset" "length B = 4 * length txs" "length A + length B + length M = unat txOffset"
    "length T = length (concat txs)" "unat txOffset + length (concat txs) < 2 ^ 32"
  shows "marshalTransactions_loop offset txOffset txs (A @ B @ M @ T @ R)
    = Some (A @ offsets (unat txOffset) txs @ M @ concat txs @ R)"
  using assms
proof (induction txs arbitrary: offset txOffset A B M T)
  case (Cons tx txs)
  define b B' t T' where "b = take 4 B" "B' = drop 4 B" "t = take (length tx) T" "T' = drop (length tx) T"
  then have B: "B = b @ B'" "length b = 4" "length B' = 4 * length txs"
    and T: "T = t @ T'" "length t = length tx" "length T' = length (concat txs)"
    using Cons.prems by simp_all
  let ?le = "le_bytes txOffset"
  have step: "unat (offset + 4) = unat offset + 4" "unat (txOffset + word_of_nat (length tx)) = unat txOffset + length tx"
    using unat_add_small [of offset 4] unat_add_small [of txOffset "length tx"] Cons.prems by simp_all
  have first: "blit (unat offset) (unat (offset + 4)) ?le (A @ B @ M @ T @ R) = Some (A @ ?le @ B' @ M @ T @ R)"
    using blit_app [of A "unat offset" b ?le "unat (offset + 4)" "B' @ M @ T @ R"] Cons.prems(1) B(1,2) step(1) by simp
  have "blit (unat txOffset) (unat (txOffset + word_of_nat (length tx))) tx (A @ ?le @ B' @ M @ T @ R)
      = Some (A @ ?le @ B' @ M @ tx @ T' @ R)"
    using blit_app [of "A @ ?le @ B' @ M" "unat txOffset" t tx "unat (txOffset + word_of_nat (length tx))" "T' @ R"]
      Cons.prems(3) B(1,2) T(1,2) step(2) by simp
  with first have "marshalTransactions_loop offset txOffset (tx # txs) (A @ B @ M @ T @ R)
      = marshalTransactions_loop (offset + 4) (txOffset + word_of_nat (length tx)) txs ((A @ ?le) @ B' @ (M @ tx) @ T' @ R)"
    by simp
  also have "\<dots> = Some ((A @ ?le) @ offsets (unat (txOffset + word_of_nat (length tx))) txs @ (M @ tx) @ concat txs @ R)"
    using Cons.prems B T step by (intro Cons.IH) auto
  finally show ?case by (simp add: step)
qed simp

lemma marshalTransactions_writes:
  assumes "4 * length txs + length (concat txs) = length out" "length out < 2 ^ 32"
  shows "marshalTransactions (out @ R) txs = Some (offsets (4 * length txs) txs @ concat txs @ R)"
proof -
  have start: "unat (word_of_nat (length txs) * 4 :: u32) = 4 * length txs"
    using assms by (simp add: unat_word_ariths unat_of_nat)
  have "marshalTransactions (out @ R) txs = marshalTransactions_loop 0 (word_of_nat (length txs) * 4) txs
      ([] @ take (4 * length txs) out @ [] @ drop (4 * length txs) out @ R)"
    by (simp add: marshalTransactions_def flip: append_assoc)
  also have "\<dots> = Some ([] @ offsets (4 * length txs) txs @ [] @ concat txs @ R)"
    using assms unfolding start [symmetric] by (intro marshalTransactions_loop_writes) (auto simp: start)
  finally show ?thesis by simp
qed

definition fixed_part :: "execution_payload \<Rightarrow> bytes" where
  "fixed_part p = concat (fixed_fields p)"

lemma length_fixed_part [simp]: "length (fixed_part p) = 508"
  by (simp add: fixed_part_def fixed_fields_def)

text \<open>The size of the encoding, and the encoding as a value.\<close>

definition payload_size :: "execution_payload \<Rightarrow> nat" where
  "payload_size p = 508 + length (pl_ExtraData p) + 4 * length (pl_Transactions p) + length (concat (pl_Transactions p))"

definition encoding :: "execution_payload \<Rightarrow> bytes" where
  "encoding p = fixed_part p @ pl_ExtraData p
     @ offsets (4 * length (pl_Transactions p)) (pl_Transactions p) @ concat (pl_Transactions p)"

lemma length_encoding [simp]: "length (encoding p) = payload_size p"
  by (simp add: encoding_def payload_size_def)

lemma foldl_add_word: "foldl (\<lambda>full tx. full + word_of_nat (length tx)) (a :: u32) txs = a + word_of_nat (length (concat txs))"
  by (induction txs arbitrary: a) simp_all

lemma SizeSSZ_eq: "SizeSSZ p = word_of_nat (payload_size p)"
  by (simp add: SizeSSZ_def foldl_add_word payload_size_def executionPayloadFixedPart_def)

lemma unat_SizeSSZ: "payload_size p < 2 ^ 32 \<Longrightarrow> unat (SizeSSZ p) = payload_size p"
  by (simp add: SizeSSZ_eq unat_of_nat)

lemma unat_fixed [simp]: "unat executionPayloadFixedPart = 508"
  by (simp add: executionPayloadFixedPart_def)

lemma pool_large:
  assumes "\<not> (word_of_nat (length pool) :: u32) < scope"
  shows "unat scope \<le> length pool"
proof -
  have "unat scope \<le> unat (word_of_nat (length pool) :: u32)" using assms by (simp add: word_le_nat_alt not_less)
  also have "\<dots> \<le> length pool" by (simp add: unat_of_nat)
  finally show ?thesis .
qed

lemma split3:
  assumes "m + n \<le> length xs"
  shows "\<exists>as bs cs. xs = as @ bs @ cs \<and> length as = m \<and> length bs = n"
proof (intro exI conjI)
  show "xs = take m xs @ take n (drop m xs) @ drop n (drop m xs)" by (simp only: append_take_drop_id)
qed (use assms in auto)

lemma MarshalSSZ_encoding:
  assumes size: "payload_size p < 2 ^ 32"
  shows "MarshalSSZ pool p = Inr (encoding p)"
proof -
  define buf where "buf = (if (word_of_nat (length pool) :: u32) < SizeSSZ p then replicate (unat (SizeSSZ p)) 0 else pool)"
  let ?txs = "pl_Transactions p"
  have scope: "unat (SizeSSZ p) = payload_size p" using size by (rule unat_SizeSSZ)
  have long: "payload_size p \<le> length buf" using pool_large [of pool "SizeSSZ p"] scope by (simp add: buf_def)
  obtain e out R where rest: "drop 508 buf = e @ out @ R" and len: "length e = length (pl_ExtraData p)"
    "4 * length ?txs + length (concat ?txs) = length out"
  proof -
    have "length (pl_ExtraData p) + (4 * length ?txs + length (concat ?txs)) \<le> length (drop 508 buf)"
      using long by (simp add: payload_size_def)
    from split3 [OF this] show ?thesis using that by metis
  qed
  have fields: "put_fields 0 (fixed_fields p) buf = Some (508, fixed_part p @ e @ out @ R)"
    using put_fields_writes [of 0 "fixed_fields p" buf] long rest by (simp flip: fixed_part_def add: payload_size_def)
  have extraEnd: "unat (508 + word_of_nat (length (pl_ExtraData p)) :: u32) = 508 + length (pl_ExtraData p)"
    using unat_add_small [of 508 "length (pl_ExtraData p)"] size by (simp add: payload_size_def)
  have extra: "blit 508 (508 + length (pl_ExtraData p)) (pl_ExtraData p) (fixed_part p @ e @ out @ R)
      = Some (fixed_part p @ pl_ExtraData p @ out @ R)"
    using len by (intro blit_app) simp_all
  have txs: "marshalTransactions (out @ R) ?txs = Some (offsets (4 * length ?txs) ?txs @ concat ?txs @ R)"
    using len size by (intro marshalTransactions_writes) (auto simp: payload_size_def)
  have "\<not> length (pl_ExtraData p) > 2 ^ 32 - 1 - unat executionPayloadFixedPart"
    "\<not> 508 + word_of_nat (length (pl_ExtraData p)) > SizeSSZ p"
    using size by (simp_all add: payload_size_def word_less_nat_alt extraEnd scope)
  then show ?thesis
    unfolding MarshalSSZ_def Let_def buf_def [symmetric] fields
    using extra txs extraEnd scope
    by (simp add: executionPayloadFixedPart_def encoding_def payload_size_def)
qed

section \<open>What the decoder reads\<close>

lemma get_fixed_encoding:
  "get_fixed (fixed_part p @ r) = p\<lparr>pl_ExtraData := [], pl_Transactions := []\<rparr>"
  "le_word (take 4 (drop 436 (fixed_part p @ r))) = executionPayloadFixedPart"
  "le_word (take 4 (drop 504 (fixed_part p @ r))) = executionPayloadFixedPart + word_of_nat (length (pl_ExtraData p))"
proof -
  have bloom: "bytes_word (word_bytes (pl_LogsBloom p)) = pl_LogsBloom p" by (rule bytes_word_word_bytes) simp
  show "get_fixed (fixed_part p @ r) = p\<lparr>pl_ExtraData := [], pl_Transactions := []\<rparr>"
    unfolding get_fixed_def fixed_part_def fixed_fields_def by (simp add: bloom)
qed (simp_all add: fixed_part_def fixed_fields_def)

lemma fixed_part_get_fixed:
  assumes "508 \<le> length buf" "le_word (take 4 (drop 436 buf)) = executionPayloadFixedPart"
    "le_word (take 4 (drop 504 buf)) = executionPayloadFixedPart + word_of_nat (length extra)"
  shows "fixed_part ((get_fixed buf)\<lparr>pl_ExtraData := extra, pl_Transactions := txs\<rparr>) = take 508 buf"
proof -
  have "take (32 + (20 + (32 + (32 + (256 + (32 + (8 + (8 + (8 + (8 + (4 + (32 + (32 + 4))))))))))))) buf
      = take 32 buf @ take 20 (drop 32 buf) @ take 32 (drop 52 buf) @ take 32 (drop 84 buf) @ take 256 (drop 116 buf)
        @ take 32 (drop 372 buf) @ take 8 (drop 404 buf) @ take 8 (drop 412 buf) @ take 8 (drop 420 buf)
        @ take 8 (drop 428 buf) @ take 4 (drop 436 buf) @ take 32 (drop 440 buf) @ take 32 (drop 472 buf)
        @ take 4 (drop 504 buf)"
    unfolding take_add drop_drop by simp
  moreover have "le_bytes executionPayloadFixedPart = take 4 (drop 436 buf)"
    "le_bytes (executionPayloadFixedPart + word_of_nat (length extra)) = take 4 (drop 504 buf)"
    using le_bytes_le_word(1) [of "take 4 (drop 436 buf)"] le_bytes_le_word(1) [of "take 4 (drop 504 buf)"] assms by simp_all
  ultimately show ?thesis
    using assms(1)
    by (simp add: fixed_part_def fixed_fields_def get_fixed_def word_bytes_bytes_word le_bytes_le_word(2)
        marshalBytes32LE_unmarshalBytes32LE)
qed

lemma slice_of_eq: "lo \<le> hi \<Longrightarrow> unat hi \<le> length buf \<Longrightarrow> slice_of lo hi buf = Some (take (unat hi - unat lo) (drop (unat lo) buf))"
  by (simp add: slice_of_def)

lemma take_drop_concat:
  assumes "unat (cur :: u32) \<le> unat (nxt :: u32)" "unat nxt \<le> length inp"
  shows "drop (unat cur) inp = tx @ rest \<and> unat nxt = unat cur + length tx
    \<longleftrightarrow> tx = take (unat nxt - unat cur) (drop (unat cur) inp) \<and> rest = drop (unat nxt) inp"
proof
  assume split: "drop (unat cur) inp = tx @ rest \<and> unat nxt = unat cur + length tx"
  then have "rest = drop (length tx) (drop (unat cur) inp)" by simp
  then have "rest = drop (unat nxt) inp" unfolding drop_drop using split by (simp add: add.commute)
  then show "tx = take (unat nxt - unat cur) (drop (unat cur) inp) \<and> rest = drop (unat nxt) inp" using split by simp
next
  assume "tx = take (unat nxt - unat cur) (drop (unat cur) inp) \<and> rest = drop (unat nxt) inp"
  moreover have "drop (unat nxt) inp = drop (unat nxt - unat cur) (drop (unat cur) inp)" using assms(1) by simp
  ultimately show "drop (unat cur) inp = tx @ rest \<and> unat nxt = unat cur + length tx"
    using assms by (simp add: append_take_drop_id del: drop_drop)
qed

text \<open>The transactions that the rest of the offset table and the rest of the data describe.\<close>

definition described :: "bytes \<Rightarrow> nat \<Rightarrow> nat \<Rightarrow> nat \<Rightarrow> bytes list \<Rightarrow> bool" where
  "described inp n off cur txs \<longleftrightarrow> length txs = n \<and> (n = 0 \<or> drop cur inp = concat txs
     \<and> take (4 * (n - 1)) (drop off inp) = offsets (cur + length (hd txs)) (tl txs))"

lemma described_0 [simp]: "described inp 0 off cur txs \<longleftrightarrow> txs = []"
  by (auto simp: described_def)

lemma described_Nil [simp]: "\<not> described inp (Suc n) off cur []"
  by (simp add: described_def)

lemma described_1: "described inp (Suc 0) off cur txs \<longleftrightarrow> txs = [drop cur inp]"
  by (auto simp: described_def length_Suc_conv)

lemma take_eq_append:
  "length ys = m \<Longrightarrow> m + n \<le> length xs \<Longrightarrow> take (m + n) xs = ys @ zs \<longleftrightarrow> take m xs = ys \<and> take n (drop m xs) = zs"
  by (auto simp: take_add)

lemma described_Suc:
  fixes off cur :: u32
  assumes "unat off + 4 * Suc n \<le> length inp" "length inp < 2 ^ 32" "unat cur \<le> length inp"
  defines "nxt \<equiv> le_word (take 4 (drop (unat off) inp)) :: u32"
  shows "described inp (Suc (Suc n)) (unat off) (unat cur) (tx # txs) \<longleftrightarrow>
    unat cur \<le> unat nxt \<and> unat nxt \<le> length inp \<and> tx = take (unat nxt - unat cur) (drop (unat cur) inp)
      \<and> described inp (Suc n) (unat off + 4) (unat nxt) txs"
    (is "?lhs \<longleftrightarrow> ?rhs")
proof (cases txs)
  case (Cons t rest)
  have le: "le_bytes nxt = take 4 (drop (unat off) inp)" unfolding nxt_def using assms by (intro le_bytes_le_word) simp
  have fits: "unat cur + length tx \<le> length inp" if "drop (unat cur) inp = tx @ concat txs"
    using arg_cong [OF that, of length] assms(3) by auto
  then have nxt: "unat nxt = unat cur + length tx"
    if "drop (unat cur) inp = tx @ concat txs" "le_bytes nxt = le_bytes (word_of_nat (unat cur + length tx) :: u32)"
    using arg_cong [OF that(2), of "le_word :: bytes \<Rightarrow> u32"] that(1) assms(2) by (simp add: unat_of_nat del: of_nat_add)
  have "?lhs \<longleftrightarrow> length rest = n \<and> drop (unat cur) inp = tx @ concat txs
      \<and> take (4 + 4 * n) (drop (unat off) inp)
        = le_bytes (word_of_nat (unat cur + length tx) :: u32) @ offsets (unat cur + length tx + length t) rest"
    using Cons by (auto simp: described_def)
  also have "\<dots> \<longleftrightarrow> length rest = n \<and> drop (unat cur) inp = tx @ concat txs
      \<and> le_bytes nxt = le_bytes (word_of_nat (unat cur + length tx) :: u32)
      \<and> take (4 * n) (drop (unat off + 4) inp) = offsets (unat cur + length tx + length t) rest"
    using assms(1) by (subst take_eq_append) (auto simp: le add.commute)
  also have "\<dots> \<longleftrightarrow> length rest = n \<and> (drop (unat cur) inp = tx @ concat txs \<and> unat nxt = unat cur + length tx)
      \<and> take (4 * n) (drop (unat off + 4) inp) = offsets (unat cur + length tx + length t) rest"
  proof -
    have "word_of_nat (unat cur + length tx) = nxt" if "unat nxt = unat cur + length tx" using that [symmetric] by simp
    then show ?thesis using nxt by blast
  qed
  also have "\<dots> \<longleftrightarrow> ?rhs"
    using take_drop_concat [of cur nxt inp tx "concat txs"] fits Cons by (auto simp: described_def)
  finally show ?thesis .
qed (auto simp: described_def)

lemma unmarshalTransactions_loop_iff:
  assumes "unat scope = length inp" "length inp < 2 ^ 32" "unat cur \<le> length inp" "unat off + 4 * (n - 1) \<le> length inp"
  shows "(unmarshalTransactions_loop inp scope n off cur = Inr txs \<longleftrightarrow> described inp n (unat off) (unat cur) txs)
    \<and> unmarshalTransactions_loop inp scope n off cur \<noteq> Inl (Panic c)"
  using assms
proof (induction n arbitrary: off cur txs)
  case (Suc n)
  show ?case
  proof (cases n)
    case 0
    have "slice_of cur scope inp = Some (drop (unat cur) inp)" "\<not> scope < cur"
      using Suc.prems by (simp_all add: slice_of_eq word_le_nat_alt word_less_nat_alt)
    with 0 show ?thesis by (auto simp: described_1)
  next
    case (Suc m)
    define nxt where "nxt = (le_word (take 4 (drop (unat off) inp)) :: u32)"
    have room: "unat off + 4 * Suc m \<le> length inp" using Suc.prems Suc by simp
    have off: "unat (off + 4) = unat off + 4" using unat_add_small [of off 4] Suc.prems(2) room by simp
    have "slice_of off (off + 4) inp = Some (take 4 (drop (unat off) inp))"
      using room off by (simp add: slice_of_eq word_le_nat_alt)
    then have read: "unmarshalTransactions_loop inp scope (Suc n) off cur =
        (if nxt < cur \<or> nxt > scope then Inl (Plain ''tx has bad next offset'')
         else case slice_of cur nxt inp of None \<Rightarrow> Inl out_of_range
           | Some tx \<Rightarrow> (case unmarshalTransactions_loop inp scope n (off + 4) nxt of Inl e \<Rightarrow> Inl e | Inr txs \<Rightarrow> Inr (tx # txs)))"
    proof -
      have "0 < n" using Suc by simp
      then show ?thesis unfolding nxt_def using \<open>slice_of off (off + 4) inp = _\<close> by simp
    qed
    show ?thesis
    proof (cases "nxt < cur \<or> nxt > scope")
      case True
      then have "\<not> described inp (Suc n) (unat off) (unat cur) txs"
        using described_Suc [OF room Suc.prems(2,3), folded nxt_def] Suc Suc.prems(1)
        by (cases txs) (auto simp: word_less_nat_alt)
      with True show ?thesis unfolding read by simp
    next
      case False
      then have ok: "unat cur \<le> unat nxt" "unat nxt \<le> length inp" using Suc.prems(1) by (simp_all add: word_less_nat_alt not_less)
      then have tx: "slice_of cur nxt inp = Some (take (unat nxt - unat cur) (drop (unat cur) inp))"
        by (simp add: slice_of_eq word_le_nat_alt)
      have IH: "(unmarshalTransactions_loop inp scope n (off + 4) nxt = Inr ts \<longleftrightarrow> described inp n (unat off + 4) (unat nxt) ts)
          \<and> unmarshalTransactions_loop inp scope n (off + 4) nxt \<noteq> Inl (Panic c)" for ts
        using Suc.IH [of nxt "off + 4" ts] Suc.prems(1,2) ok(2) room off Suc by simp
      have "described inp (Suc n) (unat off) (unat cur) txs \<longleftrightarrow>
          (\<exists>ts. txs = take (unat nxt - unat cur) (drop (unat cur) inp) # ts \<and> described inp n (unat off + 4) (unat nxt) ts)"
        using described_Suc [OF room Suc.prems(2,3), folded nxt_def] Suc ok by (cases txs) auto
      with IH False show ?thesis
        unfolding read by (cases "unmarshalTransactions_loop inp scope n (off + 4) nxt") (auto simp: tx)
    qed
  qed
qed auto

text \<open>
  A transactions region that starts with a zero offset is read as an empty list, whatever follows.
\<close>

definition ignored :: "bytes \<Rightarrow> bool" where
  "ignored region \<longleftrightarrow> 4 \<le> length region \<and> take 4 region = replicate 4 0"

lemma be_bytes_0 [simp]: "be_bytes n 0 = replicate n 0"
  by (induction n) (simp_all add: replicate_append_same)

lemma le_bytes_0: "le_bytes (0 :: u32) = replicate 4 0"
  by (simp add: le_bytes_def word_bytes_def)

lemma described_table:
  assumes "txs \<noteq> []" "4 * length txs \<le> length inp"
  shows "take 4 inp = le_bytes (word_of_nat (4 * length txs) :: u32) \<and> described inp (length txs) 4 (4 * length txs) txs
    \<longleftrightarrow> inp = offsets (4 * length txs) txs @ concat txs"
proof -
  obtain tx rest where txs: "txs = tx # rest" using assms(1) by (cases txs) auto
  let ?n = "4 * length txs"
  have "inp = offsets ?n txs @ concat txs \<longleftrightarrow> take ?n inp = offsets ?n txs \<and> drop ?n inp = concat txs"
    using assms(2) append_eq_conv_conj [of "offsets ?n txs" "concat txs" inp] by auto
  also have "take ?n inp = take (4 + 4 * length rest) inp" by (simp add: txs)
  also have "take (4 + 4 * length rest) inp = offsets ?n txs \<longleftrightarrow>
      take 4 inp = le_bytes (word_of_nat ?n :: u32) \<and> take (4 * length rest) (drop 4 inp) = offsets (?n + length tx) rest"
    using assms(2) txs take_eq_append [of "le_bytes (word_of_nat ?n :: u32)" 4 "4 * length rest" inp] by simp
  finally show ?thesis by (auto simp: described_def txs)
qed

lemma unmarshalTransactions_region:
  assumes "length inp < 2 ^ 32" "4 \<le> length inp"
  defines "first \<equiv> le_word (take 4 inp) :: u32"
  shows "unmarshalTransactions inp =
    (if unat first mod 4 \<noteq> 0 then Inl (Plain ''invalid first tx offset, not a multiple of offset size'')
     else if length inp < unat first then Inl (Plain ''invalid first tx offset, out of scope'')
     else if 2 ^ 20 < unat first div 4 then Inl (Plain ''too many transactions'')
     else unmarshalTransactions_loop inp (word_of_nat (length inp)) (unat first div 4) 4 first)"
proof -
  have scope: "unat (word_of_nat (length inp) :: u32) = length inp" using assms by (simp add: unat_of_nat)
  have "first mod 4 = 0 \<longleftrightarrow> unat first mod 4 = 0" by (simp add: word_unat_eq_iff unat_mod_distrib)
  moreover have "unat (first div 4) = unat first div 4" by (simp add: unat_div_distrib)
  moreover have "slice_of 0 4 inp = Some (take 4 inp)" using assms by (simp add: slice_of_eq)
  ultimately show ?thesis
    using assms(2) unfolding unmarshalTransactions_def Let_def maxTransactionsPerPayload_def first_def [symmetric]
    by (auto simp: word_unat_eq_iff word_less_nat_alt scope first_def)
qed

lemma unmarshalTransactions_short:
  assumes "length inp < 4"
  shows "unmarshalTransactions inp
    = (if inp = [] then Inr [] else Inl (Plain ''not enough scope to read first tx offset''))"
proof -
  have "unat (word_of_nat (length inp) :: u32) = length inp" using assms by (simp add: unat_of_nat)
  with assms show ?thesis by (simp add: unmarshalTransactions_def word_unat_eq_iff word_less_nat_alt)
qed

lemma unmarshalTransactions_iff:
  assumes len: "length inp < 2 ^ 32"
  shows "unmarshalTransactions inp = Inr txs \<longleftrightarrow>
      length txs \<le> 2 ^ 20 \<and> inp = offsets (4 * length txs) txs @ concat txs \<or> txs = [] \<and> ignored inp"
    (is "_ \<longleftrightarrow> ?encoded \<or> ?ignored")
proof (cases "4 \<le> length inp")
  case True
  define first where "first = (le_word (take 4 inp) :: u32)"
  have le: "take 4 inp = le_bytes first" unfolding first_def using True by (intro le_bytes_le_word [symmetric]) simp
  have val: "unat first = 4 * length txs" if "take 4 inp = le_bytes (word_of_nat (4 * length txs) :: u32)" "4 * length txs \<le> length inp"
    using that len unfolding first_def by (simp add: unat_of_nat del: of_nat_mult)
  have loop: "unmarshalTransactions_loop inp (word_of_nat (length inp)) (unat first div 4) 4 first = Inr txs
      \<longleftrightarrow> described inp (unat first div 4) 4 (unat first) txs" if "unat first \<le> length inp"
    using unmarshalTransactions_loop_iff [of "word_of_nat (length inp)" inp first 4 "unat first div 4" txs] that len True
    by (simp add: unat_of_nat)
  have encoded: "?encoded \<longleftrightarrow> txs \<noteq> [] \<and> length txs \<le> 2 ^ 20 \<and> unat first = 4 * length txs \<and> unat first \<le> length inp
      \<and> described inp (length txs) 4 (4 * length txs) txs"
  proof (cases "txs = [] \<or> length inp < 4 * length txs")
    case True
    then show ?thesis using \<open>4 \<le> length inp\<close> by auto
  next
    case False
    have "take 4 inp = le_bytes (word_of_nat (4 * length txs) :: u32) \<longleftrightarrow> unat first = 4 * length txs"
      using val False le by (metis not_less of_nat_unat ucast_id)
    with False described_table [of txs inp] show ?thesis by auto
  qed
  have ignored: "ignored inp \<longleftrightarrow> unat first = 0"
  proof -
    have "le_bytes first = le_bytes (0 :: u32) \<longleftrightarrow> first = 0"
      by (auto dest: arg_cong [where f = "le_word :: bytes \<Rightarrow> u32"])
    then show ?thesis using True le by (simp add: ignored_def le_bytes_0 unsigned_eq_0_iff)
  qed
  show ?thesis
  proof (cases "unat first mod 4 = 0 \<and> unat first \<le> length inp \<and> unat first div 4 \<le> 2 ^ 20")
    case ok: True
    then have "unmarshalTransactions inp = Inr txs \<longleftrightarrow> described inp (unat first div 4) 4 (unat first) txs"
      using unmarshalTransactions_region [OF len True, folded first_def] loop by simp
    also have "\<dots> \<longleftrightarrow> ?encoded \<or> ?ignored"
    proof (cases "unat first = 0")
      case False
      then obtain n where n: "unat first = 4 * n" "0 < n" using ok by (auto simp: mod_eq_0_iff_dvd dvd_def)
      then have "length txs = n" if "described inp n 4 (4 * n) txs" using that by (simp add: described_def)
      then show ?thesis unfolding encoded ignored using n ok by auto
    qed (unfold encoded ignored, auto)
    finally show ?thesis .
  next
    case False
    then have "\<nexists>txs. unmarshalTransactions inp = Inr txs"
      using unmarshalTransactions_region [OF len True, folded first_def] by auto
    moreover have "\<not> ?encoded" "\<not> ?ignored" using False unfolding encoded ignored by auto
    ultimately show ?thesis by blast
  qed
next
  case False
  have "?encoded \<longleftrightarrow> txs = [] \<and> inp = []" using False by (cases txs) auto
  moreover have "\<not> ?ignored" using False by (simp add: ignored_def)
  ultimately show ?thesis using False unmarshalTransactions_short [of inp] by auto
qed

lemma unmarshalTransactions_no_panic:
  assumes len: "length inp < 2 ^ 32"
  shows "unmarshalTransactions inp \<noteq> Inl (Panic c)"
proof (cases "4 \<le> length inp")
  case True
  show ?thesis
    using unmarshalTransactions_loop_iff [of "word_of_nat (length inp)" inp "le_word (take 4 inp)" 4
        "unat (le_word (take 4 inp) :: u32) div 4" _ c] len True
    unfolding unmarshalTransactions_region [OF len True] by (auto simp: unat_of_nat)
next
  case False
  then show ?thesis by (simp add: unmarshalTransactions_short)
qed

section \<open>The encoding is a canonical form\<close>

lemma decode_split:
  assumes "unat scope \<le> length r" "508 \<le> unat scope"
    and "le_word (take 4 (drop 436 r)) = executionPayloadFixedPart"
    and "le_word (take 4 (drop 504 r)) = T" "508 \<le> unat T" "unat T \<le> unat scope"
  shows "\<exists>extra. slice_of executionPayloadFixedPart T (take (unat scope) r) = Some extra
    \<and> length extra = unat T - 508
    \<and> take (unat scope) r = fixed_part ((get_fixed (take (unat scope) r))\<lparr>pl_ExtraData := extra, pl_Transactions := txs\<rparr>)
        @ extra @ drop (unat T) (take (unat scope) r)"
proof (intro exI conjI)
  let ?buf = "take (unat scope) r"
  let ?extra = "take (unat T - 508) (drop 508 ?buf)"
  show "slice_of executionPayloadFixedPart T ?buf = Some ?extra"
    using assms by (subst slice_of_eq) (auto simp: word_le_nat_alt)
  show len: "length ?extra = unat T - 508" using assms by simp
  have "unat executionPayloadFixedPart + (unat T - 508) = unat T" using assms by simp
  then have "executionPayloadFixedPart + word_of_nat (unat T - 508) = T"
    by (metis of_nat_add of_nat_unat ucast_id)
  then have "fixed_part ((get_fixed ?buf)\<lparr>pl_ExtraData := ?extra, pl_Transactions := txs\<rparr>) = take 508 ?buf"
    using assms len by (intro fixed_part_get_fixed) (simp_all add: drop_take)
  moreover have "?buf = take 508 ?buf @ ?extra @ drop (unat T - 508) (drop 508 ?buf)"
    by (simp only: append_take_drop_id)
  ultimately show "?buf = fixed_part ((get_fixed ?buf)\<lparr>pl_ExtraData := ?extra, pl_Transactions := txs\<rparr>)
      @ ?extra @ drop (unat T) ?buf"
    using assms(5) by (simp del: drop_take)
qed

text \<open>The byte strings that stand for a payload.\<close>

definition encodes :: "bytes \<Rightarrow> execution_payload \<Rightarrow> bool" where
  "encodes data p \<longleftrightarrow> length (pl_ExtraData p) \<le> 32 \<and> length (pl_Transactions p) \<le> 2 ^ 20
     \<and> (\<exists>junk. data = encoding p @ junk \<and> (junk = [] \<or> pl_Transactions p = [] \<and> ignored junk))"

text \<open>The checks of \<^verbatim>\<open>UnmarshalSSZ\<close> on the fixed part.\<close>

definition fixed_ok :: "u32 \<Rightarrow> bytes \<Rightarrow> bool" where
  "fixed_ok scope r \<longleftrightarrow> 508 \<le> unat scope \<and> unat scope \<le> length r
     \<and> le_word (take 4 (drop 436 r)) = executionPayloadFixedPart
     \<and> (let T = unat (le_word (take 4 (drop 504 r)) :: u32) in 508 \<le> T \<and> T \<le> 540 \<and> T \<le> unat scope)"

lemma UnmarshalSSZ_cases:
  "fixed_ok scope r \<Longrightarrow> UnmarshalSSZ scope r =
    (let buf = take (unat scope) r; T = le_word (take 4 (drop 504 r)) in
     case unmarshalTransactions (drop (unat T) buf) of Inl e \<Rightarrow> Inl e
     | Inr txs \<Rightarrow> Inr ((get_fixed buf)\<lparr>pl_ExtraData := the (slice_of executionPayloadFixedPart T buf), pl_Transactions := txs\<rparr>))"
  "\<not> fixed_ok scope r \<Longrightarrow> \<exists>c. UnmarshalSSZ scope r = Inl (Plain c)"
proof -
  let ?T = "le_word (take 4 (drop 504 r)) :: u32"
  have le: "take 4 (drop 436 (take (unat scope) r)) = take 4 (drop 436 r)"
    "take 4 (drop 504 (take (unat scope) r)) = take 4 (drop 504 r)" if "508 \<le> unat scope"
    using that by (simp_all add: drop_take)
  have bound: "unat (executionPayloadFixedPart + 32) = 540" by (simp add: executionPayloadFixedPart_def)
  show "UnmarshalSSZ scope r =
    (let buf = take (unat scope) r; T = ?T in
     case unmarshalTransactions (drop (unat T) buf) of Inl e \<Rightarrow> Inl e
     | Inr txs \<Rightarrow> Inr ((get_fixed buf)\<lparr>pl_ExtraData := the (slice_of executionPayloadFixedPart T buf), pl_Transactions := txs\<rparr>))"
    if "fixed_ok scope r"
  proof -
    from that have ok: "508 \<le> unat scope" "unat scope \<le> length r" "le_word (take 4 (drop 436 r)) = executionPayloadFixedPart"
      "508 \<le> unat ?T" "unat ?T \<le> 540" "unat ?T \<le> unat scope" by (simp_all add: fixed_ok_def Let_def)
    obtain extra where "slice_of executionPayloadFixedPart ?T (take (unat scope) r) = Some extra"
      using decode_split [OF ok(2,1,3) refl ok(4,6)] by blast
    with ok show ?thesis by (simp add: UnmarshalSSZ_def Let_def le word_less_nat_alt bound split: sum.split)
  qed
  show "\<exists>c. UnmarshalSSZ scope r = Inl (Plain c)" if "\<not> fixed_ok scope r"
    using that by (auto simp: UnmarshalSSZ_def fixed_ok_def Let_def le word_less_nat_alt bound not_less)
qed

lemma UnmarshalSSZ_accepts:
  assumes "UnmarshalSSZ scope r = Inr p"
  shows "unat scope \<le> length r \<and> encodes (take (unat scope) r) p"
proof -
  let ?T = "le_word (take 4 (drop 504 r)) :: u32" and ?buf = "take (unat scope) r"
  have "fixed_ok scope r" using assms UnmarshalSSZ_cases(2) by fastforce
  then have ok: "508 \<le> unat scope" "unat scope \<le> length r" "le_word (take 4 (drop 436 r)) = executionPayloadFixedPart"
    "508 \<le> unat ?T" "unat ?T \<le> 540" "unat ?T \<le> unat scope" by (simp_all add: fixed_ok_def Let_def)
  from assms UnmarshalSSZ_cases(1) [OF \<open>fixed_ok scope r\<close>] obtain txs where txs:
    "unmarshalTransactions (drop (unat ?T) ?buf) = Inr txs"
    "p = (get_fixed ?buf)\<lparr>pl_ExtraData := the (slice_of executionPayloadFixedPart ?T ?buf), pl_Transactions := txs\<rparr>"
    by (auto simp: Let_def split: sum.splits)
  from decode_split [OF ok(2,1,3) refl ok(4,6), of txs] txs(2)
  have buf: "?buf = fixed_part p @ pl_ExtraData p @ drop (unat ?T) ?buf" and len: "length (pl_ExtraData p) \<le> 32"
    "pl_Transactions p = txs" using ok(5) by auto
  have "length (drop (unat ?T) ?buf) < 2 ^ 32" by (auto intro: le_less_trans [of _ "unat scope"])
  from unmarshalTransactions_iff [OF this, of txs] txs(1)
  have region: "length txs \<le> 2 ^ 20 \<and> drop (unat ?T) ?buf = offsets (4 * length txs) txs @ concat txs
      \<or> txs = [] \<and> ignored (drop (unat ?T) ?buf)" by simp
  then have "\<exists>junk. ?buf = encoding p @ junk \<and> (junk = [] \<or> pl_Transactions p = [] \<and> ignored junk)"
  proof
    assume "txs = [] \<and> ignored (drop (unat ?T) ?buf)"
    then show ?thesis by (intro exI [of _ "drop (unat ?T) ?buf"]) (subst buf, simp add: encoding_def len)
  next
    assume "length txs \<le> 2 ^ 20 \<and> drop (unat ?T) ?buf = offsets (4 * length txs) txs @ concat txs"
    then show ?thesis by (intro exI [of _ "[]"]) (subst buf, simp add: encoding_def len)
  qed
  then show ?thesis using region ok(2) len by (auto simp: encodes_def)
qed

lemma UnmarshalSSZ_decodes:
  assumes "unat scope \<le> length r" "encodes (take (unat scope) r) p"
  shows "UnmarshalSSZ scope r = Inr p"
proof -
  let ?T = "le_word (take 4 (drop 504 r)) :: u32" and ?buf = "take (unat scope) r"
  obtain junk where junk: "?buf = encoding p @ junk" "junk = [] \<or> pl_Transactions p = [] \<and> ignored junk"
    and small: "length (pl_ExtraData p) \<le> 32" "length (pl_Transactions p) \<le> 2 ^ 20"
    using assms(2) by (auto simp: encodes_def)
  define region where "region = offsets (4 * length (pl_Transactions p)) (pl_Transactions p) @ concat (pl_Transactions p) @ junk"
  have buf: "?buf = fixed_part p @ pl_ExtraData p @ region" using junk(1) by (simp add: encoding_def region_def)
  have scope: "unat scope = 508 + length (pl_ExtraData p) + length region"
    using arg_cong [OF buf, of length] assms(1) by simp
  have r: "r = fixed_part p @ pl_ExtraData p @ region @ drop (unat scope) r"
    using append_take_drop_id [of "unat scope" r] unfolding buf by simp
  have T: "?T = executionPayloadFixedPart + word_of_nat (length (pl_ExtraData p))"
    by (subst r) (simp only: get_fixed_encoding)
  then have nT: "unat ?T = 508 + length (pl_ExtraData p)"
    using unat_add_small [of executionPayloadFixedPart "length (pl_ExtraData p)"] small by simp
  have "le_word (take 4 (drop 436 r)) = executionPayloadFixedPart" by (subst r) (simp only: get_fixed_encoding)
  then have ok: "fixed_ok scope r" using assms(1) scope small nT by (simp add: fixed_ok_def Let_def)
  have "length region < 2 ^ 32" using scope unat_u32_less [of scope] by (simp del: unat_u32_less)
  then have txs: "unmarshalTransactions region = Inr (pl_Transactions p)"
    using unmarshalTransactions_iff [of region "pl_Transactions p"] junk(2) small by (auto simp: region_def)
  have "slice_of executionPayloadFixedPart ?T ?buf = Some (pl_ExtraData p)"
    by (subst slice_of_eq) (auto simp: word_le_nat_alt nT buf)
  moreover have "drop (unat ?T) ?buf = region" by (simp add: nT buf)
  ultimately show ?thesis
    unfolding UnmarshalSSZ_cases(1) [OF ok] Let_def using txs by (simp add: buf get_fixed_encoding)
qed

lemma encoding_encodes:
  "length (pl_ExtraData p) \<le> 32 \<Longrightarrow> length (pl_Transactions p) \<le> 2 ^ 20 \<Longrightarrow> encodes (encoding p) p"
  by (simp add: encodes_def)

text \<open>
  Decoding recovers what was encoded: for a payload whose extra data and number of transactions are
  within the protocol limits and whose encoding has less than \<open>2 ^ 32\<close> bytes, \<^verbatim>\<open>MarshalSSZ\<close> does not fail,
  writes as many bytes as \<^verbatim>\<open>SizeSSZ\<close> says, none of which depends on what the pooled buffer held before, and
  \<^verbatim>\<open>UnmarshalSSZ\<close> reads the payload back, also when more data follows.
\<close>

lemma ssz_roundtrip:
  assumes "length (pl_ExtraData p) \<le> 32" and "length (pl_Transactions p) \<le> 2 ^ 20" and "payload_size p < 2 ^ 32"
  shows "\<exists>data. (\<forall>pool. MarshalSSZ pool p = Inr data) \<and> length data = unat (SizeSSZ p)
    \<and> UnmarshalSSZ (SizeSSZ p) (data @ later) = Inr p"
proof (intro exI conjI allI)
  show "MarshalSSZ pool p = Inr (encoding p)" for pool using assms(3) by (rule MarshalSSZ_encoding)
  show size: "length (encoding p) = unat (SizeSSZ p)" by (simp add: unat_SizeSSZ [OF assms(3)])
  show "UnmarshalSSZ (SizeSSZ p) (encoding p @ later) = Inr p"
    using size encoding_encodes [OF assms(1,2)] by (intro UnmarshalSSZ_decodes) simp_all
qed

definition gossiped_payload :: execution_payload where
  "gossiped_payload = \<lparr>pl_ParentHash = 1, pl_FeeRecipient = 2, pl_StateRoot = 3, pl_ReceiptsRoot = 4, pl_LogsBloom = 5,
     pl_PrevRandao = 6, pl_BlockNumber = 7, pl_GasLimit = 8, pl_GasUsed = 9, pl_Timestamp = 10, pl_ExtraData = [11, 12],
     pl_BaseFeePerGas = 13, pl_BlockHash = 14, pl_Transactions = [[126, 1], [], [2, 3, 4]]\<rparr>"

text \<open>
  C27. Which byte strings a node accepts as a payload: \<^verbatim>\<open>UnmarshalSSZ\<close> never panics, and it returns a payload
  exactly when the bytes of the given scope are the encoding of that payload, within the limits for extra data and
  transactions. The only other strings accepted are those of payloads without transactions followed by bytes of
  which the first four are zero, which are ignored.
\<close>

theorem UnmarshalSSZ_accepts_iff:
  "(UnmarshalSSZ scope r = Inr p \<longleftrightarrow> unat scope \<le> length r \<and> encodes (take (unat scope) r) p)
    \<and> (\<nexists>c. UnmarshalSSZ scope r = Inl (Panic c))"
proof (intro conjI)
  show "UnmarshalSSZ scope r = Inr p \<longleftrightarrow> unat scope \<le> length r \<and> encodes (take (unat scope) r) p"
    using UnmarshalSSZ_accepts UnmarshalSSZ_decodes by blast
  have region: "length (drop n (take (unat scope) r)) < 2 ^ 32" for n by (auto intro: le_less_trans [of _ "unat scope"])
  show "\<nexists>c. UnmarshalSSZ scope r = Inl (Panic c)"
  proof (cases "fixed_ok scope r")
    case True
    show ?thesis
      using unmarshalTransactions_no_panic [OF region]
      unfolding UnmarshalSSZ_cases(1) [OF True] Let_def by (auto split: sum.splits)
  next
    case False
    then show ?thesis using UnmarshalSSZ_cases(2) by fastforce
  qed
qed

end
