(* ===== verification/Gossip.thy ===== *)
theory Gossip
  imports SSZ L1_Info
begin

text \<open>
  Gossip of unsafe payloads between nodes: signing (\<^verbatim>\<open>op-node/p2p/signer.go\<close>), publishing and validating
  messages (\<^verbatim>\<open>op-node/p2p/gossip.go\<close>) and the check of block hashes (\<^verbatim>\<open>op-node/eth/types.go\<close>).

  What the code uses of other packages is a parameter: snappy compression, signatures, hashes of
  go-ethereum and the LRU cache of hashicorp, which maps block heights to pointers. The objects behind the
  pointers are changed in place, so they live in an explicit store and a pointer is an index into it.
\<close>

section \<open>Parameters\<close>

record header =
  hd_ParentHash :: hash
  hd_UncleHash :: hash
  hd_Coinbase :: address
  hd_Root :: hash
  hd_TxHash :: hash
  hd_ReceiptHash :: hash
  hd_Bloom :: "2048 word"
  hd_Difficulty :: int
  hd_Number :: int
  hd_GasLimit :: u64
  hd_GasUsed :: u64
  hd_Time :: u64
  hd_Extra :: bytes
  hd_MixDigest :: hash
  hd_Nonce :: u64
  hd_BaseFee :: int

record 'k crypto =
  c_Keccak256 :: keccak
  c_SigToPub :: "hash \<Rightarrow> bytes \<Rightarrow> 'k option"
  c_PubkeyToAddress :: "'k \<Rightarrow> address"
  c_Sign :: "hash \<Rightarrow> nat \<Rightarrow> bytes option"
  c_DeriveSha :: "bytes list \<Rightarrow> hash"
  c_HeaderHash :: "header \<Rightarrow> hash"
  c_EmptyUncleHash :: hash

record snappy =
  sn_DecodedLen :: "bytes \<Rightarrow> nat option"
  sn_Decode :: "bytes \<Rightarrow> bytes option"
  sn_Encode :: "bytes \<Rightarrow> bytes"

record 'c lru_ops =
  lru_Get :: "'c \<Rightarrow> u64 \<Rightarrow> nat option \<times> 'c"
  lru_Add :: "'c \<Rightarrow> u64 \<Rightarrow> nat \<Rightarrow> 'c"

section \<open>Signing\<close>

text \<open>\<^verbatim>\<open>copy(buf[off:], src)\<close> for an offset within the buffer.\<close>

definition copy_at :: "nat \<Rightarrow> bytes \<Rightarrow> bytes \<Rightarrow> bytes" where
  "copy_at off src buf =
     take off buf @ take (length buf - off) src @ drop (off + length (take (length buf - off) src)) buf"

definition SigningDomainBlocksV1 :: bytes where
  "SigningDomainBlocksV1 = replicate 32 0"

text \<open>The result is \<open>None\<close> when the code panics: no chain identifier, or one of more than 256 bits.\<close>

definition SigningHash :: "keccak \<Rightarrow> bytes \<Rightarrow> int option \<Rightarrow> bytes \<Rightarrow> hash option" where
  "SigningHash Keccak256 domain chainID payloadBytes =
    (case chainID of
       None \<Rightarrow> None
     | Some n \<Rightarrow>
         (case FillBytes32 n of
            None \<Rightarrow> None
          | Some chain \<Rightarrow>
              (let msgInput = replicate 96 0;
                   msgInput = copy_at 0 domain msgInput;
                   msgInput = take 32 msgInput @ chain @ drop 64 msgInput;
                   msgInput = copy_at 32 (word_bytes (Keccak256 payloadBytes)) msgInput
               in Some (Keccak256 msgInput))))"

definition BlockSigningHash :: "keccak \<Rightarrow> config \<Rightarrow> bytes \<Rightarrow> hash option" where
  "BlockSigningHash Keccak256 cfg payloadBytes = SigningHash Keccak256 SigningDomainBlocksV1 (L2ChainID cfg) payloadBytes"

text \<open>A \<^verbatim>\<open>LocalSigner\<close> is its private key, \<open>None\<close> after \<^verbatim>\<open>Close\<close>.\<close>

definition LocalSigner_Sign :: "'k crypto \<Rightarrow> nat option \<Rightarrow> bytes \<Rightarrow> int option \<Rightarrow> bytes \<Rightarrow> derr + bytes" where
  "LocalSigner_Sign K priv domain chainID encodedMsg =
    (case priv of
       None \<Rightarrow> Inl (Plain ''signer is closed'')
     | Some key \<Rightarrow>
         (case SigningHash (c_Keccak256 K) domain chainID encodedMsg of
            None \<Rightarrow> Inl (Panic ''chain id'')
          | Some signingHash \<Rightarrow>
              (case c_Sign K signingHash key of
                 None \<Rightarrow> Inl (Plain ''signing failed'')
               | Some signature \<Rightarrow>
                   if length signature < 65 then Inl (Panic ''cannot convert slice to array pointer'')
                   else Inr (take 65 signature))))"

section \<open>Block hashes\<close>

definition payload_header :: "'k crypto \<Rightarrow> execution_payload \<Rightarrow> header" where
  "payload_header K payload = \<lparr>
     hd_ParentHash = pl_ParentHash payload, hd_UncleHash = c_EmptyUncleHash K, hd_Coinbase = pl_FeeRecipient payload,
     hd_Root = pl_StateRoot payload, hd_TxHash = c_DeriveSha K (pl_Transactions payload),
     hd_ReceiptHash = pl_ReceiptsRoot payload, hd_Bloom = pl_LogsBloom payload, hd_Difficulty = 0,
     hd_Number = sint (pl_BlockNumber payload), hd_GasLimit = pl_GasLimit payload, hd_GasUsed = pl_GasUsed payload,
     hd_Time = pl_Timestamp payload, hd_Extra = pl_ExtraData payload, hd_MixDigest = pl_PrevRandao payload,
     hd_Nonce = 0, hd_BaseFee = uint (pl_BaseFeePerGas payload)\<rparr>"

definition CheckBlockHash :: "'k crypto \<Rightarrow> execution_payload \<Rightarrow> hash \<times> bool" where
  "CheckBlockHash K payload =
    (let blockHash = c_HeaderHash K (payload_header K payload) in (blockHash, blockHash = pl_BlockHash payload))"

section \<open>Publishing\<close>

definition maxGossipSize :: nat where
  "maxGossipSize = 2 ^ 20"

definition minGossipSize :: nat where
  "minGossipSize = 66"

text \<open>The message handed to the topic; \<open>pool\<close> is the buffer \<^verbatim>\<open>MarshalSSZ\<close> works in.\<close>

definition PublishL2Payload ::
    "'k crypto \<Rightarrow> snappy \<Rightarrow> config \<Rightarrow> nat option \<Rightarrow> bytes \<Rightarrow> execution_payload \<Rightarrow> derr + bytes" where
  "PublishL2Payload K S cfg signer pool payload =
    (case MarshalSSZ pool payload of
       Inl (Panic c) \<Rightarrow> Inl (Panic c)
     | Inl _ \<Rightarrow> Inl (Plain ''failed to encoded execution payload to publish'')
     | Inr payloadData \<Rightarrow>
         (let data = replicate 65 0 @ payloadData in
          case LocalSigner_Sign K signer SigningDomainBlocksV1 (L2ChainID cfg) payloadData of
            Inl (Panic c) \<Rightarrow> Inl (Panic c)
          | Inl _ \<Rightarrow> Inl (Plain ''failed to sign execution payload with signer'')
          | Inr sig \<Rightarrow> Inr (sn_Encode S (copy_at 0 sig data))))"

text \<open>
  The identifier of a message: a digest of a domain, the topic and the contents. \<open>sha256\<close> is the digest as 32
  bytes.
\<close>

definition message_id :: "(bytes \<Rightarrow> bytes) \<Rightarrow> snappy \<Rightarrow> bytes \<Rightarrow> bytes \<Rightarrow> bytes" where
  "message_id sha256 S topic message =
    (let decoded = (case sn_DecodedLen S message of
           None \<Rightarrow> None
         | Some dLen \<Rightarrow> if dLen \<le> maxGossipSize then sn_Decode S message else None);
         (domain, data) = (case decoded of Some data \<Rightarrow> ([1, 0, 0, 0], data) | None \<Rightarrow> ([0, 0, 0, 0], message))
     in take 20 (sha256 (domain @ le_bytes (word_of_nat (length topic) :: u64) @ topic @ data)))"

section \<open>Validating\<close>

datatype verdict = ValidationAccept execution_payload | ValidationIgnore | ValidationReject | ValidationPanic

text \<open>The checks on the message itself, up to the block hash; \<open>now\<close> is the time in seconds.\<close>

definition check_message :: "'k crypto \<Rightarrow> snappy \<Rightarrow> config \<Rightarrow> u64 \<Rightarrow> bytes \<Rightarrow> verdict + execution_payload" where
  "check_message K S cfg now message =
    (case sn_DecodedLen S message of
       None \<Rightarrow> Inl ValidationReject
     | Some outLen \<Rightarrow>
    if outLen > maxGossipSize then Inl ValidationReject
    else if outLen < minGossipSize then Inl ValidationReject
    else case sn_Decode S message of
       None \<Rightarrow> Inl ValidationReject
     | Some data \<Rightarrow>
    if length data < 65 then Inl ValidationPanic
    else let signatureBytes = take 65 data; payloadBytes = drop 65 data in
    case BlockSigningHash (c_Keccak256 K) cfg payloadBytes of
       None \<Rightarrow> Inl ValidationPanic
     | Some signingHash \<Rightarrow>
    case c_SigToPub K signingHash signatureBytes of
       None \<Rightarrow> Inl ValidationReject
     | Some pub \<Rightarrow>
    if c_PubkeyToAddress K pub \<noteq> P2PSequencerAddress cfg then Inl ValidationReject
    else case UnmarshalSSZ (word_of_nat (length payloadBytes)) payloadBytes of
       Inl (Panic c) \<Rightarrow> Inl ValidationPanic
     | Inl _ \<Rightarrow> Inl ValidationReject
     | Inr payload \<Rightarrow>
    if pl_Timestamp payload < now - 60 then Inl ValidationReject
    else if pl_Timestamp payload > now + 5 then Inl ValidationReject
    else if \<not> snd (CheckBlockHash K payload) then Inl ValidationReject
    else Inr payload)"

record 'c validator =
  va_lru :: 'c
  va_seen :: "hash list list"

definition hasSeen :: "hash list \<Rightarrow> hash \<Rightarrow> nat \<times> bool" where
  "hasSeen blockHashes h = (length blockHashes, list_ex (\<lambda>prev. prev = h) blockHashes)"

definition markSeen :: "nat \<Rightarrow> hash \<Rightarrow> hash list list \<Rightarrow> hash list list" where
  "markSeen ptr h seen = seen[ptr := (seen ! ptr) @ [h]]"

text \<open>The list for a height, a new one when the cache has none.\<close>

definition seen_pointer :: "'c lru_ops \<Rightarrow> u64 \<Rightarrow> 'c validator \<Rightarrow> nat \<times> 'c validator" where
  "seen_pointer L height v =
    (case lru_Get L (va_lru v) height of
       (Some ptr, lru) \<Rightarrow> (ptr, v\<lparr>va_lru := lru\<rparr>)
     | (None, lru) \<Rightarrow>
         (let ptr = length (va_seen v)
          in (ptr, v\<lparr>va_lru := lru_Add L lru height ptr, va_seen := va_seen v @ [[]]\<rparr>)))"

text \<open>The part of the validator that looks the block up among those seen at its height.\<close>

definition admit_payload :: "'c lru_ops \<Rightarrow> execution_payload \<Rightarrow> 'c validator \<Rightarrow> verdict \<times> 'c validator" where
  "admit_payload L payload v =
    (let (ptr, v) = seen_pointer L (pl_BlockNumber payload) v;
         (count, seen) = hasSeen (va_seen v ! ptr) (pl_BlockHash payload)
     in if count > 5 then (ValidationReject, v)
        else if seen then (ValidationIgnore, v)
        else (ValidationAccept payload, v\<lparr>va_seen := markSeen ptr (pl_BlockHash payload) (va_seen v)\<rparr>))"

definition blocks_validator ::
    "'k crypto \<Rightarrow> snappy \<Rightarrow> 'c lru_ops \<Rightarrow> config \<Rightarrow> u64 \<Rightarrow> bytes \<Rightarrow> 'c validator \<Rightarrow> verdict \<times> 'c validator" where
  "blocks_validator K S L cfg now message v =
    (case check_message K S cfg now message of
       Inl verdict \<Rightarrow> (verdict, v)
     | Inr payload \<Rightarrow> admit_payload L payload v)"

text \<open>A validator at work: messages with the times at which they arrive.\<close>

fun validate_all ::
    "'k crypto \<Rightarrow> snappy \<Rightarrow> 'c lru_ops \<Rightarrow> config \<Rightarrow> (u64 \<times> bytes) list \<Rightarrow> 'c validator \<Rightarrow> verdict list \<times> 'c validator" where
  "validate_all K S L cfg [] v = ([], v)"
| "validate_all K S L cfg ((now, message) # msgs) v =
    (let (verdict, v) = blocks_validator K S L cfg now message v;
         (verdicts, v) = validate_all K S L cfg msgs v
     in (verdict # verdicts, v))"

section \<open>What a signature covers\<close>

lemma SigningHash_eq:
  assumes "length domain = 32"
  shows "SigningHash Keccak256 domain chainID payloadBytes =
    (case chainID of None \<Rightarrow> None
     | Some n \<Rightarrow> if nat \<bar>n\<bar> < 256 ^ 32 then Some (Keccak256 (domain @ word_bytes (Keccak256 payloadBytes) @ replicate 32 0))
         else None)"
  using assms by (auto simp: SigningHash_def copy_at_def FillBytes32_def Let_def split: option.split)

lemma BlockSigningHash_eq:
  "L2ChainID cfg = Some n \<Longrightarrow> nat \<bar>n\<bar> < 256 ^ 32 \<Longrightarrow> BlockSigningHash Keccak256 cfg payloadBytes =
     Some (Keccak256 (SigningDomainBlocksV1 @ word_bytes (Keccak256 payloadBytes) @ replicate 32 0))"
  by (simp add: BlockSigningHash_def SigningHash_eq SigningDomainBlocksV1_def)

text \<open>
  Signatures do not bind the chain: the hash of the payload is copied over the chain identifier, so a
  message that one chain accepts is accepted just the same on every other chain with the same sequencer key,
  although the specification has the signature cover the chain identifier to prevent this.
\<close>

lemma gossip_replayed_across_chains:
  assumes "L2ChainID cfg = Some n" and "L2ChainID cfg' = Some n'"
    and "nat \<bar>n\<bar> < 256 ^ 32" and "nat \<bar>n'\<bar> < 256 ^ 32"
    and "P2PSequencerAddress cfg = P2PSequencerAddress cfg'"
  shows "blocks_validator K S L cfg now message v = blocks_validator K S L cfg' now message v"
proof -
  have "BlockSigningHash (c_Keccak256 K) cfg = BlockSigningHash (c_Keccak256 K) cfg'"
    by (rule ext) (simp only: BlockSigningHash_eq [OF assms(1,3)] BlockSigningHash_eq [OF assms(2,4)])
  then show ?thesis unfolding blocks_validator_def check_message_def assms(5) by (simp only:)
qed

section \<open>What a validator accepts\<close>

text \<open>The documented behaviour of the packages.\<close>

definition snappy_laws :: "snappy \<Rightarrow> bool" where
  "snappy_laws S \<longleftrightarrow> (\<forall>data. sn_DecodedLen S (sn_Encode S data) = Some (length data)
     \<and> sn_Decode S (sn_Encode S data) = Some data)"

definition signs_for :: "'k crypto \<Rightarrow> nat \<Rightarrow> address \<Rightarrow> bool" where
  "signs_for K key addr \<longleftrightarrow> (\<forall>h. \<exists>sig pub. c_Sign K h key = Some sig \<and> length sig = 65
     \<and> c_SigToPub K h sig = Some pub \<and> c_PubkeyToAddress K pub = addr)"

text \<open>
  The cache: \<open>contents\<close> is what it holds. Looking up does not change that; adding keeps the new
  entry, may drop others, and drops none while fewer than \<open>cap\<close> keys are held.
\<close>

definition lru_laws :: "nat \<Rightarrow> ('c \<Rightarrow> u64 \<Rightarrow> nat option) \<Rightarrow> 'c lru_ops \<Rightarrow> bool" where
  "lru_laws cap contents L \<longleftrightarrow>
     (\<forall>c k. fst (lru_Get L c k) = contents c k \<and> contents (snd (lru_Get L c k)) = contents c)
     \<and> (\<forall>c k v. contents (lru_Add L c k v) k = Some v)
     \<and> (\<forall>c k v j. j \<noteq> k \<longrightarrow> contents (lru_Add L c k v) j = contents c j \<or> contents (lru_Add L c k v) j = None)
     \<and> (\<forall>c k v. card (dom (contents c)) < cap \<longrightarrow> contents (lru_Add L c k v) = (contents c)(k \<mapsto> v))"

lemma lru_lawsD:
  assumes "lru_laws cap contents L"
  shows "fst (lru_Get L c k) = contents c k" "contents (snd (lru_Get L c k)) = contents c"
    "contents (lru_Add L c k ptr) k = Some ptr"
    "j \<noteq> k \<Longrightarrow> contents (lru_Add L c k ptr) j = contents c j \<or> contents (lru_Add L c k ptr) j = None"
    "card (dom (contents c)) < cap \<Longrightarrow> contents (lru_Add L c k ptr) = (contents c)(k \<mapsto> ptr)"
  using assms unfolding lru_laws_def by metis+

text \<open>Pointers of the cache are allocated and not shared between heights.\<close>

definition wf_validator :: "('c \<Rightarrow> u64 \<Rightarrow> nat option) \<Rightarrow> 'c validator \<Rightarrow> bool" where
  "wf_validator contents v \<longleftrightarrow>
     (\<forall>k ptr. contents (va_lru v) k = Some ptr \<longrightarrow> ptr < length (va_seen v))
     \<and> inj_on (contents (va_lru v)) (dom (contents (va_lru v)))"

lemma wf_validatorD:
  assumes "wf_validator contents v" "contents (va_lru v) j = Some ptr"
  shows "ptr < length (va_seen v)" "contents (va_lru v) i = Some ptr \<Longrightarrow> i = j"
  using assms unfolding wf_validator_def by (blast, metis domI inj_onD)

text \<open>The hashes remembered for a height.\<close>

definition seen_at :: "('c \<Rightarrow> u64 \<Rightarrow> nat option) \<Rightarrow> 'c validator \<Rightarrow> u64 \<Rightarrow> hash list" where
  "seen_at contents v k = (case contents (va_lru v) k of None \<Rightarrow> [] | Some ptr \<Rightarrow> va_seen v ! ptr)"

lemma seen_pointer_cases:
  assumes laws: "lru_laws cap contents L" and wf: "wf_validator contents v"
  obtains ptr v' where "seen_pointer L k v = (ptr, v')" "wf_validator contents v'"
    "contents (va_lru v') k = Some ptr" "va_seen v' ! ptr = seen_at contents v k"
    "\<And>j. j \<noteq> k \<Longrightarrow> contents (va_lru v') j = None \<or> seen_at contents v' j = seen_at contents v j"
    "\<And>j. j \<noteq> k \<Longrightarrow> card (dom (contents (va_lru v))) < cap \<or> k \<in> dom (contents (va_lru v))
       \<Longrightarrow> seen_at contents v' j = seen_at contents v j"
    "dom (contents (va_lru v')) \<subseteq> insert k (dom (contents (va_lru v)))"
proof (cases "contents (va_lru v) k")
  case (Some ptr)
  let ?v' = "v\<lparr>va_lru := snd (lru_Get L (va_lru v) k)\<rparr>"
  have get: "fst (lru_Get L (va_lru v) k) = Some ptr" "contents (snd (lru_Get L (va_lru v) k)) = contents (va_lru v)"
    using laws Some by (simp_all add: lru_laws_def)
  then have "seen_pointer L k v = (ptr, ?v')" by (cases "lru_Get L (va_lru v) k") (simp add: seen_pointer_def)
  moreover have "seen_at contents ?v' j = seen_at contents v j" for j by (simp add: seen_at_def get split: option.split)
  moreover have "wf_validator contents ?v'" using wf by (simp add: wf_validator_def get)
  ultimately show ?thesis
    using that [of ptr ?v'] get Some by (simp add: seen_at_def subset_insertI)
next
  case None
  let ?lru = "snd (lru_Get L (va_lru v) k)" and ?ptr = "length (va_seen v)"
  let ?v' = "v\<lparr>va_lru := lru_Add L ?lru k ?ptr, va_seen := va_seen v @ [[]]\<rparr>"
  have get: "fst (lru_Get L (va_lru v) k) = None" "contents ?lru = contents (va_lru v)"
    using laws None by (simp_all add: lru_laws_def)
  have add: "contents (lru_Add L ?lru k ?ptr) k = Some ?ptr"
    and other: "\<And>j. j \<noteq> k \<Longrightarrow> contents (lru_Add L ?lru k ?ptr) j = contents (va_lru v) j \<or> contents (lru_Add L ?lru k ?ptr) j = None"
    and room: "card (dom (contents (va_lru v))) < cap \<Longrightarrow> contents (lru_Add L ?lru k ?ptr) = (contents (va_lru v))(k \<mapsto> ?ptr)"
    using lru_lawsD(3) [OF laws, of ?lru k ?ptr] lru_lawsD(4) [OF laws, of _ k ?lru ?ptr] lru_lawsD(5) [OF laws, of ?lru k ?ptr]
    by (simp_all only: get(2) not_False_eq_True)
  have old: "ptr < ?ptr" if "contents (va_lru v) j = Some ptr" for j ptr using wf that by (auto simp: wf_validator_def)
  have same: "seen_at contents ?v' j = seen_at contents v j" if "contents (lru_Add L ?lru k ?ptr) j = contents (va_lru v) j" for j
    using that old by (auto simp: seen_at_def nth_append split: option.split)
  have entry: "j = k \<and> q = ?ptr \<or> j \<noteq> k \<and> contents (va_lru v) j = Some q \<and> q < ?ptr"
    if "contents (lru_Add L ?lru k ?ptr) j = Some q" for j q
    using that add other [of j] old by (cases "j = k") auto
  have "inj_on (contents (lru_Add L ?lru k ?ptr)) (dom (contents (lru_Add L ?lru k ?ptr)))"
  proof (rule inj_onI)
    fix i j
    assume "i \<in> dom (contents (lru_Add L ?lru k ?ptr))" "contents (lru_Add L ?lru k ?ptr) i = contents (lru_Add L ?lru k ?ptr) j"
    then obtain q where "contents (lru_Add L ?lru k ?ptr) i = Some q" "contents (lru_Add L ?lru k ?ptr) j = Some q"
      by (metis domD)
    with entry [of i q] entry [of j q] show "i = j" using wf_validatorD(2) [OF wf] by auto
  qed
  then have wf': "wf_validator contents ?v'" using entry by (fastforce simp: wf_validator_def)
  have pointer: "seen_pointer L k v = (?ptr, ?v')"
    using get(1) by (cases "lru_Get L (va_lru v) k") (simp add: seen_pointer_def Let_def)
  have dom: "dom (contents (va_lru ?v')) \<subseteq> insert k (dom (contents (va_lru v)))" using other by fastforce
  show ?thesis
  proof (rule that [OF pointer wf' _ _ _ _ dom])
    show "contents (va_lru ?v') k = Some ?ptr" using add by simp
    show "va_seen ?v' ! ?ptr = seen_at contents v k" using None by (simp add: seen_at_def)
    show "contents (va_lru ?v') j = None \<or> seen_at contents ?v' j = seen_at contents v j" if "j \<noteq> k" for j
      using other [OF that] same by auto
    show "seen_at contents ?v' j = seen_at contents v j"
      if "j \<noteq> k" "card (dom (contents (va_lru v))) < cap \<or> k \<in> dom (contents (va_lru v))" for j
      using that room None by (intro same) (auto simp: domIff)
  qed
qed

lemma seen_at_mark:
  fixes h :: hash
  assumes "wf_validator contents v" "contents (va_lru v) k = Some ptr"
  defines "v' \<equiv> v\<lparr>va_seen := markSeen ptr h (va_seen v)\<rparr>"
  shows "wf_validator contents v'" "seen_at contents v' k = seen_at contents v k @ [h]"
    "j \<noteq> k \<Longrightarrow> seen_at contents v' j = seen_at contents v j"
proof -
  have "ptr < length (va_seen v)" using assms(1,2) by (rule wf_validatorD)
  then show "wf_validator contents v'" "seen_at contents v' k = seen_at contents v k @ [h]"
    using assms by (auto simp: wf_validator_def seen_at_def markSeen_def)
  have "contents (va_lru v) j \<noteq> Some ptr" if "j \<noteq> k"
    using wf_validatorD(2) [OF assms(1,2)] that by blast
  then show "j \<noteq> k \<Longrightarrow> seen_at contents v' j = seen_at contents v j"
    by (auto simp: v'_def seen_at_def markSeen_def split: option.split)
qed

lemma admit_payload_cases:
  fixes p :: execution_payload
  assumes laws: "lru_laws cap contents L" and wf: "wf_validator contents v"
  defines "seen \<equiv> seen_at contents v (pl_BlockNumber p)"
  obtains verdict v' where "admit_payload L p v = (verdict, v')" "wf_validator contents v'"
    "verdict = (if length seen > 5 then ValidationReject
      else if pl_BlockHash p \<in> set seen then ValidationIgnore else ValidationAccept p)"
    "seen_at contents v' (pl_BlockNumber p) = (if verdict = ValidationAccept p then seen @ [pl_BlockHash p] else seen)"
    "\<And>k. k \<noteq> pl_BlockNumber p \<Longrightarrow> card (dom (contents (va_lru v))) < cap \<or> pl_BlockNumber p \<in> dom (contents (va_lru v))
      \<Longrightarrow> seen_at contents v' k = seen_at contents v k"
    "dom (contents (va_lru v')) \<subseteq> insert (pl_BlockNumber p) (dom (contents (va_lru v)))"
    "pl_BlockNumber p \<in> dom (contents (va_lru v'))"
proof -
  obtain ptr v1 where v1: "seen_pointer L (pl_BlockNumber p) v = (ptr, v1)" "wf_validator contents v1"
    "contents (va_lru v1) (pl_BlockNumber p) = Some ptr" "va_seen v1 ! ptr = seen"
    "\<And>k. k \<noteq> pl_BlockNumber p \<Longrightarrow> card (dom (contents (va_lru v))) < cap \<or> pl_BlockNumber p \<in> dom (contents (va_lru v))
       \<Longrightarrow> seen_at contents v1 k = seen_at contents v k"
    "dom (contents (va_lru v1)) \<subseteq> insert (pl_BlockNumber p) (dom (contents (va_lru v)))"
    using seen_pointer_cases [OF laws wf, of "pl_BlockNumber p"] unfolding seen_def by metis
  have "hasSeen seen (pl_BlockHash p) = (length seen, pl_BlockHash p \<in> set seen)"
    by (auto simp: hasSeen_def list_ex_iff)
  then have admit: "admit_payload L p v = (if length seen > 5 then (ValidationReject, v1)
      else if pl_BlockHash p \<in> set seen then (ValidationIgnore, v1)
      else (ValidationAccept p, v1\<lparr>va_seen := markSeen ptr (pl_BlockHash p) (va_seen v1)\<rparr>))"
    by (simp add: admit_payload_def v1)
  have at: "seen_at contents v1 (pl_BlockNumber p) = seen" using v1(3,4) by (simp add: seen_at_def)
  show ?thesis
  proof (cases "length seen > 5 \<or> pl_BlockHash p \<in> set seen")
    case True
    with that [of _ v1] admit v1 at show ?thesis by (auto split: if_splits)
  next
    case False
    with that [of _ "v1\<lparr>va_seen := markSeen ptr (pl_BlockHash p) (va_seen v1)\<rparr>"] admit v1 at
      seen_at_mark [OF v1(2,3), where h = "pl_BlockHash p"] show ?thesis by auto
  qed
qed

section \<open>How much a validator accepts\<close>

fun accepted_hash :: "u64 \<Rightarrow> verdict \<Rightarrow> hash list" where
  "accepted_hash k (ValidationAccept p) = (if pl_BlockNumber p = k then [pl_BlockHash p] else [])"
| "accepted_hash k _ = []"

text \<open>The hashes of the blocks accepted at a height, in order.\<close>

definition accepted_at :: "u64 \<Rightarrow> verdict list \<Rightarrow> hash list" where
  "accepted_at k verdicts = concat (map (accepted_hash k) verdicts)"

text \<open>The heights of the payloads that pass the checks on the message itself.\<close>

definition heights :: "'k crypto \<Rightarrow> snappy \<Rightarrow> config \<Rightarrow> (u64 \<times> bytes) list \<Rightarrow> u64 set" where
  "heights K S cfg msgs = {pl_BlockNumber p | p now m. (now, m) \<in> set msgs \<and> check_message K S cfg now m = Inr p}"

lemma check_message_not_accepted: "check_message K S cfg now m = Inl verdict \<Longrightarrow> accepted_hash k verdict = []"
  by (auto simp: check_message_def Let_def split: option.splits if_splits sum.splits derr.splits)

lemma validator_step:
  assumes laws: "lru_laws cap contents L" and wf: "wf_validator contents v"
    and H: "finite H" "card H \<le> cap" "dom (contents (va_lru v)) \<subseteq> H" "heights K S cfg [(now, m)] \<subseteq> H"
    and small: "\<And>k. distinct (seen_at contents v k) \<and> length (seen_at contents v k) \<le> 6"
  obtains verdict v' where "blocks_validator K S L cfg now m v = (verdict, v')" "wf_validator contents v'"
    "dom (contents (va_lru v')) \<subseteq> H"
    "\<And>k. distinct (seen_at contents v' k) \<and> length (seen_at contents v' k) \<le> 6"
    "\<And>k. seen_at contents v' k = seen_at contents v k @ accepted_hash k verdict"
proof (cases "check_message K S cfg now m")
  case (Inl verdict)
  then have "blocks_validator K S L cfg now m v = (verdict, v)" by (simp add: blocks_validator_def)
  then show ?thesis using that [of verdict v] wf H(3) small check_message_not_accepted [OF Inl] by simp
next
  case (Inr p)
  let ?k = "pl_BlockNumber p"
  have "?k \<in> H" using H(4) Inr by (auto simp: heights_def)
  then have "card (dom (contents (va_lru v))) < cap \<or> ?k \<in> dom (contents (va_lru v))"
  proof (cases "?k \<in> dom (contents (va_lru v))")
    case False
    then have "dom (contents (va_lru v)) \<subset> H" using \<open>?k \<in> H\<close> H(3) by blast
    then have "card (dom (contents (va_lru v))) < card H" by (rule psubset_card_mono [OF H(1)])
    with H(2) show ?thesis by simp
  qed simp
  note room = this
  show ?thesis
  proof (rule admit_payload_cases [OF laws wf, of p])
    fix verdict v'
    assume step: "admit_payload L p v = (verdict, v')" "wf_validator contents v'"
      "verdict = (if length (seen_at contents v ?k) > 5 then ValidationReject
        else if pl_BlockHash p \<in> set (seen_at contents v ?k) then ValidationIgnore else ValidationAccept p)"
      "seen_at contents v' ?k = (if verdict = ValidationAccept p then seen_at contents v ?k @ [pl_BlockHash p] else seen_at contents v ?k)"
      and others: "\<And>k. k \<noteq> ?k \<Longrightarrow> card (dom (contents (va_lru v))) < cap \<or> ?k \<in> dom (contents (va_lru v))
        \<Longrightarrow> seen_at contents v' k = seen_at contents v k"
      and dom: "dom (contents (va_lru v')) \<subseteq> insert ?k (dom (contents (va_lru v)))"
    have grow: "seen_at contents v' k = seen_at contents v k @ accepted_hash k verdict" for k
      using step(3,4) others [OF _ room, of k] by (cases "k = ?k") auto
    have "distinct (seen_at contents v' k) \<and> length (seen_at contents v' k) \<le> 6" for k
      using small [of k] step(3) unfolding grow by auto
    moreover have "dom (contents (va_lru v')) \<subseteq> H" using dom H(3) \<open>?k \<in> H\<close> by blast
    moreover have "blocks_validator K S L cfg now m v = (verdict, v')" using step(1) Inr by (simp add: blocks_validator_def)
    ultimately show ?thesis using that [of verdict v'] step(2) grow by blast
  qed
qed

lemma validate_all_accepts:
  assumes laws: "lru_laws cap contents L" and H: "finite H" "card H \<le> cap"
  shows "wf_validator contents v \<Longrightarrow> dom (contents (va_lru v)) \<subseteq> H \<Longrightarrow> heights K S cfg msgs \<subseteq> H \<Longrightarrow>
    (\<And>k. distinct (seen_at contents v k) \<and> length (seen_at contents v k) \<le> 6) \<Longrightarrow>
    validate_all K S L cfg msgs v = (verdicts, v') \<Longrightarrow>
    seen_at contents v' k = seen_at contents v k @ accepted_at k verdicts
      \<and> distinct (seen_at contents v' k) \<and> length (seen_at contents v' k) \<le> 6"
proof (induction msgs arbitrary: v verdicts)
  case Nil
  then show ?case by (simp add: accepted_at_def)
next
  case (Cons msg msgs)
  obtain now m where msg: "msg = (now, m)" by fastforce
  have H': "heights K S cfg [(now, m)] \<subseteq> H" "heights K S cfg msgs \<subseteq> H"
    using Cons.prems(3) by (auto simp: heights_def msg)
  obtain verdict v1 where step: "blocks_validator K S L cfg now m v = (verdict, v1)" "wf_validator contents v1"
    "dom (contents (va_lru v1)) \<subseteq> H" "\<And>k. distinct (seen_at contents v1 k) \<and> length (seen_at contents v1 k) \<le> 6"
    "\<And>k. seen_at contents v1 k = seen_at contents v k @ accepted_hash k verdict"
    using validator_step [OF laws Cons.prems(1) H Cons.prems(2) H'(1) Cons.prems(4)] by blast
  obtain vs where vs: "validate_all K S L cfg msgs v1 = (vs, v')" "verdicts = verdict # vs"
    using Cons.prems(5) step(1) by (auto simp: msg split: prod.splits)
  note IH = Cons.IH [OF step(2,3) H'(2) step(4) vs(1)]
  then have "seen_at contents v' k = seen_at contents v k @ accepted_at k verdicts"
    by (simp add: step(5) vs(2) accepted_at_def)
  with IH show ?case by blast
qed

text \<open>
  A bounded number of different blocks per height: whatever messages a validator sees one after the
  other, as long as those that pass the checks have at most 100 different heights, the capacity of the cache, no block is
  accepted twice and at most six blocks are accepted at any height.
\<close>

lemma gossip_accepts_bounded:
  assumes "lru_laws 100 contents L" and "contents (va_lru v) = Map.empty"
    and "card (heights K S cfg msgs) \<le> 100"
    and "validate_all K S L cfg msgs v = (verdicts, v')"
  shows "distinct (accepted_at k verdicts) \<and> length (accepted_at k verdicts) \<le> 6
    \<and> seen_at contents v' k = accepted_at k verdicts"
proof -
  have "wf_validator contents v" "\<And>k. seen_at contents v k = []" using assms(2) by (simp_all add: wf_validator_def seen_at_def)
  with validate_all_accepts [OF assms(1) _ assms(3) _ _ _ _ assms(4), of k] assms(2)
  show ?thesis by auto
qed

lemma card_heights: "card (heights K S cfg msgs) \<le> length msgs"
proof -
  have "heights K S cfg msgs \<subseteq> (\<lambda>(now, m). pl_BlockNumber (projr (check_message K S cfg now m))) ` set msgs"
    by (force simp: heights_def)
  from card_mono [OF _ this] have "card (heights K S cfg msgs)
      \<le> card ((\<lambda>(now, m). pl_BlockNumber (projr (check_message K S cfg now m))) ` set msgs)" by simp
  also have "\<dots> \<le> card (set msgs)" by (rule card_image_le) simp
  also have "\<dots> \<le> length msgs" by (rule card_length)
  finally show ?thesis .
qed

section \<open>From publisher to validator\<close>

lemma PublishL2Payload_data:
  assumes "signs_for K key addr" "L2ChainID cfg = Some n" "nat \<bar>n\<bar> < 256 ^ 32" "payload_size p < 2 ^ 32"
  obtains sig pub h where "PublishL2Payload K S cfg (Some key) pool p = Inr (sn_Encode S (sig @ encoding p))"
    "length sig = 65" "BlockSigningHash (c_Keccak256 K) cfg (encoding p) = Some h" "c_SigToPub K h sig = Some pub"
    "c_PubkeyToAddress K pub = addr"
proof -
  let ?h = "c_Keccak256 K (SigningDomainBlocksV1 @ word_bytes (c_Keccak256 K (encoding p)) @ replicate 32 0)"
  have h: "BlockSigningHash (c_Keccak256 K) cfg (encoding p) = Some ?h" by (rule BlockSigningHash_eq [OF assms(2,3)])
  obtain sig pub where sig: "c_Sign K ?h key = Some sig" "length sig = 65" "c_SigToPub K ?h sig = Some pub"
    "c_PubkeyToAddress K pub = addr" using assms(1) unfolding signs_for_def by blast
  have "LocalSigner_Sign K (Some key) SigningDomainBlocksV1 (L2ChainID cfg) (encoding p) = Inr sig"
    using h sig(1,2) by (simp add: LocalSigner_Sign_def BlockSigningHash_def)
  then have "PublishL2Payload K S cfg (Some key) pool p = Inr (sn_Encode S (sig @ encoding p))"
    using sig(2) by (simp add: PublishL2Payload_def MarshalSSZ_encoding [OF assms(4)] copy_at_def)
  with that sig h show ?thesis by blast
qed

lemma check_message_published:
  assumes "snappy_laws S" "length sig = 65" "BlockSigningHash (c_Keccak256 K) cfg (encoding p) = Some h"
    "c_SigToPub K h sig = Some pub" "c_PubkeyToAddress K pub = P2PSequencerAddress cfg"
    and fits: "length (pl_ExtraData p) \<le> 32" "payload_size p + 65 \<le> maxGossipSize"
    and "snd (CheckBlockHash K p)"
  shows "check_message K S cfg now (sn_Encode S (sig @ encoding p)) =
    (if pl_Timestamp p < now - 60 \<or> pl_Timestamp p > now + 5 then Inl ValidationReject else Inr p)"
proof -
  have size: "payload_size p < 2 ^ 32" "length (pl_Transactions p) \<le> 2 ^ 20" "508 \<le> payload_size p"
    using fits(2) by (auto simp: maxGossipSize_def payload_size_def)
  have "UnmarshalSSZ (word_of_nat (payload_size p)) (encoding p) = Inr p"
    using encoding_encodes [OF fits(1) size(2)] size(1) by (intro UnmarshalSSZ_decodes) (simp_all add: unat_of_nat)
  then show ?thesis
    using assms size(3) by (simp add: check_message_def snappy_laws_def minGossipSize_def Let_def)
qed


section \<open>Concrete instances\<close>

text \<open>A signature that repeats the hash, no compression, and a cache that is emptied when it is full.\<close>

definition sample_crypto :: "unit crypto" where
  "sample_crypto = \<lparr>c_Keccak256 = (\<lambda>bs. 7),
     c_SigToPub = (\<lambda>h sig. if sig = word_bytes h @ replicate 33 0 then Some () else None),
     c_PubkeyToAddress = (\<lambda>_. 11), c_Sign = (\<lambda>h key. Some (word_bytes h @ replicate 33 0)),
     c_DeriveSha = (\<lambda>txs. 0), c_HeaderHash = (\<lambda>h. 14), c_EmptyUncleHash = 0\<rparr>"

definition sample_snappy :: snappy where
  "sample_snappy = \<lparr>sn_DecodedLen = (\<lambda>bs. Some (length bs)), sn_Decode = Some, sn_Encode = (\<lambda>bs. bs)\<rparr>"

definition sample_lru :: "(u64 \<Rightarrow> nat option) lru_ops" where
  "sample_lru = \<lparr>lru_Get = (\<lambda>c k. (c k, c)),
     lru_Add = (\<lambda>c k ptr. if card (dom c) < 100 then c(k \<mapsto> ptr) else [k \<mapsto> ptr])\<rparr>"

definition sample_validator :: "(u64 \<Rightarrow> nat option) validator" where
  "sample_validator = \<lparr>va_lru = Map.empty, va_seen = []\<rparr>"

lemma sample_gossip_laws: "snappy_laws sample_snappy" "signs_for sample_crypto 5 (P2PSequencerAddress sample_config)"
  "lru_laws 100 (\<lambda>c. c) sample_lru"
  by (auto simp: snappy_laws_def sample_snappy_def signs_for_def sample_crypto_def sample_config_def lru_laws_def sample_lru_def)


end
