(* ===== verification/Output_Oracle.thy ===== *)
theory Output_Oracle
  imports Rollup_Types
begin

text \<open>
  The contract on L1 that records the outputs of the L2 chain,
  \<^verbatim>\<open>packages/contracts-bedrock/contracts/L1/L2OutputOracle.sol\<close>.

  A \<^verbatim>\<open>uint256\<close> is a natural number; arithmetic is checked, so an overflow or a negative difference reverts, as any
  failed \<^verbatim>\<open>require\<close> does. A call that reverts leaves the state as it was and gives the reason. The ownership part is
  inherited from a library and is a parameter: \<open>owner\<close> reads it and \<open>set_owner\<close> is the transfer, which may refuse.
\<close>

section \<open>State\<close>

record output_proposal =
  op_outputRoot :: hash
  op_timestamp :: nat

record 'o l2oo =
  SUBMISSION_INTERVAL :: nat
  HISTORICAL_TOTAL_BLOCKS :: nat
  STARTING_BLOCK_NUMBER :: nat
  STARTING_TIMESTAMP :: nat
  L2_BLOCK_TIME :: nat
  oo_proposer :: address
  oo_latestBlockNumber :: nat
  oo_l2Outputs :: "nat \<Rightarrow> output_proposal"
  oo_ownable :: 'o

record 'o ownable =
  owner :: "'o \<Rightarrow> address"
  set_owner :: "address \<Rightarrow> 'o \<Rightarrow> 'o option"

record call =
  msg_sender :: address
  block_timestamp :: nat
  blockhash :: "nat \<Rightarrow> hash"

definition no_output :: output_proposal where
  "no_output = \<lparr>op_outputRoot = 0, op_timestamp = 0\<rparr>"

type_synonym 'a call_result = "cause + 'a"

definition checked :: "nat \<Rightarrow> nat call_result" where
  "checked n = (if n < 2 ^ 256 then Inr n else Inl ''arithmetic overflow'')"

definition checked_minus :: "nat \<Rightarrow> nat \<Rightarrow> nat call_result" where
  "checked_minus m n = (if n \<le> m then Inr (m - n) else Inl ''arithmetic underflow'')"

section \<open>Views\<close>

definition nextBlockNumber :: "'o l2oo \<Rightarrow> nat call_result" where
  "nextBlockNumber c = checked (oo_latestBlockNumber c + SUBMISSION_INTERVAL c)"

definition computeL2Timestamp :: "'o l2oo \<Rightarrow> nat \<Rightarrow> nat call_result" where
  "computeL2Timestamp c n =
    (if n < STARTING_BLOCK_NUMBER c then Inl ''block number must be greater than or equal to starting block number''
     else case checked ((n - STARTING_BLOCK_NUMBER c) * L2_BLOCK_TIME c) of
       Inl e \<Rightarrow> Inl e
     | Inr t \<Rightarrow> checked (STARTING_TIMESTAMP c + t))"

definition getL2Output :: "'o l2oo \<Rightarrow> nat \<Rightarrow> output_proposal call_result" where
  "getL2Output c n =
    (if n < STARTING_BLOCK_NUMBER c then Inl ''block number cannot be less than the starting block number''
     else if SUBMISSION_INTERVAL c = 0 then Inl ''division by zero''
     else let offset = (n - STARTING_BLOCK_NUMBER c) mod SUBMISSION_INTERVAL c in
     case (if offset = 0 then Inr n else checked (n + (SUBMISSION_INTERVAL c - offset))) of
       Inl e \<Rightarrow> Inl e
     | Inr lookupBlockNumber \<Rightarrow>
         let output = oo_l2Outputs c lookupBlockNumber in
         if op_outputRoot output = 0 then Inl ''No output found for that block number'' else Inr output)"

section \<open>Transactions\<close>

definition proposeL2Output ::
    "call \<Rightarrow> hash \<Rightarrow> nat \<Rightarrow> hash \<Rightarrow> nat \<Rightarrow> 'o l2oo \<Rightarrow> 'o l2oo call_result" where
  "proposeL2Output msg outputRoot n l1Blockhash l1BlockNumber c =
    (if oo_proposer c \<noteq> msg_sender msg then Inl ''function can only be called by proposer''
     else case nextBlockNumber c of Inl e \<Rightarrow> Inl e | Inr expected \<Rightarrow>
     if n \<noteq> expected then Inl ''block number must be equal to next expected block number''
     else case computeL2Timestamp c n of Inl e \<Rightarrow> Inl e | Inr t \<Rightarrow>
     if \<not> t < block_timestamp msg then Inl ''cannot propose L2 output in the future''
     else if outputRoot = 0 then Inl ''L2 output proposal cannot be the zero hash''
     else if l1Blockhash \<noteq> 0 \<and> blockhash msg l1BlockNumber \<noteq> l1Blockhash
     then Inl ''blockhash does not match the hash at the expected height''
     else Inr (c\<lparr>oo_l2Outputs := (oo_l2Outputs c)(n := \<lparr>op_outputRoot = outputRoot, op_timestamp = block_timestamp msg\<rparr>),
       oo_latestBlockNumber := n\<rparr>))"

definition deleteL2Output :: "'o ownable \<Rightarrow> call \<Rightarrow> output_proposal \<Rightarrow> 'o l2oo \<Rightarrow> 'o l2oo call_result" where
  "deleteL2Output W msg proposal c =
    (if owner W (oo_ownable c) \<noteq> msg_sender msg then Inl ''caller is not the owner''
     else let outputToDelete = oo_l2Outputs c (oo_latestBlockNumber c) in
     if op_outputRoot proposal \<noteq> op_outputRoot outputToDelete
     then Inl ''output root to delete does not match the latest output proposal''
     else if op_timestamp proposal \<noteq> op_timestamp outputToDelete
     then Inl ''timestamp to delete does not match the latest output proposal''
     else case checked_minus (oo_latestBlockNumber c) (SUBMISSION_INTERVAL c) of
       Inl e \<Rightarrow> Inl e
     | Inr n \<Rightarrow> Inr (c\<lparr>oo_l2Outputs := (oo_l2Outputs c)(oo_latestBlockNumber c := no_output), oo_latestBlockNumber := n\<rparr>))"

definition changeProposer :: "'o ownable \<Rightarrow> call \<Rightarrow> address \<Rightarrow> 'o l2oo \<Rightarrow> 'o l2oo call_result" where
  "changeProposer W msg newProposer c =
    (if owner W (oo_ownable c) \<noteq> msg_sender msg then Inl ''caller is not the owner''
     else if newProposer = 0 then Inl ''new proposer cannot be the zero address''
     else if newProposer = owner W (oo_ownable c) then Inl ''proposer cannot be the same as the owner''
     else Inr (c\<lparr>oo_proposer := newProposer\<rparr>))"

definition transferOwnership :: "'o ownable \<Rightarrow> call \<Rightarrow> address \<Rightarrow> 'o l2oo \<Rightarrow> 'o l2oo call_result" where
  "transferOwnership W msg newOwner c =
    (if owner W (oo_ownable c) \<noteq> msg_sender msg then Inl ''caller is not the owner''
     else if newOwner = oo_proposer c then Inl ''owner cannot be the same as the proposer''
     else case set_owner W newOwner (oo_ownable c) of
       None \<Rightarrow> Inl ''ownership not transferred''
     | Some w \<Rightarrow> Inr (c\<lparr>oo_ownable := w\<rparr>))"

text \<open>
  \<^verbatim>\<open>initialize\<close>, as the constructor runs it: \<open>w\<close> is the ownership state that \<^verbatim>\<open>__Ownable_init\<close> sets up for the caller, and
  \<^verbatim>\<open>changeProposer\<close> runs with that caller.
\<close>

definition l2oo_initialize ::
    "'o ownable \<Rightarrow> call \<Rightarrow> 'o \<Rightarrow> hash \<Rightarrow> nat \<Rightarrow> address \<Rightarrow> address \<Rightarrow> 'o l2oo \<Rightarrow> 'o l2oo call_result" where
  "l2oo_initialize W msg w genesisL2Output startingBlockNumber new_proposer new_owner c =
    (if new_proposer = new_owner then Inl ''proposer cannot be the same as the owner''
     else let c = c\<lparr>oo_l2Outputs := (oo_l2Outputs c)
              (startingBlockNumber := \<lparr>op_outputRoot = genesisL2Output, op_timestamp = block_timestamp msg\<rparr>),
            oo_latestBlockNumber := startingBlockNumber, oo_ownable := w\<rparr>
     in case changeProposer W msg new_proposer c of Inl e \<Rightarrow> Inl e | Inr c \<Rightarrow>
     case set_owner W new_owner (oo_ownable c) of
       None \<Rightarrow> Inl ''ownership not transferred''
     | Some w' \<Rightarrow> Inr (c\<lparr>oo_ownable := w'\<rparr>))"

definition l2oo_constructor ::
    "'o ownable \<Rightarrow> call \<Rightarrow> 'o \<Rightarrow> nat \<Rightarrow> hash \<Rightarrow> nat \<Rightarrow> nat \<Rightarrow> nat \<Rightarrow> nat \<Rightarrow> address \<Rightarrow> address \<Rightarrow> 'o l2oo call_result" where
  "l2oo_constructor W msg w submissionInterval genesisL2Output historicalTotalBlocks startingBlockNumber startingTimestamp l2BlockTime new_proposer new_owner =
    (if \<not> startingTimestamp \<le> block_timestamp msg then Inl ''starting L2 timestamp must be less than current time''
     else l2oo_initialize W msg w genesisL2Output startingBlockNumber new_proposer new_owner
       \<lparr>SUBMISSION_INTERVAL = submissionInterval, HISTORICAL_TOTAL_BLOCKS = historicalTotalBlocks, STARTING_BLOCK_NUMBER = startingBlockNumber,
        STARTING_TIMESTAMP = startingTimestamp, L2_BLOCK_TIME = l2BlockTime, oo_proposer = 0, oo_latestBlockNumber = 0,
        oo_l2Outputs = (\<lambda>n. no_output), oo_ownable = w\<rparr>)"

text \<open>Any sequence of successful calls.\<close>

inductive l2oo_trans :: "'o ownable \<Rightarrow> 'o l2oo \<Rightarrow> 'o l2oo \<Rightarrow> bool" for W where
  propose: "proposeL2Output msg root n h l c = Inr c' \<Longrightarrow> l2oo_trans W c c'"
| delete: "deleteL2Output W msg proposal c = Inr c' \<Longrightarrow> l2oo_trans W c c'"
| change: "changeProposer W msg p c = Inr c' \<Longrightarrow> l2oo_trans W c c'"
| transfer: "transferOwnership W msg p c = Inr c' \<Longrightarrow> l2oo_trans W c c'"

section \<open>The recorded outputs\<close>

definition checkpoint :: "'o l2oo \<Rightarrow> nat \<Rightarrow> bool" where
  "checkpoint c n \<longleftrightarrow> STARTING_BLOCK_NUMBER c \<le> n \<and> SUBMISSION_INTERVAL c dvd (n - STARTING_BLOCK_NUMBER c)"

text \<open>
  Outputs are recorded at the checkpoints up to the latest block and nowhere else; the latest block number stays on
  the grid of checkpoints, also below the starting block; the proposer is not the owner.
\<close>

definition l2oo_inv :: "'o ownable \<Rightarrow> 'o l2oo \<Rightarrow> bool" where
  "l2oo_inv W c \<longleftrightarrow>
     (\<forall>n. op_outputRoot (oo_l2Outputs c n) \<noteq> 0 \<longleftrightarrow> checkpoint c n \<and> n \<le> oo_latestBlockNumber c)
     \<and> int (SUBMISSION_INTERVAL c) dvd int (oo_latestBlockNumber c) - int (STARTING_BLOCK_NUMBER c)
     \<and> oo_latestBlockNumber c < 2 ^ 256
     \<and> oo_proposer c \<noteq> owner W (oo_ownable c)"

definition ownable_laws :: "'o ownable \<Rightarrow> bool" where
  "ownable_laws W \<longleftrightarrow> (\<forall>a w w'. set_owner W a w = Some w' \<longrightarrow> owner W w' = a)"

lemma checkpoint_int:
  "checkpoint c n \<longleftrightarrow> STARTING_BLOCK_NUMBER c \<le> n
     \<and> int (SUBMISSION_INTERVAL c) dvd int n - int (STARTING_BLOCK_NUMBER c)"
  unfolding checkpoint_def by (metis int_dvd_int_iff of_nat_diff)

lemma checkpoint_frame [simp]:
  "checkpoint (c\<lparr>oo_l2Outputs := outputs, oo_latestBlockNumber := k\<rparr>) n = checkpoint c n"
  "checkpoint (c\<lparr>oo_proposer := p\<rparr>) n = checkpoint c n" "checkpoint (c\<lparr>oo_ownable := w\<rparr>) n = checkpoint c n"
  by (simp_all add: checkpoint_def)

lemma checkpoint_gap:
  assumes "checkpoint c n" "int (SUBMISSION_INTERVAL c) dvd int m - int (STARTING_BLOCK_NUMBER c)" "n < m"
  shows "n + SUBMISSION_INTERVAL c \<le> m"
proof -
  have "int (SUBMISSION_INTERVAL c) dvd (int m - int (STARTING_BLOCK_NUMBER c)) - (int n - int (STARTING_BLOCK_NUMBER c))"
    using assms(1,2) unfolding checkpoint_int by (blast intro: dvd_diff)
  then have "int (SUBMISSION_INTERVAL c) \<le> int m - int n" using assms(3) by (intro zdvd_imp_le) auto
  then show ?thesis by linarith
qed

lemma propose_ok:
  assumes "proposeL2Output msg root n h l c = Inr c'"
  shows "oo_proposer c = msg_sender msg" "n = oo_latestBlockNumber c + SUBMISSION_INTERVAL c" "n < 2 ^ 256"
    "STARTING_BLOCK_NUMBER c \<le> n" "root \<noteq> 0" "h = 0 \<or> blockhash msg l = h"
    "c' = c\<lparr>oo_l2Outputs := (oo_l2Outputs c)(n := \<lparr>op_outputRoot = root, op_timestamp = block_timestamp msg\<rparr>), oo_latestBlockNumber := n\<rparr>"
  using assms
  by (auto simp: proposeL2Output_def nextBlockNumber_def computeL2Timestamp_def checked_def split: if_splits sum.splits)

lemma propose_inv:
  assumes "l2oo_inv W c" "proposeL2Output msg root n h l c = Inr c'" "0 < SUBMISSION_INTERVAL c"
  shows "l2oo_inv W c'"
proof -
  note p = propose_ok [OF assms(2)]
  let ?latest = "oo_latestBlockNumber c"
  have grid: "int (SUBMISSION_INTERVAL c) dvd int n - int (STARTING_BLOCK_NUMBER c)"
  proof -
    have "int n - int (STARTING_BLOCK_NUMBER c) = (int ?latest - int (STARTING_BLOCK_NUMBER c)) + int (SUBMISSION_INTERVAL c)"
      by (simp add: p(2))
    moreover have "int (SUBMISSION_INTERVAL c) dvd int ?latest - int (STARTING_BLOCK_NUMBER c)"
      using assms(1) by (simp add: l2oo_inv_def)
    ultimately show ?thesis using dvd_add [OF _ dvd_refl] by (simp only:)
  qed
  have "checkpoint c m \<and> m \<le> n \<longleftrightarrow> m = n \<or> checkpoint c m \<and> m \<le> ?latest" for m
    using checkpoint_gap [OF _ grid, of m] p(2,4) grid by (auto simp: checkpoint_int)
  with assms(1) grid p(3,5) show ?thesis
    unfolding p(7) l2oo_inv_def by simp
qed

lemma delete_ok:
  assumes "deleteL2Output W msg proposal c = Inr c'"
  shows "owner W (oo_ownable c) = msg_sender msg" "SUBMISSION_INTERVAL c \<le> oo_latestBlockNumber c"
    "c' = c\<lparr>oo_l2Outputs := (oo_l2Outputs c)(oo_latestBlockNumber c := no_output),
       oo_latestBlockNumber := oo_latestBlockNumber c - SUBMISSION_INTERVAL c\<rparr>"
  using assms by (auto simp: deleteL2Output_def checked_minus_def Let_def split: if_splits)

lemma delete_inv:
  assumes "l2oo_inv W c" "deleteL2Output W msg proposal c = Inr c'" "0 < SUBMISSION_INTERVAL c"
  shows "l2oo_inv W c'"
proof -
  note d = delete_ok [OF assms(2)]
  let ?latest = "oo_latestBlockNumber c" and ?I = "SUBMISSION_INTERVAL c"
  have grid: "int ?I dvd int ?latest - int (STARTING_BLOCK_NUMBER c)" using assms(1) by (simp add: l2oo_inv_def)
  have "checkpoint c m \<and> m \<le> ?latest - ?I \<longleftrightarrow> m \<noteq> ?latest \<and> checkpoint c m \<and> m \<le> ?latest" for m
    using checkpoint_gap [OF _ grid, of m] d(2) assms(3) by auto
  moreover have "int ?I dvd int (?latest - ?I) - int (STARTING_BLOCK_NUMBER c)"
  proof -
    have "int (?latest - ?I) - int (STARTING_BLOCK_NUMBER c) = (int ?latest - int (STARTING_BLOCK_NUMBER c)) - int ?I"
      using d(2) by (simp add: of_nat_diff)
    then show ?thesis using dvd_diff [OF grid dvd_refl] by (simp only:)
  qed
  moreover have "?latest - ?I < 2 ^ 256"
    by (rule le_less_trans [OF diff_le_self]) (use assms(1) in \<open>simp add: l2oo_inv_def\<close>)
  ultimately show ?thesis
    using assms(1) unfolding d(3) l2oo_inv_def by (simp add: no_output_def)
qed

lemma trans_inv:
  assumes "ownable_laws W" "l2oo_trans W c c'" "l2oo_inv W c" "0 < SUBMISSION_INTERVAL c"
  shows "l2oo_inv W c' \<and> SUBMISSION_INTERVAL c' = SUBMISSION_INTERVAL c \<and> STARTING_BLOCK_NUMBER c' = STARTING_BLOCK_NUMBER c"
  using assms(2)
proof (cases rule: l2oo_trans.cases)
  case (propose msg root n h l)
  then show ?thesis
    using propose_inv [OF assms(3) propose assms(4)] by (simp add: propose_ok(7) [OF propose])
next
  case (delete msg proposal)
  then show ?thesis
    using delete_inv [OF assms(3) delete assms(4)] by (simp add: delete_ok(3) [OF delete])
next
  case (change msg p)
  then have "c' = c\<lparr>oo_proposer := p\<rparr>" "p \<noteq> owner W (oo_ownable c)" by (auto simp: changeProposer_def split: if_splits)
  then show ?thesis
    using assms(3) by (simp add: l2oo_inv_def)
next
  case (transfer msg p)
  then obtain w where "c' = c\<lparr>oo_ownable := w\<rparr>" "owner W w = p" "p \<noteq> oo_proposer c"
    using assms(1) by (auto simp: transferOwnership_def ownable_laws_def split: if_splits option.splits)
  then show ?thesis
    using assms(3) by (auto simp: l2oo_inv_def)
qed

lemma constructor_inv:
  assumes "ownable_laws W" and "l2oo_constructor W msg w interval genesis hist start t0 bt p own = Inr c"
    and "genesis \<noteq> 0" "start < 2 ^ 256" "0 < interval"
  shows "l2oo_inv W c" "SUBMISSION_INTERVAL c = interval" "STARTING_BLOCK_NUMBER c = start"
proof -
  from assms(2) obtain w' where c: "c = \<lparr>SUBMISSION_INTERVAL = interval, HISTORICAL_TOTAL_BLOCKS = hist, STARTING_BLOCK_NUMBER = start,
      STARTING_TIMESTAMP = t0, L2_BLOCK_TIME = bt, oo_proposer = p, oo_latestBlockNumber = start,
      oo_l2Outputs = (\<lambda>n. no_output)(start := \<lparr>op_outputRoot = genesis, op_timestamp = block_timestamp msg\<rparr>), oo_ownable = w'\<rparr>"
    and "set_owner W own w = Some w'" "p \<noteq> own"
    by (auto simp: l2oo_constructor_def l2oo_initialize_def changeProposer_def Let_def split: if_splits sum.splits option.splits)
  moreover from this have "owner W w' = own" using assms(1) by (auto simp: ownable_laws_def)
  moreover have "checkpoint c n \<and> n \<le> start \<longleftrightarrow> n = start" for n
    unfolding c by (auto simp: checkpoint_def)
  ultimately show "l2oo_inv W c" "SUBMISSION_INTERVAL c = interval" "STARTING_BLOCK_NUMBER c = start"
    using assms(3-5) by (simp_all add: l2oo_inv_def no_output_def)
qed

lemma reachable_inv:
  assumes "ownable_laws W" "l2oo_constructor W msg w interval genesis hist start t0 bt p own = Inr c0"
    "genesis \<noteq> 0" "start < 2 ^ 256" "0 < interval" "(l2oo_trans W)\<^sup>*\<^sup>* c0 c"
  shows "l2oo_inv W c \<and> SUBMISSION_INTERVAL c = interval \<and> STARTING_BLOCK_NUMBER c = start"
  using assms(6)
proof induction
  case base
  show ?case using constructor_inv [OF assms(1-5)] by blast
next
  case (step c c')
  then show ?case using trans_inv [OF assms(1) step(2)] assms(5) by simp
qed

lemma next_checkpoint:
  assumes "STARTING_BLOCK_NUMBER c \<le> b" "0 < SUBMISSION_INTERVAL c"
  defines "off \<equiv> (b - STARTING_BLOCK_NUMBER c) mod SUBMISSION_INTERVAL c"
  defines "n \<equiv> if off = 0 then b else b + (SUBMISSION_INTERVAL c - off)"
  shows "checkpoint c n" "b \<le> n" "n < b + SUBMISSION_INTERVAL c"
proof -
  have off: "off < SUBMISSION_INTERVAL c" using assms(2) by (simp add: off_def)
  show "b \<le> n" "n < b + SUBMISSION_INTERVAL c" using off assms(2) by (auto simp: n_def)
  have "SUBMISSION_INTERVAL c dvd (b - STARTING_BLOCK_NUMBER c) - off" unfolding off_def by (rule dvd_minus_mod)
  moreover have "n - STARTING_BLOCK_NUMBER c = (b - STARTING_BLOCK_NUMBER c) - off + (if off = 0 then 0 else SUBMISSION_INTERVAL c)"
  proof -
    have "off \<le> b - STARTING_BLOCK_NUMBER c" unfolding off_def by (rule mod_less_eq_dividend)
    then show ?thesis using assms(1) off by (auto simp: n_def)
  qed
  ultimately have "SUBMISSION_INTERVAL c dvd n - STARTING_BLOCK_NUMBER c" by (auto intro: dvd_add)
  with assms(1) \<open>b \<le> n\<close> show "checkpoint c n" by (simp add: checkpoint_def)
qed

lemma getL2Output_eq:
  assumes "STARTING_BLOCK_NUMBER c \<le> b" "0 < SUBMISSION_INTERVAL c"
  defines "off \<equiv> (b - STARTING_BLOCK_NUMBER c) mod SUBMISSION_INTERVAL c"
  defines "n \<equiv> if off = 0 then b else b + (SUBMISSION_INTERVAL c - off)"
  shows "getL2Output c b = (if off \<noteq> 0 \<and> \<not> n < 2 ^ 256 then Inl ''arithmetic overflow''
    else if op_outputRoot (oo_l2Outputs c n) = 0 then Inl ''No output found for that block number'' else Inr (oo_l2Outputs c n))"
  using assms(1,2) unfolding getL2Output_def Let_def off_def [symmetric] n_def checked_def
  by (cases "off = 0") simp_all

lemma propose_accepted:
  assumes "l2oo_inv W c" "0 < SUBMISSION_INTERVAL c" "nextBlockNumber c = Inr n" "computeL2Timestamp c n = Inr t"
    and "oo_proposer c = msg_sender msg" "t < block_timestamp msg" "root \<noteq> 0" "blockhash msg l = h"
  shows "\<exists>c'. proposeL2Output msg root n h l c = Inr c' \<and> oo_latestBlockNumber c' = n
    \<and> getL2Output c' n = Inr \<lparr>op_outputRoot = root, op_timestamp = block_timestamp msg\<rparr>
    \<and> (\<forall>msg'. \<exists>e. proposeL2Output msg' root n h l c' = Inl e)"
proof -
  obtain c' where c': "proposeL2Output msg root n h l c = Inr c'"
    using assms(3-8) by (simp add: proposeL2Output_def)
  note p = propose_ok [OF c']
  have rec: "oo_l2Outputs c' n = \<lparr>op_outputRoot = root, op_timestamp = block_timestamp msg\<rparr>"
    "oo_latestBlockNumber c' = n" "SUBMISSION_INTERVAL c' = SUBMISSION_INTERVAL c"
    by (simp_all add: p(7))
  have "op_outputRoot (oo_l2Outputs c' n) \<noteq> 0 \<longleftrightarrow> checkpoint c' n \<and> n \<le> oo_latestBlockNumber c'"
    using propose_inv [OF assms(1) c' assms(2)] unfolding l2oo_inv_def by blast
  then have "checkpoint c' n" using rec(1) assms(7) by simp
  then have "getL2Output c' n = Inr (oo_l2Outputs c' n)"
    using rec assms(2,7) by (simp add: getL2Output_def checkpoint_def dvd_eq_mod_eq_0)
  moreover have "\<exists>e. proposeL2Output msg' root n h l c' = Inl e" for msg'
    using propose_ok(2) [of msg' root n h l c'] rec(2,3) assms(2)
    by (cases "proposeL2Output msg' root n h l c'") auto
  ultimately show ?thesis using c' rec by auto
qed

lemma getL2Output_inv:
  assumes "l2oo_inv W c" "0 < SUBMISSION_INTERVAL c"
  shows "if STARTING_BLOCK_NUMBER c \<le> b \<and> b \<le> oo_latestBlockNumber c
    then \<exists>n. checkpoint c n \<and> b \<le> n \<and> n < b + SUBMISSION_INTERVAL c \<and> n \<le> oo_latestBlockNumber c
      \<and> getL2Output c b = Inr (oo_l2Outputs c n)
    else \<exists>e. getL2Output c b = Inl e"
proof -
  let ?off = "(b - STARTING_BLOCK_NUMBER c) mod SUBMISSION_INTERVAL c" and ?latest = "oo_latestBlockNumber c"
  define n where "n = (if ?off = 0 then b else b + (SUBMISSION_INTERVAL c - ?off))"
  have recorded: "op_outputRoot (oo_l2Outputs c n) \<noteq> 0 \<longleftrightarrow> checkpoint c n \<and> n \<le> ?latest"
    using assms(1) by (simp add: l2oo_inv_def)
  have latest: "int (SUBMISSION_INTERVAL c) dvd int ?latest - int (STARTING_BLOCK_NUMBER c)" "?latest < 2 ^ 256"
    using assms(1) by (simp_all add: l2oo_inv_def)
  show ?thesis
  proof (cases "STARTING_BLOCK_NUMBER c \<le> b")
    case True
    note n = next_checkpoint [OF True assms(2), folded n_def]
    show ?thesis
    proof (cases "b \<le> ?latest")
      case False
      then have "op_outputRoot (oo_l2Outputs c n) = 0" using recorded n(2) by auto
      then have "\<exists>e. getL2Output c b = Inl e"
        using getL2Output_eq [OF True assms(2), folded n_def] by simp
      with False show ?thesis by simp
    next
      case le: True
      have "checkpoint c ?latest" using True le latest(1) by (simp add: checkpoint_int)
      moreover have "int (SUBMISSION_INTERVAL c) dvd int n - int (STARTING_BLOCK_NUMBER c)" using n(1) by (simp add: checkpoint_int)
      ultimately have "n \<le> ?latest" using checkpoint_gap [of c ?latest n] n(3) le by linarith
      moreover from this have "op_outputRoot (oo_l2Outputs c n) \<noteq> 0" "n < 2 ^ 256" using recorded n(1) latest(2) by auto
      then have "getL2Output c b = Inr (oo_l2Outputs c n)"
        using getL2Output_eq [OF True assms(2), folded n_def] by simp
      ultimately show ?thesis using True le n by auto
    qed
  qed (simp add: getL2Output_def)
qed

text \<open>
  C21. The contract keeps a gap-free list of checkpoints: after any sequence of successful calls, an output is recorded
  for a block exactly when the block is a checkpoint up to the latest one; looking up a block between the start
  and the latest checkpoint gives the output of the first checkpoint at or after it, and any other lookup reverts; the proposer
  never is the owner.
\<close>

theorem outputs_at_checkpoints:
  assumes "ownable_laws W" and "l2oo_constructor W msg w interval genesis hist start t0 bt p own = Inr c0"
    and "genesis \<noteq> 0" and "start < 2 ^ 256" and "0 < interval" and "(l2oo_trans W)\<^sup>*\<^sup>* c0 c"
  shows "(op_outputRoot (oo_l2Outputs c k) \<noteq> 0 \<longleftrightarrow> checkpoint c k \<and> k \<le> oo_latestBlockNumber c)
    \<and> (if start \<le> b \<and> b \<le> oo_latestBlockNumber c
       then \<exists>n. checkpoint c n \<and> b \<le> n \<and> n < b + interval \<and> n \<le> oo_latestBlockNumber c \<and> getL2Output c b = Inr (oo_l2Outputs c n)
       else \<exists>e. getL2Output c b = Inl e)
    \<and> oo_proposer c \<noteq> owner W (oo_ownable c)"
proof -
  have inv: "l2oo_inv W c" and const: "SUBMISSION_INTERVAL c = interval" "STARTING_BLOCK_NUMBER c = start"
    using reachable_inv [OF assms] by blast+
  then show ?thesis
    using getL2Output_inv [OF inv, of b] assms(5) unfolding const by (simp add: l2oo_inv_def)
qed

definition sample_ownable :: "address ownable" where
  "sample_ownable = \<lparr>owner = (\<lambda>w. w), set_owner = (\<lambda>a w. if a = 0 then None else Some a)\<rparr>"

definition sample_call :: call where
  "sample_call = \<lparr>msg_sender = 5, block_timestamp = 1000, blockhash = (\<lambda>n. 77)\<rparr>"

definition sample_l2oo :: "address l2oo" where
  "sample_l2oo = \<lparr>SUBMISSION_INTERVAL = 10, HISTORICAL_TOTAL_BLOCKS = 0, STARTING_BLOCK_NUMBER = 100, STARTING_TIMESTAMP = 500, L2_BLOCK_TIME = 2,
     oo_proposer = 5, oo_latestBlockNumber = 110,
     oo_l2Outputs = ((\<lambda>n. no_output)(100 := \<lparr>op_outputRoot = 1, op_timestamp = 600\<rparr>))(110 := \<lparr>op_outputRoot = 8, op_timestamp = 1000\<rparr>),
     oo_ownable = 6\<rparr>"

theorem outputs_at_checkpoints_witness:
  "(op_outputRoot (oo_l2Outputs sample_l2oo 110) \<noteq> 0 \<longleftrightarrow> checkpoint sample_l2oo 110 \<and> 110 \<le> oo_latestBlockNumber sample_l2oo)
    \<and> (\<exists>n. checkpoint sample_l2oo n \<and> 105 \<le> n \<and> n < 105 + 10 \<and> n \<le> oo_latestBlockNumber sample_l2oo
        \<and> getL2Output sample_l2oo 105 = Inr (oo_l2Outputs sample_l2oo n))
    \<and> oo_proposer sample_l2oo \<noteq> owner sample_ownable (oo_ownable sample_l2oo)"
proof -
  let ?msg = "\<lparr>msg_sender = 9, block_timestamp = 600, blockhash = (\<lambda>n. 0)\<rparr>"
  let ?c0 = "sample_l2oo\<lparr>oo_latestBlockNumber := 100, oo_l2Outputs := (\<lambda>n. no_output)(100 := \<lparr>op_outputRoot = 1, op_timestamp = 600\<rparr>)\<rparr>"
  have "ownable_laws sample_ownable" by (simp add: ownable_laws_def sample_ownable_def)
  moreover have "l2oo_constructor sample_ownable ?msg 9 10 1 0 100 500 2 5 6 = Inr ?c0"
    by (simp add: l2oo_constructor_def l2oo_initialize_def changeProposer_def sample_ownable_def sample_l2oo_def)
  moreover have "proposeL2Output sample_call 8 110 77 3 ?c0 = Inr sample_l2oo"
    by (simp add: proposeL2Output_def nextBlockNumber_def computeL2Timestamp_def checked_def sample_call_def sample_l2oo_def)
  then have "(l2oo_trans sample_ownable)\<^sup>*\<^sup>* ?c0 sample_l2oo" by (blast intro: l2oo_trans.propose)
  ultimately show ?thesis
    using outputs_at_checkpoints [of sample_ownable ?msg 9 10 1 0 100 500 2 5 6 ?c0 sample_l2oo 110 105]
    by (simp add: sample_l2oo_def)
qed

end
