(* ===== verification/TxMgr.thy ===== *)
theory TxMgr
  imports Rollup_Types
begin

text \<open>
  The transaction manager of batcher and proposer, \<^verbatim>\<open>op-proposer/txmgr\<close>: it publishes a transaction again and
  again with a higher gas price until one of the copies is confirmed.

  \<^verbatim>\<open>Send\<close> runs one goroutine per published copy beside its own loop. They share the \<^verbatim>\<open>SendState\<close> behind a mutex, a
  channel for one receipt and a cancellable context. The model is a transition system: a state has the shared
  variables and the position of every goroutine, and a label says which goroutine moves and what the backend
  answered. Every access to the shared state is a step of its own, so all interleavings are covered.
\<close>

section \<open>The send state\<close>

record send_state =
  ss_minedTxs :: "hash list"
  ss_nonceTooLowCount :: u64
  ss_safeAbortNonceTooLowCount :: u64

text \<open>\<open>None\<close> is the panic on a zero count. The map \<^verbatim>\<open>minedTxs\<close> is the list of its keys.\<close>

definition NewSendState :: "u64 \<Rightarrow> send_state option" where
  "NewSendState safeAbort =
    (if safeAbort = 0 then None
     else Some \<lparr>ss_minedTxs = [], ss_nonceTooLowCount = 0, ss_safeAbortNonceTooLowCount = safeAbort\<rparr>)"

text \<open>
  What the code looks at in an error of the backend: whether its text contains that of \<^verbatim>\<open>core.ErrNonceTooLow\<close>, and
  whether it is \<^verbatim>\<open>context.Canceled\<close> or contains its text.
\<close>

record send_err =
  se_NonceTooLow :: bool
  se_Canceled :: bool

definition ProcessSendError :: "send_err option \<Rightarrow> send_state \<Rightarrow> send_state" where
  "ProcessSendError err s =
    (case err of
       None \<Rightarrow> s
     | Some e \<Rightarrow> if \<not> se_NonceTooLow e then s else s\<lparr>ss_nonceTooLowCount := ss_nonceTooLowCount s + 1\<rparr>)"

definition TxMined :: "hash \<Rightarrow> send_state \<Rightarrow> send_state" where
  "TxMined txHash s = s\<lparr>ss_minedTxs := List.insert txHash (ss_minedTxs s)\<rparr>"

definition TxNotMined :: "hash \<Rightarrow> send_state \<Rightarrow> send_state" where
  "TxNotMined txHash s =
    (let wasMined = list_ex (\<lambda>h. h = txHash) (ss_minedTxs s);
         s = s\<lparr>ss_minedTxs := removeAll txHash (ss_minedTxs s)\<rparr>
     in if length (ss_minedTxs s) = 0 \<and> wasMined then s\<lparr>ss_nonceTooLowCount := 0\<rparr> else s)"

definition ShouldAbortImmediately :: "send_state \<Rightarrow> bool" where
  "ShouldAbortImmediately s =
    (if length (ss_minedTxs s) > 0 then False
     else ss_nonceTooLowCount s \<ge> ss_safeAbortNonceTooLowCount s)"

definition IsWaitingForConfirmation :: "send_state \<Rightarrow> bool" where
  "IsWaitingForConfirmation s \<longleftrightarrow> length (ss_minedTxs s) > 0"

section \<open>Sending\<close>

record tx_receipt =
  rt_TxHash :: hash
  rt_BlockNumber :: u64
  rt_Failed :: bool

record txmgr_config =
  tc_NumConfirmations :: u64
  tc_SafeAbortNonceTooLowCount :: u64

text \<open>Where a goroutine of \<^verbatim>\<open>sendTxAsync\<close> stands; from \<open>Querying\<close> on it is in \<^verbatim>\<open>waitMined\<close>.\<close>

datatype worker =
    Crafting
  | Publishing hash
  | Rejected
  | Querying hash
  | Mined hash tx_receipt
  | Sleeping hash
  | Confirmed tx_receipt
  | Ended

text \<open>\<open>tm_result\<close> is what the loop of \<^verbatim>\<open>Send\<close> returns, the error being that of the cancelled context.\<close>

record txmgr =
  tm_sendState :: send_state
  tm_workers :: "worker list"
  tm_receiptChan :: "tx_receipt option"
  tm_cancelled :: bool
  tm_result :: "(cause + tx_receipt) option"

text \<open>\<^verbatim>\<open>Send\<close> up to its loop: the first copy is submitted at once.\<close>

definition start_send :: "txmgr_config \<Rightarrow> txmgr option" where
  "start_send cfg =
    (if tc_NumConfirmations cfg = 0 then None
     else map_option (\<lambda>st. \<lparr>tm_sendState = st, tm_workers = [Crafting], tm_receiptChan = None, tm_cancelled = False, tm_result = None\<rparr>)
       (NewSendState (tc_SafeAbortNonceTooLowCount cfg)))"

datatype label =
    CraftFailed nat
  | Crafted nat hash
  | PublishOk nat
  | PublishError nat send_err
  | AbortCheck nat
  | ReceiptFound nat hash tx_receipt
  | ReceiptError nat
  | ReceiptNone nat hash
  | TipKnown nat u64
  | TipError nat
  | QueryTick nat
  | WaitCancelled nat
  | Report nat
  | ResubmitTick
  | ContextDone
  | ReceiptRead
  | CallerCancel

definition worker_at :: "nat \<Rightarrow> txmgr \<Rightarrow> worker option" where
  "worker_at i s = (if i < length (tm_workers s) then Some (tm_workers s ! i) else None)"

definition set_worker :: "nat \<Rightarrow> worker \<Rightarrow> txmgr \<Rightarrow> txmgr" where
  "set_worker i w s = s\<lparr>tm_workers := (tm_workers s)[i := w]\<rparr>"

definition leave_loop :: "cause + tx_receipt \<Rightarrow> txmgr \<Rightarrow> txmgr" where
  "leave_loop r s = s\<lparr>tm_result := Some r, tm_cancelled := True\<rparr>"

text \<open>The confirmation test of \<^verbatim>\<open>waitMined\<close>.\<close>

definition is_confirmed :: "txmgr_config \<Rightarrow> tx_receipt \<Rightarrow> u64 \<Rightarrow> bool" where
  "is_confirmed cfg receipt tipHeight \<longleftrightarrow> rt_BlockNumber receipt + tc_NumConfirmations cfg \<le> tipHeight + 1"

text \<open>One step; \<open>None\<close> when the label does not fit the state.\<close>

fun txmgr_step :: "txmgr_config \<Rightarrow> label \<Rightarrow> txmgr \<Rightarrow> txmgr option" where
  "txmgr_step cfg (CraftFailed i) s =
    (case worker_at i s of Some Crafting \<Rightarrow> Some (set_worker i Ended s) | _ \<Rightarrow> None)"
| "txmgr_step cfg (Crafted i h) s =
    (case worker_at i s of Some Crafting \<Rightarrow> Some (set_worker i (Publishing h) s) | _ \<Rightarrow> None)"
| "txmgr_step cfg (PublishOk i) s =
    (case worker_at i s of
       Some (Publishing h) \<Rightarrow> Some (set_worker i (Querying h) (s\<lparr>tm_sendState := ProcessSendError None (tm_sendState s)\<rparr>))
     | _ \<Rightarrow> None)"
| "txmgr_step cfg (PublishError i e) s =
    (case worker_at i s of
       Some (Publishing h) \<Rightarrow>
         Some (set_worker i (if se_Canceled e then Ended else Rejected) (s\<lparr>tm_sendState := ProcessSendError (Some e) (tm_sendState s)\<rparr>))
     | _ \<Rightarrow> None)"
| "txmgr_step cfg (AbortCheck i) s =
    (case worker_at i s of
       Some Rejected \<Rightarrow>
         Some (set_worker i Ended (if ShouldAbortImmediately (tm_sendState s) then s\<lparr>tm_cancelled := True\<rparr> else s))
     | _ \<Rightarrow> None)"
| "txmgr_step cfg (ReceiptFound i txHash r) s =
    (case worker_at i s of
       Some (Querying h) \<Rightarrow>
         if h = txHash then Some (set_worker i (Mined h r) (s\<lparr>tm_sendState := TxMined h (tm_sendState s)\<rparr>)) else None
     | _ \<Rightarrow> None)"
| "txmgr_step cfg (ReceiptError i) s =
    (case worker_at i s of Some (Querying h) \<Rightarrow> Some (set_worker i (Sleeping h) s) | _ \<Rightarrow> None)"
| "txmgr_step cfg (ReceiptNone i txHash) s =
    (case worker_at i s of
       Some (Querying h) \<Rightarrow>
         if h = txHash then Some (set_worker i (Sleeping h) (s\<lparr>tm_sendState := TxNotMined h (tm_sendState s)\<rparr>)) else None
     | _ \<Rightarrow> None)"
| "txmgr_step cfg (TipKnown i tip) s =
    (case worker_at i s of
       Some (Mined h r) \<Rightarrow> Some (set_worker i (if is_confirmed cfg r tip then Confirmed r else Sleeping h) s)
     | _ \<Rightarrow> None)"
| "txmgr_step cfg (TipError i) s =
    (case worker_at i s of Some (Mined h r) \<Rightarrow> Some (set_worker i (Sleeping h) s) | _ \<Rightarrow> None)"
| "txmgr_step cfg (QueryTick i) s =
    (case worker_at i s of Some (Sleeping h) \<Rightarrow> Some (set_worker i (Querying h) s) | _ \<Rightarrow> None)"
| "txmgr_step cfg (WaitCancelled i) s =
    (case worker_at i s of
       Some (Sleeping h) \<Rightarrow> if tm_cancelled s then Some (set_worker i Ended s) else None
     | _ \<Rightarrow> None)"
| "txmgr_step cfg (Report i) s =
    (case worker_at i s of
       Some (Confirmed r) \<Rightarrow>
         Some (set_worker i Ended (if tm_receiptChan s = None then s\<lparr>tm_receiptChan := Some r\<rparr> else s))
     | _ \<Rightarrow> None)"
| "txmgr_step cfg ResubmitTick s =
    (if tm_result s \<noteq> None then None
     else if IsWaitingForConfirmation (tm_sendState s) then Some s
     else Some (s\<lparr>tm_workers := tm_workers s @ [Crafting]\<rparr>))"
| "txmgr_step cfg ContextDone s =
    (if tm_result s \<noteq> None \<or> \<not> tm_cancelled s then None else Some (leave_loop (Inl ''context canceled'') s))"
| "txmgr_step cfg ReceiptRead s =
    (if tm_result s \<noteq> None then None
     else case tm_receiptChan s of
         None \<Rightarrow> None
       | Some r \<Rightarrow> Some (leave_loop (Inr r) (s\<lparr>tm_receiptChan := None\<rparr>)))"
| "txmgr_step cfg CallerCancel s = Some (s\<lparr>tm_cancelled := True\<rparr>)"

inductive txmgr_run :: "txmgr_config \<Rightarrow> label list \<Rightarrow> txmgr \<Rightarrow> bool" for cfg where
  start: "start_send cfg = Some s \<Longrightarrow> txmgr_run cfg [] s"
| step: "txmgr_run cfg tr s \<Longrightarrow> txmgr_step cfg l s = Some s' \<Longrightarrow> txmgr_run cfg (tr @ [l]) s'"

section \<open>What is returned was confirmed\<close>

lemma worker_at_Some: "worker_at i s = Some w \<longleftrightarrow> i < length (tm_workers s) \<and> tm_workers s ! i = w"
  by (auto simp: worker_at_def)

lemma set_worker_frame [simp]:
  "tm_sendState (set_worker i w s) = tm_sendState s" "tm_receiptChan (set_worker i w s) = tm_receiptChan s"
  "tm_cancelled (set_worker i w s) = tm_cancelled s" "tm_result (set_worker i w s) = tm_result s"
  "tm_workers (set_worker i w s) = (tm_workers s)[i := w]"
  by (simp_all add: set_worker_def)

definition confirmed_by :: "txmgr_config \<Rightarrow> label list \<Rightarrow> tx_receipt \<Rightarrow> bool" where
  "confirmed_by cfg tr r \<longleftrightarrow> (\<exists>i h tip. {Crafted i h, PublishOk i, ReceiptFound i h r, TipKnown i tip} \<subseteq> set tr \<and> is_confirmed cfg r tip)"

text \<open>What a goroutine has done by the time it is at a position.\<close>

fun worker_did :: "txmgr_config \<Rightarrow> label list \<Rightarrow> nat \<Rightarrow> worker \<Rightarrow> bool" where
  "worker_did cfg tr i (Publishing h) \<longleftrightarrow> Crafted i h \<in> set tr"
| "worker_did cfg tr i (Querying h) \<longleftrightarrow> {Crafted i h, PublishOk i} \<subseteq> set tr"
| "worker_did cfg tr i (Sleeping h) \<longleftrightarrow> {Crafted i h, PublishOk i} \<subseteq> set tr"
| "worker_did cfg tr i (Mined h r) \<longleftrightarrow> {Crafted i h, PublishOk i, ReceiptFound i h r} \<subseteq> set tr"
| "worker_did cfg tr i (Confirmed r) \<longleftrightarrow> confirmed_by cfg tr r"
| "worker_did cfg tr i w \<longleftrightarrow> True"

definition receipts_confirmed :: "txmgr_config \<Rightarrow> label list \<Rightarrow> txmgr \<Rightarrow> bool" where
  "receipts_confirmed cfg tr s \<longleftrightarrow>
     (\<forall>i < length (tm_workers s). worker_did cfg tr i (tm_workers s ! i))
     \<and> (\<forall>r. tm_receiptChan s = Some r \<or> tm_result s = Some (Inr r) \<longrightarrow> confirmed_by cfg tr r)"

lemma confirmed_by_mono: "confirmed_by cfg tr r \<Longrightarrow> confirmed_by cfg (tr @ [l]) r"
  by (fastforce simp: confirmed_by_def)

lemma worker_did_mono: "worker_did cfg tr i w \<Longrightarrow> worker_did cfg (tr @ [l]) i w"
  by (cases w) (auto intro: confirmed_by_mono)

lemma receipts_confirmed_mono: "receipts_confirmed cfg tr s \<Longrightarrow> receipts_confirmed cfg (tr @ [l]) s"
  by (auto simp: receipts_confirmed_def intro: worker_did_mono confirmed_by_mono)

lemma receipts_confirmed_set:
  assumes "receipts_confirmed cfg tr s" "worker_did cfg tr i w" "tm_workers s' = tm_workers s"
    "\<And>r. tm_receiptChan s' = Some r \<or> tm_result s' = Some (Inr r) \<Longrightarrow> confirmed_by cfg tr r"
  shows "receipts_confirmed cfg tr (set_worker i w s')"
proof -
  have "worker_did cfg tr j ((tm_workers s)[i := w] ! j)" if "j < length (tm_workers s)" for j
    using assms(1,2) that by (cases "j = i") (auto simp: receipts_confirmed_def)
  then show ?thesis using assms(3,4) by (auto simp: receipts_confirmed_def)
qed

lemma receipts_confirmed_worker:
  "receipts_confirmed cfg tr s \<Longrightarrow> worker_at i s = Some w \<Longrightarrow> worker_did cfg tr i w"
  by (auto simp: receipts_confirmed_def worker_at_Some)

lemma receipts_confirmed_step:
  assumes inv: "receipts_confirmed cfg tr s" and step: "txmgr_step cfg l s = Some s'"
  shows "receipts_confirmed cfg (tr @ [l]) s'"
proof -
  note inv' = receipts_confirmed_mono [OF inv, of l]
  note did = receipts_confirmed_worker [OF inv]
  have old: "confirmed_by cfg (tr @ [l]) r" if "tm_receiptChan s = Some r \<or> tm_result s = Some (Inr r)" for r
    using inv' that by (auto simp: receipts_confirmed_def)
  show ?thesis
  proof (cases l)
    case ResubmitTick
    have "worker_did cfg (tr @ [l]) i ((tm_workers s @ [Crafting]) ! i)" if "i < Suc (length (tm_workers s))" for i
      using inv' that by (cases "i = length (tm_workers s)") (auto simp: receipts_confirmed_def nth_append)
    with step ResubmitTick inv' show ?thesis by (auto simp: receipts_confirmed_def split: if_splits)
  next
    case (TipKnown i tip)
    then obtain h r where w: "worker_at i s = Some (Mined h r)"
      "s' = set_worker i (if is_confirmed cfg r tip then Confirmed r else Sleeping h) s"
      using step by (auto split: option.splits worker.splits)
    have "confirmed_by cfg (tr @ [l]) r" if "is_confirmed cfg r tip"
      unfolding confirmed_by_def using did [OF w(1)] that TipKnown by (intro exI [of _ i] exI [of _ h] exI [of _ tip]) auto
    moreover have "worker_did cfg (tr @ [l]) i (Sleeping h)" using did [OF w(1)] by auto
    ultimately show ?thesis unfolding w(2) using inv' old by (intro receipts_confirmed_set) auto
  next
    case (Report i)
    then obtain r where w: "worker_at i s = Some (Confirmed r)"
      "s' = set_worker i Ended (if tm_receiptChan s = None then s\<lparr>tm_receiptChan := Some r\<rparr> else s)"
      using step by (auto split: option.splits worker.splits)
    have "confirmed_by cfg (tr @ [l]) r" using did [OF w(1)] confirmed_by_mono by simp
    then show ?thesis unfolding w(2) using inv' old by (intro receipts_confirmed_set [of _ _ s]) (auto split: if_splits)
  next
    case ContextDone
    with step inv' show ?thesis by (auto simp: receipts_confirmed_def leave_loop_def split: if_splits)
  next
    case ReceiptRead
    with step inv' show ?thesis by (auto simp: receipts_confirmed_def leave_loop_def split: if_splits option.splits)
  next
    case CallerCancel
    with step inv' show ?thesis by (auto simp: receipts_confirmed_def)
  qed (use step inv' old in \<open>auto intro!: receipts_confirmed_set [of _ _ s] dest!: did split: option.splits worker.splits if_splits\<close>)
qed

text \<open>
  C25. A receipt is returned only for a confirmed transaction: whatever the interleaving of the goroutines and the
  answers of the backend, when \<^verbatim>\<open>Send\<close> returns a receipt, a copy of the transaction was crafted and published, the
  backend reported that receipt for its hash, and reported a tip at which the block of the receipt has the
  configured number of confirmations.
\<close>

theorem send_returns_confirmed:
  assumes "txmgr_run cfg tr s" and "tm_result s = Some (Inr r)"
  shows "\<exists>i h tip. {Crafted i h, PublishOk i, ReceiptFound i h r, TipKnown i tip} \<subseteq> set tr
    \<and> rt_BlockNumber r + tc_NumConfirmations cfg \<le> tip + 1"
proof -
  have "receipts_confirmed cfg tr s" using assms(1)
  proof induction
    case (start s)
    then show ?case by (auto simp: start_send_def receipts_confirmed_def split: if_splits)
  next
    case (step tr s l s')
    then show ?case by (blast intro: receipts_confirmed_step)
  qed
  with assms(2) show ?thesis by (auto simp: receipts_confirmed_def confirmed_by_def is_confirmed_def)
qed

section \<open>When sending is given up\<close>

text \<open>The number of nonce-too-low errors in a trace.\<close>

fun nonce_errors :: "label list \<Rightarrow> nat" where
  "nonce_errors [] = 0"
| "nonce_errors (PublishError i e # tr) = (if se_NonceTooLow e then 1 else 0) + nonce_errors tr"
| "nonce_errors (_ # tr) = nonce_errors tr"

fun is_ReceiptFound :: "label \<Rightarrow> bool" where
  "is_ReceiptFound (ReceiptFound i h r) \<longleftrightarrow> True"
| "is_ReceiptFound _ \<longleftrightarrow> False"

lemma nonce_errors_append [simp]: "nonce_errors (tr @ tr') = nonce_errors tr + nonce_errors tr'"
  by (induction tr rule: nonce_errors.induct) simp_all

text \<open>A final stretch of a trace without any mined transaction and with at least \<open>n\<close> such errors.\<close>

definition errors_since_mined :: "label list \<Rightarrow> nat \<Rightarrow> bool" where
  "errors_since_mined tr n \<longleftrightarrow> (\<exists>a b. tr = a @ b \<and> (\<nexists>l. l \<in> set b \<and> is_ReceiptFound l) \<and> n \<le> nonce_errors b)"

definition gave_up :: "txmgr_config \<Rightarrow> label list \<Rightarrow> bool" where
  "gave_up cfg tr \<longleftrightarrow> (\<exists>a i b. tr = a @ AbortCheck i # b
     \<and> errors_since_mined a (unat (tc_SafeAbortNonceTooLowCount cfg)))"

lemma errors_since_mined_0 [simp]: "errors_since_mined tr 0"
  unfolding errors_since_mined_def by (intro exI [of _ tr] exI [of _ "[]"]) simp

lemma errors_since_mined_le: "errors_since_mined tr n \<Longrightarrow> m \<le> n \<Longrightarrow> errors_since_mined tr m"
  unfolding errors_since_mined_def using le_trans by blast

lemma errors_since_mined_snoc:
  assumes "errors_since_mined tr n" "\<not> is_ReceiptFound l"
  shows "errors_since_mined (tr @ [l]) (n + nonce_errors [l])"
proof -
  obtain a b where "tr = a @ b" "\<nexists>l. l \<in> set b \<and> is_ReceiptFound l" "n \<le> nonce_errors b"
    using assms(1) by (auto simp: errors_since_mined_def)
  with assms(2) show ?thesis
    unfolding errors_since_mined_def by (intro exI [of _ a] exI [of _ "b @ [l]"]) auto
qed

lemma gave_up_snoc: "gave_up cfg tr \<Longrightarrow> gave_up cfg (tr @ [l])"
  unfolding gave_up_def by (metis append.assoc append_Cons)

definition counts_errors :: "txmgr_config \<Rightarrow> label list \<Rightarrow> send_state \<Rightarrow> bool" where
  "counts_errors cfg tr st \<longleftrightarrow> ss_safeAbortNonceTooLowCount st = tc_SafeAbortNonceTooLowCount cfg
     \<and> (ss_minedTxs st = [] \<longrightarrow> errors_since_mined tr (unat (ss_nonceTooLowCount st)))"

lemma counts_errors_other:
  "counts_errors cfg tr st \<Longrightarrow> \<not> is_ReceiptFound l \<Longrightarrow> counts_errors cfg (tr @ [l]) st"
  by (auto simp: counts_errors_def dest: errors_since_mined_snoc intro: errors_since_mined_le)

lemma counts_errors_ProcessSendError:
  assumes "counts_errors cfg tr st"
  shows "counts_errors cfg (tr @ [PublishError i e]) (ProcessSendError (Some e) st)"
proof (cases "se_NonceTooLow e")
  case True
  have "unat (ss_nonceTooLowCount st + 1) \<le> unat (ss_nonceTooLowCount st) + 1" by (simp add: unat_word_ariths)
  with True assms errors_since_mined_snoc [of tr _ "PublishError i e"] show ?thesis
    by (auto simp: counts_errors_def ProcessSendError_def intro: errors_since_mined_le)
next
  case False
  then show ?thesis using counts_errors_other [OF assms, of "PublishError i e"] by (simp add: ProcessSendError_def)
qed

lemma counts_errors_TxNotMined:
  "counts_errors cfg tr st \<Longrightarrow> counts_errors cfg (tr @ [ReceiptNone i h]) (TxNotMined h st)"
  using counts_errors_other [of cfg tr st "ReceiptNone i h"]
  by (auto simp: counts_errors_def TxNotMined_def Let_def removeAll_id list_ex_iff)

lemma counts_errors_TxMined: "counts_errors cfg tr st \<Longrightarrow> counts_errors cfg (tr @ [l]) (TxMined h st)"
  by (auto simp: counts_errors_def TxMined_def List.insert_def)

lemma counts_errors_step:
  assumes "counts_errors cfg tr (tm_sendState s)" "txmgr_step cfg l s = Some s'"
  shows "counts_errors cfg (tr @ [l]) (tm_sendState s')"
proof (cases l)
  case (PublishError i e)
  with assms show ?thesis
    by (auto intro!: counts_errors_ProcessSendError split: option.splits worker.splits)
next
  case (ReceiptFound i h r)
  with assms show ?thesis by (auto intro!: counts_errors_TxMined split: option.splits worker.splits if_splits)
next
  case (ReceiptNone i h)
  with assms show ?thesis by (auto intro!: counts_errors_TxNotMined split: option.splits worker.splits if_splits)
qed (use assms in \<open>auto intro!: counts_errors_other simp: ProcessSendError_def leave_loop_def
    split: option.splits worker.splits if_splits\<close>)

definition cancel_justified :: "txmgr_config \<Rightarrow> label list \<Rightarrow> txmgr \<Rightarrow> bool" where
  "cancel_justified cfg tr s \<longleftrightarrow> counts_errors cfg tr (tm_sendState s)
     \<and> (tm_cancelled s \<longrightarrow> CallerCancel \<in> set tr \<or> gave_up cfg tr \<or> (\<exists>r. tm_result s = Some (Inr r)))
     \<and> (\<forall>e. tm_result s = Some (Inl e) \<longrightarrow> CallerCancel \<in> set tr \<or> gave_up cfg tr)"

lemma gave_up_AbortCheck:
  assumes "counts_errors cfg tr st" "ShouldAbortImmediately st"
  shows "gave_up cfg (tr @ [AbortCheck i])"
proof -
  have "errors_since_mined tr (unat (tc_SafeAbortNonceTooLowCount cfg))"
    using assms by (auto simp: counts_errors_def ShouldAbortImmediately_def word_le_nat_alt
        intro: errors_since_mined_le split: if_splits)
  then show ?thesis unfolding gave_up_def by (intro exI [of _ tr] exI [of _ i] exI [of _ "[]"]) simp
qed

lemma cancel_justified_step:
  assumes inv: "cancel_justified cfg tr s" and step: "txmgr_step cfg l s = Some s'"
  shows "cancel_justified cfg (tr @ [l]) s'"
proof -
  have counts: "counts_errors cfg (tr @ [l]) (tm_sendState s')"
    using inv step by (auto simp: cancel_justified_def intro: counts_errors_step)
  have kept: "tm_cancelled s \<Longrightarrow> CallerCancel \<in> set (tr @ [l]) \<or> gave_up cfg (tr @ [l]) \<or> (\<exists>r. tm_result s = Some (Inr r))"
    "tm_result s = Some (Inl e) \<Longrightarrow> CallerCancel \<in> set (tr @ [l]) \<or> gave_up cfg (tr @ [l])" for e
    using inv gave_up_snoc [of cfg tr l] by (auto simp: cancel_justified_def)
  show ?thesis
  proof (cases l)
    case (AbortCheck i)
    have "counts_errors cfg tr (tm_sendState s)" using inv by (simp add: cancel_justified_def)
    from gave_up_AbortCheck [OF this, of i] AbortCheck step counts kept show ?thesis
      by (auto simp: cancel_justified_def split: option.splits worker.splits if_splits)
  qed (use step counts kept in \<open>auto simp: cancel_justified_def leave_loop_def split: option.splits worker.splits if_splits\<close>)
qed

text \<open>
  \<^verbatim>\<open>Send\<close> gives up only with good reason: if it returns an error and the caller did not cancel, then one of its
  goroutines decided to abort at a moment before which the backend had rejected the transaction for a too low nonce
  at least \<^verbatim>\<open>SafeAbortNonceTooLowCount\<close> times, without any copy being reported as mined in the meantime.
\<close>

lemma send_gives_up_after_nonce_errors:
  assumes "txmgr_run cfg tr s" and "tm_result s = Some (Inl e)" and "CallerCancel \<notin> set tr"
  shows "\<exists>a b i c. tr = a @ b @ AbortCheck i # c
    \<and> filter is_ReceiptFound b = [] \<and> unat (tc_SafeAbortNonceTooLowCount cfg) \<le> nonce_errors b"
proof -
  have "cancel_justified cfg tr s" using assms(1)
  proof induction
    case (start s)
    then show ?case
      by (auto simp: start_send_def NewSendState_def cancel_justified_def counts_errors_def split: if_splits)
  next
    case (step tr s l s')
    then show ?case by (blast intro: cancel_justified_step)
  qed
  with assms(2,3) have "gave_up cfg tr" by (auto simp: cancel_justified_def)
  then obtain a b i c where "tr = (a @ b) @ AbortCheck i # c" "\<nexists>l. l \<in> set b \<and> is_ReceiptFound l"
    "unat (tc_SafeAbortNonceTooLowCount cfg) \<le> nonce_errors b"
    unfolding gave_up_def errors_since_mined_def by blast
  then show ?thesis
    by (intro exI [of _ a] exI [of _ b] exI [of _ i] exI [of _ c]) (auto simp: filter_empty_conv)
qed

section \<open>No goroutine is left behind\<close>

text \<open>The moves that end a goroutine once the context is cancelled and the backend refuses its calls.\<close>

fun finish :: "nat \<Rightarrow> worker \<Rightarrow> label list" where
  "finish i Crafting = [CraftFailed i]"
| "finish i (Publishing h) = [PublishError i \<lparr>se_NonceTooLow = False, se_Canceled = True\<rparr>]"
| "finish i Rejected = [AbortCheck i]"
| "finish i (Querying h) = [ReceiptError i, WaitCancelled i]"
| "finish i (Mined h r) = [TipError i, WaitCancelled i]"
| "finish i (Sleeping h) = [WaitCancelled i]"
| "finish i (Confirmed r) = [Report i]"
| "finish i Ended = []"

fun run_labels :: "txmgr_config \<Rightarrow> label list \<Rightarrow> txmgr \<Rightarrow> txmgr option" where
  "run_labels cfg [] s = Some s"
| "run_labels cfg (l # ls) s = (case txmgr_step cfg l s of None \<Rightarrow> None | Some s' \<Rightarrow> run_labels cfg ls s')"

lemma run_labels_append:
  "run_labels cfg (ls @ ls') s = (case run_labels cfg ls s of None \<Rightarrow> None | Some s' \<Rightarrow> run_labels cfg ls' s')"
  by (induction ls arbitrary: s) (auto split: option.splits)

lemma txmgr_run_labels: "txmgr_run cfg tr s \<Longrightarrow> run_labels cfg ls s = Some s' \<Longrightarrow> txmgr_run cfg (tr @ ls) s'"
proof (induction ls arbitrary: tr s)
  case (Cons l ls)
  then obtain s1 where "txmgr_step cfg l s = Some s1" "run_labels cfg ls s1 = Some s'" by (auto split: option.splits)
  with Cons.IH [of "tr @ [l]" s1] Cons.prems(1) show ?case by (auto intro: txmgr_run.step)
qed simp

lemma finish_worker:
  assumes "tm_cancelled s" "i < length (tm_workers s)"
  shows "\<exists>s'. run_labels cfg (finish i (tm_workers s ! i)) s = Some s' \<and> tm_workers s' = (tm_workers s)[i := Ended]
    \<and> tm_cancelled s' \<and> tm_result s' = tm_result s"
  using assms by (cases "tm_workers s ! i") (simp_all add: worker_at_def set_worker_def list_update_same_conv [THEN iffD2])

lemma finish_length: "length (finish i w) \<le> 2"
  by (cases w) simp_all

lemma finish_workers:
  assumes "tm_cancelled s" "n \<le> length (tm_workers s)"
  shows "\<exists>ls s'. run_labels cfg ls s = Some s' \<and> length ls \<le> 2 * n \<and> tm_cancelled s' \<and> tm_result s' = tm_result s
    \<and> tm_workers s' = replicate n Ended @ drop n (tm_workers s)"
  using assms(2)
proof (induction n)
  case (Suc n)
  then obtain ls s' where s': "run_labels cfg ls s = Some s'" "length ls \<le> 2 * n" "tm_cancelled s'" "tm_result s' = tm_result s"
    "tm_workers s' = replicate n Ended @ drop n (tm_workers s)" by auto
  obtain s'' where s'': "run_labels cfg (finish n (tm_workers s' ! n)) s' = Some s''"
    "tm_workers s'' = (tm_workers s')[n := Ended]" "tm_cancelled s''" "tm_result s'' = tm_result s'"
    using finish_worker [OF s'(3), of n] Suc.prems s'(5) by auto
  have "(tm_workers s')[n := Ended] = replicate (Suc n) Ended @ drop (Suc n) (tm_workers s)"
    using Suc.prems s'(5) by (simp add: list_update_append Cons_nth_drop_Suc [symmetric]
        replicate_append_same [symmetric])
  then show ?case
    using s' s'' finish_length [of n "tm_workers s' ! n"]
    by (intro exI [of _ "ls @ finish n (tm_workers s' ! n)"] exI [of _ s'']) (simp add: run_labels_append)
qed (use assms(1) in \<open>auto intro!: exI [of _ "[]"]\<close>)

text \<open>
  \<^verbatim>\<open>Send\<close> can always finish: once its loop has ended, with a receipt or an error, the goroutines it waits for can all
  be ended by at most two further steps each, in which the calls to the backend return; none of them blocks on the
  channel, no new one is started, and the result stays as it is.
\<close>

lemma send_can_finish:
  assumes "txmgr_run cfg tr s" and "tm_result s = Some res"
  shows "\<exists>ls s'. txmgr_run cfg (tr @ ls) s' \<and> length ls \<le> 2 * length (tm_workers s)
    \<and> tm_workers s' = replicate (length (tm_workers s)) Ended \<and> tm_result s' = Some res"
proof -
  have "tm_result s \<noteq> None \<longrightarrow> tm_cancelled s" using assms(1)
  proof induction
    case (start s)
    then show ?case by (auto simp: start_send_def split: if_splits)
  next
    case (step tr s l s')
    then show ?case by (cases l) (auto simp: leave_loop_def split: option.splits worker.splits if_splits)
  qed
  then obtain ls s' where "run_labels cfg ls s = Some s'" "length ls \<le> 2 * length (tm_workers s)" "tm_result s' = Some res"
    "tm_workers s' = replicate (length (tm_workers s)) Ended"
    using finish_workers [of s "length (tm_workers s)" cfg] assms(2) by auto
  then show ?thesis using txmgr_run_labels [OF assms(1)] by blast
qed

section \<open>Concrete runs\<close>

definition sample_txmgr :: txmgr_config where
  "sample_txmgr = \<lparr>tc_NumConfirmations = 2, tc_SafeAbortNonceTooLowCount = 2\<rparr>"

definition sample_txmgr_start :: txmgr where
  "sample_txmgr_start = \<lparr>tm_sendState = \<lparr>ss_minedTxs = [], ss_nonceTooLowCount = 0, ss_safeAbortNonceTooLowCount = 2\<rparr>,
     tm_workers = [Crafting], tm_receiptChan = None, tm_cancelled = False, tm_result = None\<rparr>"

definition sample_rt :: tx_receipt where
  "sample_rt = \<lparr>rt_TxHash = 9, rt_BlockNumber = 100, rt_Failed = False\<rparr>"

lemma sample_txmgr_runs:
  "txmgr_run sample_txmgr [] sample_txmgr_start"
  by (rule txmgr_run.start) (simp add: start_send_def NewSendState_def sample_txmgr_def sample_txmgr_start_def)

definition sample_success :: "label list" where
  "sample_success = [Crafted 0 9, PublishOk 0, ReceiptNone 0 9, ResubmitTick, QueryTick 0, ReceiptFound 0 9 sample_rt,
     TipKnown 0 100, QueryTick 0, ReceiptFound 0 9 sample_rt, ResubmitTick, TipKnown 0 101, Report 0, ReceiptRead]"

lemmas sample_run_simps = sample_txmgr_start_def sample_txmgr_def sample_rt_def worker_at_def set_worker_def
  ProcessSendError_def TxMined_def TxNotMined_def ShouldAbortImmediately_def IsWaitingForConfirmation_def
  is_confirmed_def leave_loop_def

lemma sample_success_run: "\<exists>s. run_labels sample_txmgr sample_success sample_txmgr_start = Some s \<and> tm_result s = Some (Inr sample_rt)"
  by (simp add: sample_success_def sample_run_simps)

theorem send_returns_confirmed_witness:
  "\<exists>s i h tip. txmgr_run sample_txmgr ([] @ sample_success) s \<and> tm_result s = Some (Inr sample_rt)
    \<and> {Crafted i h, PublishOk i, ReceiptFound i h sample_rt, TipKnown i tip} \<subseteq> set ([] @ sample_success)
    \<and> 100 + 2 \<le> tip + 1"
proof -
  obtain s where s: "run_labels sample_txmgr sample_success sample_txmgr_start = Some s" "tm_result s = Some (Inr sample_rt)"
    using sample_success_run by blast
  note run = txmgr_run_labels [OF sample_txmgr_runs s(1)]
  from send_returns_confirmed [OF run s(2)] run s(2) show ?thesis
    by (simp add: sample_rt_def sample_txmgr_def) blast
qed

end
