(* ===== verification/Proposer.thy ===== *)
theory Proposer
  imports Output_Oracle Batcher TxMgr
begin

text \<open>
  The output proposer: the service loop of \<^verbatim>\<open>op-proposer/service.go\<close> with the driver of
  \<^verbatim>\<open>op-proposer/drivers/l2output/driver.go\<close>, and the rollup node's side of it, the RPC handler
  \<^verbatim>\<open>OutputAtBlock\<close> of \<^verbatim>\<open>op-node/node/api.go\<close> with the verification of account proofs
  (\<^verbatim>\<open>op-node/eth/account_proof.go\<close>) and the output root (\<^verbatim>\<open>op-node/rollup/output_root.go\<close>).

  The Merkle trie, the key-value store below it and the RLP encoder are go-ethereum's and are parameters, and so
  are the answers of the L1 node, the L2 node and the contract bindings.
\<close>

section \<open>The output root\<close>

definition ComputeL2OutputRoot :: "keccak \<Rightarrow> hash \<Rightarrow> hash \<Rightarrow> hash \<Rightarrow> hash \<Rightarrow> hash" where
  "ComputeL2OutputRoot Keccak256 l2OutputRootVersion blockHash blockRoot storageRoot =
     Keccak256 (word_bytes l2OutputRootVersion @ word_bytes blockRoot @ word_bytes storageRoot @ word_bytes blockHash)"

section \<open>Account proofs\<close>

record account_result =
  ar_AccountProof :: "bytes list"
  ar_Address :: address
  ar_Balance :: "nat option"
  ar_CodeHash :: hash
  ar_Nonce :: u64
  ar_StorageHash :: hash

text \<open>\<^verbatim>\<open>big.Int.Bytes\<close>: big endian, without leading zeros.\<close>

fun big_bytes :: "nat \<Rightarrow> bytes" where
  "big_bytes n = (if n = 0 then [] else big_bytes (n div 256) @ [word_of_nat (n mod 256)])"

declare big_bytes.simps [simp del]

record ('d, 't) trie_lib =
  rlp_account :: "u64 \<Rightarrow> bytes \<Rightarrow> hash \<Rightarrow> hash \<Rightarrow> cause + bytes"
  db_New :: 'd
  db_Put :: "bytes \<Rightarrow> bytes \<Rightarrow> 'd \<Rightarrow> cause + 'd"
  trie_New :: "hash \<Rightarrow> 'd \<Rightarrow> cause + 't"
  trie_TryGet :: "'t \<Rightarrow> bytes \<Rightarrow> cause + bytes"

text \<open>The loop that stores every node of the proof under its hash.\<close>

fun load_nodes :: "('d, 't) trie_lib \<Rightarrow> keccak \<Rightarrow> bytes list \<Rightarrow> 'd \<Rightarrow> cause + 'd" where
  "load_nodes L Keccak256 [] db = Inr db"
| "load_nodes L Keccak256 (encodedNode # nodes) db =
    (case db_Put L (word_bytes (Keccak256 encodedNode)) encodedNode db of
       Inl e \<Rightarrow> Inl ''failed to load proof value into mem db''
     | Inr db \<Rightarrow> load_nodes L Keccak256 nodes db)"

text \<open>A nil balance panics.\<close>

definition AccountResult_Verify :: "('d, 't) trie_lib \<Rightarrow> keccak \<Rightarrow> hash \<Rightarrow> account_result \<Rightarrow> derr option" where
  "AccountResult_Verify L Keccak256 stateRoot res =
    (case ar_Balance res of None \<Rightarrow> Some (Panic ''nil balance'') | Some balance \<Rightarrow>
     case rlp_account L (ar_Nonce res) (big_bytes balance) (ar_StorageHash res) (ar_CodeHash res) of
       Inl e \<Rightarrow> Some (Plain ''failed to encode account from retrieved values'')
     | Inr accountClaimedValue \<Rightarrow>
     case load_nodes L Keccak256 (ar_AccountProof res) (db_New L) of Inl e \<Rightarrow> Some (Plain e) | Inr db \<Rightarrow>
     let key = Keccak256 (word_bytes (ar_Address res)) in
     case trie_New L stateRoot db of
       Inl e \<Rightarrow> Some (Plain ''failed to load db wrapper around kv store'')
     | Inr proofTrie \<Rightarrow>
     case trie_TryGet L proofTrie (word_bytes key) of
       Inl e \<Rightarrow> Some (Plain ''failed to retrieve account value'')
     | Inr accountProofValue \<Rightarrow>
     if accountClaimedValue \<noteq> accountProofValue
     then Some (Plain ''account proof does not match provided deserialized values'')
     else None)"

section \<open>The RPC handler of the rollup node\<close>

definition NotFound :: cause where "NotFound = ''not found''"

definition L2ToL1MessagePasserAddr :: address where
  "L2ToL1MessagePasserAddr = 0x4200000000000000000000000000000000000016"

text \<open>What the L2 node answers; \<open>None\<close> is a null answer.\<close>

record l2_node =
  ln_InfoByRpcNumber :: "int \<Rightarrow> cause + block_info option"
  ln_eth_getProof :: "address \<Rightarrow> int \<Rightarrow> cause + account_result option"

definition EthClient_GetProof :: "l2_node \<Rightarrow> address \<Rightarrow> int \<Rightarrow> cause + account_result option" where
  "EthClient_GetProof N address blockTag =
    (case ln_eth_getProof N address blockTag of
       Inl e \<Rightarrow> Inl e
     | Inr None \<Rightarrow> Inl NotFound
     | Inr (Some getProofResponse) \<Rightarrow> Inr (Some getProofResponse))"

definition OutputAtBlock :: "('d, 't) trie_lib \<Rightarrow> keccak \<Rightarrow> l2_node \<Rightarrow> int \<Rightarrow> derr + hash list" where
  "OutputAtBlock L Keccak256 N number =
    (case ln_InfoByRpcNumber N number of
       Inl e \<Rightarrow> Inl (Plain e)
     | Inr None \<Rightarrow> Inl (Plain NotFound)
     | Inr (Some head) \<Rightarrow>
     case EthClient_GetProof N L2ToL1MessagePasserAddr number of
       Inl e \<Rightarrow> Inl (Plain e)
     | Inr None \<Rightarrow> Inl (Plain NotFound)
     | Inr (Some proof_) \<Rightarrow>
     case AccountResult_Verify L Keccak256 (bi_Root head) proof_ of
       Some (Panic e) \<Rightarrow> Inl (Panic e)
     | Some _ \<Rightarrow> Inl (Plain ''invalid withdrawal root hash'')
     | None \<Rightarrow>
         let l2OutputRootVersion = 0;
             l2OutputRoot = ComputeL2OutputRoot Keccak256 l2OutputRootVersion (bi_Hash head) (bi_Root head) (ar_StorageHash proof_)
         in Inr [l2OutputRootVersion, l2OutputRoot])"

section \<open>The driver\<close>

definition supportedL2OutputVersion :: hash where "supportedL2OutputVersion = 0"

record l2_header =
  hd_Number :: nat
  hd_Hash :: hash

text \<open>The arguments of the contract call a transaction carries as its data.\<close>

record proposal_args =
  pa_outputRoot :: hash
  pa_l2BlockNumber :: int
  pa_l1Blockhash :: hash
  pa_l1BlockNumber :: nat

record proposal_tx =
  pt_Nonce :: u64
  pt_Data :: proposal_args

text \<open>
  The environment of one poll. \<open>pe_Transact\<close> builds and signs a transaction with the nonce and the arguments given,
  choosing the gas prices; the first argument numbers the attempts, since the network conditions change.
\<close>

record proposer_env =
  pe_LatestBlockNumber :: "cause + nat"
  pe_NextBlockNumber :: "cause + nat"
  pe_SyncStatus :: "cause + sync_status"
  pe_L2HeaderByNumber :: "int \<Rightarrow> cause + l2_header"
  pe_L1Header :: "cause + l2_header"
  pe_OutputAtBlock :: "int \<Rightarrow> cause + hash list"
  pe_NonceAt :: "cause + u64"
  pe_Transact :: "nat \<Rightarrow> u64 \<Rightarrow> proposal_args \<Rightarrow> cause + proposal_tx"
  pe_Send :: "(nat \<Rightarrow> cause + proposal_tx) \<Rightarrow> cause + tx_receipt"

definition GetBlockRange :: "proposer_env \<Rightarrow> cause + int \<times> int" where
  "GetBlockRange E =
    (case pe_LatestBlockNumber E of Inl e \<Rightarrow> Inl e | Inr latest \<Rightarrow>
     let start = int latest + 1 in
     case pe_NextBlockNumber E of Inl e \<Rightarrow> Inl e | Inr nextNumber \<Rightarrow>
     case pe_SyncStatus E of Inl e \<Rightarrow> Inl e | Inr status \<Rightarrow>
     case pe_L2HeaderByNumber E (uint (l2_Number (ss_SafeL2 status))) of Inl e \<Rightarrow> Inl e | Inr latestHeader \<Rightarrow>
     let currentBlockNumber = sint (word_of_nat (hd_Number latestHeader) :: u64) in
     if currentBlockNumber < int nextNumber then Inr (start, start)
     else Inr (start, int nextNumber + 1))"

definition outputRootAtBlock :: "proposer_env \<Rightarrow> int \<Rightarrow> cause + hash" where
  "outputRootAtBlock E blockNum =
    (case pe_OutputAtBlock E blockNum of
       Inl e \<Rightarrow> Inl e
     | Inr output \<Rightarrow>
         if length output \<noteq> 2 then Inl ''invalid outputAtBlock response''
         else if output ! 0 \<noteq> supportedL2OutputVersion then Inl ''unsupported l2 output version''
         else Inr (output ! 1))"

definition l2output_CraftTx :: "proposer_env \<Rightarrow> int \<Rightarrow> int \<Rightarrow> u64 \<Rightarrow> cause + proposal_tx" where
  "l2output_CraftTx E start stop nonce =
    (let nextCheckpointBlock = stop - 1 in
     case outputRootAtBlock E nextCheckpointBlock of Inl e \<Rightarrow> Inl e | Inr l2OutputRoot \<Rightarrow>
     case pe_L1Header E of Inl e \<Rightarrow> Inl ''error resolving checkpoint block'' | Inr l1Header \<Rightarrow>
     case pe_L2HeaderByNumber E nextCheckpointBlock of Inl e \<Rightarrow> Inl ''error resolving checkpoint block'' | Inr l2Header \<Rightarrow>
     if int (hd_Number l2Header) \<noteq> nextCheckpointBlock then Inl ''invalid blockNumber''
     else pe_Transact E 0 nonce
       \<lparr>pa_outputRoot = l2OutputRoot, pa_l2BlockNumber = nextCheckpointBlock,
        pa_l1Blockhash = hd_Hash l1Header, pa_l1BlockNumber = hd_Number l1Header\<rparr>)"

text \<open>The data of the transaction is signed again with the same nonce.\<close>

definition l2output_UpdateGasPrice :: "proposer_env \<Rightarrow> nat \<Rightarrow> proposal_tx \<Rightarrow> cause + proposal_tx" where
  "l2output_UpdateGasPrice E attempt tx = pe_Transact E attempt (pt_Nonce tx) (pt_Data tx)"

section \<open>The service loop\<close>

datatype poll_outcome =
    NoRange cause
  | NoUpdates
  | NoNonce cause
  | NotCrafted cause
  | NotPublished proposal_tx cause
  | Published proposal_tx tx_receipt

text \<open>What one tick of the loop does. \<open>NotPublished\<close> and \<open>Published\<close> name the transaction that was crafted.\<close>

definition poll :: "proposer_env \<Rightarrow> poll_outcome" where
  "poll E =
    (case GetBlockRange E of Inl e \<Rightarrow> NoRange e | Inr (start, stop) \<Rightarrow>
     if start = stop then NoUpdates
     else case pe_NonceAt E of Inl e \<Rightarrow> NoNonce e | Inr nonce \<Rightarrow>
     case l2output_CraftTx E start stop nonce of Inl e \<Rightarrow> NotCrafted e | Inr tx \<Rightarrow>
     case pe_Send E (\<lambda>attempt. l2output_UpdateGasPrice E (Suc attempt) tx) of
       Inl e \<Rightarrow> NotPublished tx e
     | Inr receipt \<Rightarrow> Published tx receipt)"

section \<open>The output root commits to the withdrawals\<close>

record account =
  ac_Nonce :: u64
  ac_Balance :: nat
  ac_Root :: hash
  ac_CodeHash :: hash

definition account_rlp :: "('d, 't) trie_lib \<Rightarrow> account \<Rightarrow> cause + bytes" where
  "account_rlp L ac = rlp_account L (ac_Nonce ac) (big_bytes (ac_Balance ac)) (ac_Root ac) (ac_CodeHash ac)"

text \<open>The encoding of an account is not empty and determines its storage root.\<close>

definition rlp_laws :: "('d, 't) trie_lib \<Rightarrow> bool" where
  "rlp_laws L \<longleftrightarrow>
     (\<forall>n b s c v. rlp_account L n b s c = Inr v \<longrightarrow> v \<noteq> [])
     \<and> (\<forall>n b s c n' b' s' c' v. rlp_account L n b s c = Inr v \<and> rlp_account L n' b' s' c' = Inr v \<longrightarrow> s = s')"

text \<open>
  The state root commits to the accounts: in a store that holds nodes under their hashes, a lookup from that root
  that succeeds gives the encoding of the account, or nothing when there is no such account.
\<close>

definition trie_commits :: "('d, 't) trie_lib \<Rightarrow> keccak \<Rightarrow> (address \<Rightarrow> account option) \<Rightarrow> hash \<Rightarrow> bool" where
  "trie_commits L Keccak256 accounts stateRoot \<longleftrightarrow>
     (\<forall>nodes db t a v. load_nodes L Keccak256 nodes (db_New L) = Inr db \<and> trie_New L stateRoot db = Inr t
        \<and> trie_TryGet L t (word_bytes (Keccak256 (word_bytes a))) = Inr v
        \<longrightarrow> (case accounts a of None \<Rightarrow> v = [] | Some ac \<Rightarrow> account_rlp L ac = Inr v))"

lemma Verify_ok:
  assumes "AccountResult_Verify L kec stateRoot res = None"
  obtains balance v db t where "ar_Balance res = Some balance"
    "rlp_account L (ar_Nonce res) (big_bytes balance) (ar_StorageHash res) (ar_CodeHash res) = Inr v"
    "load_nodes L kec (ar_AccountProof res) (db_New L) = Inr db" "trie_New L stateRoot db = Inr t"
    "trie_TryGet L t (word_bytes (kec (word_bytes (ar_Address res)))) = Inr v"
  using assms by (auto simp: AccountResult_Verify_def Let_def split: option.splits sum.splits if_splits)

lemma Verify_storage:
  assumes "rlp_laws L" "trie_commits L kec accounts stateRoot" "AccountResult_Verify L kec stateRoot res = None"
  shows "\<exists>ac. accounts (ar_Address res) = Some ac \<and> ac_Root ac = ar_StorageHash res"
  using assms(3)
proof (rule Verify_ok)
  fix balance v db t
  assume claimed: "rlp_account L (ar_Nonce res) (big_bytes balance) (ar_StorageHash res) (ar_CodeHash res) = Inr v"
    and "load_nodes L kec (ar_AccountProof res) (db_New L) = Inr db" "trie_New L stateRoot db = Inr t"
    "trie_TryGet L t (word_bytes (kec (word_bytes (ar_Address res)))) = Inr v"
  then have "case accounts (ar_Address res) of None \<Rightarrow> v = [] | Some ac \<Rightarrow> account_rlp L ac = Inr v"
    using assms(2) unfolding trie_commits_def by blast
  moreover have "v \<noteq> []" using assms(1) claimed unfolding rlp_laws_def by blast
  ultimately obtain ac where ac: "accounts (ar_Address res) = Some ac" "account_rlp L ac = Inr v"
    by (auto split: option.splits)
  have "ac_Root ac = ar_StorageHash res"
    using assms(1) claimed ac(2) unfolding rlp_laws_def account_rlp_def by blast
  with ac(1) show ?thesis by blast
qed

lemma GetProof_Inr [simp]:
  "EthClient_GetProof N a n = Inr r \<longleftrightarrow> ln_eth_getProof N a n = Inr r \<and> r \<noteq> None"
  by (auto simp: EthClient_GetProof_def split: sum.splits option.splits)

lemma OutputAtBlock_ok:
  assumes "OutputAtBlock L kec N n = Inr out"
  obtains head res where "ln_InfoByRpcNumber N n = Inr (Some head)"
    "ln_eth_getProof N L2ToL1MessagePasserAddr n = Inr (Some res)"
    "AccountResult_Verify L kec (bi_Root head) res = None"
    "out = [0, ComputeL2OutputRoot kec 0 (bi_Hash head) (bi_Root head) (ar_StorageHash res)]"
  using assms by (auto simp: OutputAtBlock_def Let_def split: option.splits sum.splits derr.splits)

lemma OutputAtBlock_storage:
  assumes "rlp_laws L" "trie_commits L kec accounts (bi_Root head)" "ln_InfoByRpcNumber N n = Inr (Some head)"
    "OutputAtBlock L kec N n = Inr out"
  shows "\<exists>res ac. ln_eth_getProof N L2ToL1MessagePasserAddr n = Inr (Some res)
    \<and> accounts (ar_Address res) = Some ac
    \<and> out = [0, ComputeL2OutputRoot kec 0 (bi_Hash head) (bi_Root head) (ac_Root ac)]"
  using assms(4)
proof (rule OutputAtBlock_ok)
  fix head' res
  assume *: "ln_InfoByRpcNumber N n = Inr (Some head')" "ln_eth_getProof N L2ToL1MessagePasserAddr n = Inr (Some res)"
    "AccountResult_Verify L kec (bi_Root head') res = None"
    "out = [0, ComputeL2OutputRoot kec 0 (bi_Hash head') (bi_Root head') (ar_StorageHash res)]"
  moreover from this have "head' = head" using assms(3) by simp
  ultimately show ?thesis using Verify_storage [OF assms(1,2), of res] by auto
qed

text \<open>
  The output root is the one of the chain: when the state root of the block commits to its accounts, every output
  \<^verbatim>\<open>OutputAtBlock\<close> gives has version zero and hashes the block's hash, its state root and the actual storage root of the
  account the proof is for, however the L2 node made up the proof. Nothing checks that this account is the one asked for.
\<close>

lemma OutputAtBlock_commits:
  assumes "rlp_laws L" and "trie_commits L kec accounts (bi_Root head)"
    and "ln_InfoByRpcNumber N n = Inr (Some head)" and "OutputAtBlock L kec N n = Inr out"
  shows "\<exists>res ac. ln_eth_getProof N L2ToL1MessagePasserAddr n = Inr (Some res)
    \<and> accounts (ar_Address res) = Some ac
    \<and> out = [0, kec (word_bytes (0 :: hash) @ word_bytes (bi_Root head) @ word_bytes (ac_Root ac) @ word_bytes (bi_Hash head))]"
  using OutputAtBlock_storage [OF assms] by (simp add: ComputeL2OutputRoot_def)

text \<open>
  A library with a trie of a single node, which is the encoding of the one account that all addresses have, and a hash
  that tells this node from all other data.
\<close>

definition sample_account :: account where
  "sample_account = \<lparr>ac_Nonce = 0, ac_Balance = 0, ac_Root = 9, ac_CodeHash = 8\<rparr>"

definition sample_node :: bytes where
  "sample_node = word_bytes (0 :: u64) @ word_bytes (9 :: hash) @ word_bytes (8 :: hash)"

definition sample_keccak :: keccak where
  "sample_keccak b = (if b = sample_node then 1 else 2)"

definition sample_trie :: "((bytes \<times> bytes) list, bytes) trie_lib" where
  "sample_trie =
    \<lparr>rlp_account = (\<lambda>n b s c. Inr (word_bytes n @ word_bytes s @ word_bytes c @ b)),
     db_New = [],
     db_Put = (\<lambda>k v db. Inr ((k, v) # db)),
     trie_New = (\<lambda>root db. case map_of db (word_bytes root) of None \<Rightarrow> Inl ''missing node'' | Some v \<Rightarrow> Inr v),
     trie_TryGet = (\<lambda>t k. Inr t)\<rparr>"

definition sample_head :: block_info where
  "sample_head = \<lparr>bi_Hash = 5, bi_ParentHash = 4, bi_Coinbase = 0, bi_Root = 1, bi_NumberU64 = 120, bi_Time = 540,
     bi_MixDigest = 0, bi_BaseFee = 7, bi_ReceiptHash = 3\<rparr>"

definition sample_result :: account_result where
  "sample_result = \<lparr>ar_AccountProof = [sample_node], ar_Address = L2ToL1MessagePasserAddr, ar_Balance = Some 0,
     ar_CodeHash = 8, ar_Nonce = 0, ar_StorageHash = 9\<rparr>"

definition sample_l2_node :: l2_node where
  "sample_l2_node = \<lparr>ln_InfoByRpcNumber = (\<lambda>n. Inr (Some sample_head)), ln_eth_getProof = (\<lambda>a n. Inr (Some sample_result))\<rparr>"

lemma word_bytes_u64_not_Nil: "word_bytes (n :: u64) \<noteq> []"
proof
  assume "word_bytes n = []"
  then have "length (word_bytes n) = 0" by (simp only: list.size)
  then show False by simp
qed

lemma word_bytes_hash_inj: "word_bytes (h :: hash) = word_bytes h' \<Longrightarrow> h = h'"
  by (simp add: word_bytes_inject)

lemma sample_rlp_laws: "rlp_laws sample_trie"
proof -
  have "s = s'" if "word_bytes (n :: u64) @ word_bytes (s :: hash) @ word_bytes (c :: hash) @ b
      = word_bytes (n' :: u64) @ word_bytes (s' :: hash) @ word_bytes (c' :: hash) @ b'" for n n' s s' c c' b b'
  proof -
    have "take 32 (drop 8 (word_bytes n @ word_bytes s @ word_bytes c @ b))
      = take 32 (drop 8 (word_bytes n' @ word_bytes s' @ word_bytes c' @ b'))"
      using that by (rule arg_cong)
    then show ?thesis by (simp add: word_bytes_inject)
  qed
  then show ?thesis
    unfolding rlp_laws_def by (auto simp: sample_trie_def word_bytes_u64_not_Nil)
qed

lemma sample_load:
  assumes "load_nodes sample_trie kec nodes db = Inr db'" "\<forall>(k, v) \<in> set db. k = word_bytes (kec v)"
  shows "\<forall>(k, v) \<in> set db'. k = word_bytes (kec v)"
  using assms
proof (induction nodes arbitrary: db)
  case (Cons node nodes)
  have "load_nodes sample_trie kec nodes ((word_bytes (kec node), node) # db) = Inr db'"
    using Cons.prems(1) by (simp add: sample_trie_def)
  then show ?case by (rule Cons.IH) (use Cons.prems(2) in simp)
qed simp

lemma sample_commits: "trie_commits sample_trie sample_keccak (\<lambda>a. Some sample_account) (bi_Root sample_head)"
proof -
  have "t = sample_node" if "load_nodes sample_trie sample_keccak nodes [] = Inr db"
    "map_of db (word_bytes (1 :: hash)) = Some t" for nodes db t
  proof -
    have "word_bytes (1 :: hash) = word_bytes (sample_keccak t)"
      using sample_load [OF that(1)] map_of_SomeD [OF that(2)] by fastforce
    then have "1 = sample_keccak t" by (rule word_bytes_hash_inj)
    then show ?thesis by (simp add: sample_keccak_def split: if_splits)
  qed
  then show ?thesis
    unfolding trie_commits_def
    by (auto simp: sample_head_def account_rlp_def sample_account_def sample_node_def big_bytes.simps [of 0]
        sample_trie_def split: option.splits)
qed

lemma sample_Verify: "AccountResult_Verify sample_trie sample_keccak 1 sample_result = None"
  by (simp add: AccountResult_Verify_def sample_result_def sample_trie_def big_bytes.simps [of 0] sample_keccak_def
      sample_node_def)

lemma sample_OutputAtBlock:
  "OutputAtBlock sample_trie sample_keccak sample_l2_node n = Inr [0, ComputeL2OutputRoot sample_keccak 0 5 1 9]"
  using sample_Verify
  by (simp add: OutputAtBlock_def EthClient_GetProof_def sample_l2_node_def sample_head_def sample_result_def)

section \<open>What is proposed is what the contract expects\<close>

fun poll_tx :: "poll_outcome \<Rightarrow> proposal_tx option" where
  "poll_tx (NotPublished tx e) = Some tx"
| "poll_tx (Published tx r) = Some tx"
| "poll_tx _ = None"

text \<open>A transaction carries the nonce and the data it was built for.\<close>

definition transactor_laws :: "proposer_env \<Rightarrow> bool" where
  "transactor_laws E \<longleftrightarrow>
     (\<forall>i nonce args tx. pe_Transact E i nonce args = Inr tx \<longrightarrow> pt_Nonce tx = nonce \<and> pt_Data tx = args)"

text \<open>The L2 node answers with the header of the number asked for.\<close>

definition headers_by_number :: "proposer_env \<Rightarrow> bool" where
  "headers_by_number E \<longleftrightarrow> (\<forall>n h. pe_L2HeaderByNumber E n = Inr h \<longrightarrow> int (hd_Number h) = n)"

lemma sint_le_uint: "sint (w :: u64) \<le> uint w"
  by (simp add: sint_uint signed_take_bit_int_less_eq_self_iff order_trans [OF _ uint_ge_0])

lemma GetBlockRange_ok:
  assumes "GetBlockRange E = Inr (start, stop)" "start \<noteq> stop" "headers_by_number E"
  obtains n status where "pe_NextBlockNumber E = Inr n" "pe_SyncStatus E = Inr status" "stop = int n + 1"
    "n \<le> unat (l2_Number (ss_SafeL2 status))"
proof -
  from assms(1,2) obtain n status h where
    *: "pe_NextBlockNumber E = Inr n" "pe_SyncStatus E = Inr status" "stop = int n + 1"
    "pe_L2HeaderByNumber E (uint (l2_Number (ss_SafeL2 status))) = Inr h"
    "int n \<le> sint (word_of_nat (hd_Number h) :: u64)"
    by (auto simp: GetBlockRange_def Let_def not_less split: sum.splits if_splits)
  have "int (hd_Number h) = uint (l2_Number (ss_SafeL2 status))" using assms(3) *(4) by (simp add: headers_by_number_def)
  then have "word_of_nat (hd_Number h) = l2_Number (ss_SafeL2 status)"
    by (metis word_of_int_uint of_int_of_nat_eq)
  with *(5) have "int n \<le> sint (l2_Number (ss_SafeL2 status))" by simp
  also note sint_le_uint
  finally have "n \<le> unat (l2_Number (ss_SafeL2 status))" by (simp only: uint_nat of_nat_le_iff)
  with * show thesis by (intro that)
qed

lemma CraftTx_ok:
  assumes "l2output_CraftTx E start stop nonce = Inr tx" "transactor_laws E"
  obtains l1 where "pe_OutputAtBlock E (stop - 1) = Inr [0, pa_outputRoot (pt_Data tx)]"
    "pa_l2BlockNumber (pt_Data tx) = stop - 1" "pe_L1Header E = Inr l1"
    "pa_l1Blockhash (pt_Data tx) = hd_Hash l1" "pa_l1BlockNumber (pt_Data tx) = hd_Number l1"
proof -
  from assms(1) obtain root l1 where
    *: "outputRootAtBlock E (stop - 1) = Inr root" "pe_L1Header E = Inr l1"
      "pe_Transact E 0 nonce \<lparr>pa_outputRoot = root, pa_l2BlockNumber = stop - 1,
         pa_l1Blockhash = hd_Hash l1, pa_l1BlockNumber = hd_Number l1\<rparr> = Inr tx"
    by (auto simp: l2output_CraftTx_def Let_def split: sum.splits if_splits)
  from *(1) have "pe_OutputAtBlock E (stop - 1) = Inr [0, root]"
    by (auto simp: outputRootAtBlock_def supportedL2OutputVersion_def length_Suc_conv numeral_2_eq_2
        split: sum.splits if_splits)
  moreover have "pt_Data tx = \<lparr>pa_outputRoot = root, pa_l2BlockNumber = stop - 1,
      pa_l1Blockhash = hd_Hash l1, pa_l1BlockNumber = hd_Number l1\<rparr>"
    using *(3) assms(2) unfolding transactor_laws_def by blast
  ultimately show thesis using *(2) by (intro that) simp_all
qed

lemma poll_ok:
  assumes "poll_tx (poll E) = Some tx"
  obtains start stop nonce where "GetBlockRange E = Inr (start, stop)" "start \<noteq> stop"
    "l2output_CraftTx E start stop nonce = Inr tx"
  using assms by (auto simp: poll_def split: sum.splits if_splits)

lemma poll_proposes:
  assumes "poll_tx (poll E) = Some tx" "transactor_laws E" "headers_by_number E"
  obtains n status where "pe_NextBlockNumber E = Inr n" "pe_SyncStatus E = Inr status"
    "n \<le> unat (l2_Number (ss_SafeL2 status))" "pa_l2BlockNumber (pt_Data tx) = int n"
    "pe_OutputAtBlock E (int n) = Inr [0, pa_outputRoot (pt_Data tx)]"
  using assms(1)
proof (rule poll_ok)
  fix start stop nonce
  assume range: "GetBlockRange E = Inr (start, stop)" "start \<noteq> stop" and craft: "l2output_CraftTx E start stop nonce = Inr tx"
  show thesis
    by (rule GetBlockRange_ok [OF range assms(3)], rule CraftTx_ok [OF craft assms(2)], rule that) simp_all
qed

text \<open>
  C20. What the proposer sends is recorded once: when a poll crafts a transaction while the contract is in state \<open>c\<close>, it
  proposes the next checkpoint of the contract, a block that is safe, with the output root that commits to the storage
  of the account proved by the L2 node. Sent by the proposer's account in an L1 block late enough that still knows the L1
  block named, the call is accepted; from then on the output is found under its block number, and another copy of
  the transaction reverts.
\<close>

theorem proposal_is_recorded:
  assumes "poll_tx (poll E) = Some tx" and "transactor_laws E" and "headers_by_number E"
    and "pe_NextBlockNumber E = nextBlockNumber c" and "l2oo_inv W c" and "0 < SUBMISSION_INTERVAL c"
    and "\<And>k out. pe_OutputAtBlock E k = Inr out \<Longrightarrow> OutputAtBlock L kec N k = Inr out"
    and "rlp_laws L" and "trie_commits L kec accounts (bi_Root head)"
    and "ln_InfoByRpcNumber N (pa_l2BlockNumber (pt_Data tx)) = Inr (Some head)"
    and "computeL2Timestamp c (nat (pa_l2BlockNumber (pt_Data tx))) = Inr t" and "t < block_timestamp msg"
    and "oo_proposer c = msg_sender msg" and "blockhash msg (pa_l1BlockNumber (pt_Data tx)) = pa_l1Blockhash (pt_Data tx)"
    and "pa_outputRoot (pt_Data tx) \<noteq> 0"
  shows "\<exists>n status res ac. pa_l2BlockNumber (pt_Data tx) = int n \<and> n = oo_latestBlockNumber c + SUBMISSION_INTERVAL c
    \<and> pe_SyncStatus E = Inr status \<and> n \<le> unat (l2_Number (ss_SafeL2 status))
    \<and> ln_eth_getProof N L2ToL1MessagePasserAddr (int n) = Inr (Some res) \<and> accounts (ar_Address res) = Some ac
    \<and> pa_outputRoot (pt_Data tx) = ComputeL2OutputRoot kec 0 (bi_Hash head) (bi_Root head) (ac_Root ac)
    \<and> (\<exists>c'. proposeL2Output msg (pa_outputRoot (pt_Data tx)) n (pa_l1Blockhash (pt_Data tx)) (pa_l1BlockNumber (pt_Data tx)) c = Inr c'
      \<and> oo_latestBlockNumber c' = n
      \<and> getL2Output c' n = Inr \<lparr>op_outputRoot = pa_outputRoot (pt_Data tx), op_timestamp = block_timestamp msg\<rparr>
      \<and> (\<forall>msg'. \<exists>e. proposeL2Output msg' (pa_outputRoot (pt_Data tx)) n
           (pa_l1Blockhash (pt_Data tx)) (pa_l1BlockNumber (pt_Data tx)) c' = Inl e))"
  using assms(1-3)
proof (rule poll_proposes)
  fix n status
  assume n: "pe_NextBlockNumber E = Inr n" "pe_SyncStatus E = Inr status"
    "n \<le> unat (l2_Number (ss_SafeL2 status))" "pa_l2BlockNumber (pt_Data tx) = int n"
    "pe_OutputAtBlock E (int n) = Inr [0, pa_outputRoot (pt_Data tx)]"
  have expected: "nextBlockNumber c = Inr n" using n(1) assms(4) by simp
  have "n = oo_latestBlockNumber c + SUBMISSION_INTERVAL c"
    using expected by (simp add: nextBlockNumber_def checked_def split: if_splits)
  moreover have "ln_InfoByRpcNumber N (int n) = Inr (Some head)" using assms(10) n(4) by simp
  note OutputAtBlock_storage [OF assms(8,9) this assms(7) [OF n(5)]]
  moreover have "computeL2Timestamp c n = Inr t" using assms(11) n(4) by simp
  note propose_accepted [OF assms(5,6) expected this assms(13,12,15,14)]
  ultimately show ?thesis using n(2-4) by auto
qed

definition sample_safe_status :: sync_status where
  "sample_safe_status = \<lparr>ss_CurrentL1 = zero_l1, ss_HeadL1 = zero_l1, ss_SafeL1 = zero_l1, ss_FinalizedL1 = zero_l1,
     ss_UnsafeL2 = zero_l2, ss_SafeL2 = zero_l2\<lparr>l2_Number := 125\<rparr>, ss_FinalizedL2 = zero_l2\<rparr>"

definition sample_proposer_env :: proposer_env where
  "sample_proposer_env =
    \<lparr>pe_LatestBlockNumber = Inr 110, pe_NextBlockNumber = Inr 120, pe_SyncStatus = Inr sample_safe_status,
     pe_L2HeaderByNumber = (\<lambda>n. if 0 \<le> n then Inr \<lparr>hd_Number = nat n, hd_Hash = 5\<rparr> else Inl NotFound),
     pe_L1Header = Inr \<lparr>hd_Number = 3, hd_Hash = 77\<rparr>,
     pe_OutputAtBlock = (\<lambda>n. Inr [0, ComputeL2OutputRoot sample_keccak 0 5 1 9]),
     pe_NonceAt = Inr 6,
     pe_Transact = (\<lambda>i nonce args. Inr \<lparr>pt_Nonce = nonce, pt_Data = args\<rparr>),
     pe_Send = (\<lambda>update. Inr \<lparr>rt_TxHash = 1, rt_BlockNumber = 4, rt_Failed = False\<rparr>)\<rparr>"

definition sample_proposal :: proposal_tx where
  "sample_proposal = \<lparr>pt_Nonce = 6, pt_Data = \<lparr>pa_outputRoot = ComputeL2OutputRoot sample_keccak 0 5 1 9, pa_l2BlockNumber = 120,
     pa_l1Blockhash = 77, pa_l1BlockNumber = 3\<rparr>\<rparr>"

lemma sample_poll: "poll_tx (poll sample_proposer_env) = Some sample_proposal"
  by (simp add: poll_def GetBlockRange_def l2output_CraftTx_def outputRootAtBlock_def supportedL2OutputVersion_def
      sample_proposer_env_def sample_safe_status_def sample_proposal_def)

lemma sample_root: "ComputeL2OutputRoot sample_keccak v h r s \<noteq> 0"
  by (simp add: ComputeL2OutputRoot_def sample_keccak_def)

lemma sample_l2oo_inv: "l2oo_inv sample_ownable sample_l2oo"
proof -
  have "checkpoint sample_l2oo n \<and> n \<le> 110 \<longleftrightarrow> n = 100 \<or> n = 110" for n
  proof -
    have "10 dvd m \<and> m \<le> 10 \<longleftrightarrow> m = 0 \<or> m = (10 :: nat)" for m by presburger
    from this [of "n - 100"] show ?thesis by (auto simp: checkpoint_def sample_l2oo_def)
  qed
  then show ?thesis by (simp add: l2oo_inv_def sample_ownable_def) (simp add: sample_l2oo_def no_output_def)
qed

theorem proposal_is_recorded_witness:
  "\<exists>n status res ac. pa_l2BlockNumber (pt_Data sample_proposal) = int n
    \<and> n = oo_latestBlockNumber sample_l2oo + SUBMISSION_INTERVAL sample_l2oo
    \<and> pe_SyncStatus sample_proposer_env = Inr status \<and> n \<le> unat (l2_Number (ss_SafeL2 status))
    \<and> ln_eth_getProof sample_l2_node L2ToL1MessagePasserAddr (int n) = Inr (Some res)
    \<and> (\<lambda>a. Some sample_account) (ar_Address res) = Some ac
    \<and> pa_outputRoot (pt_Data sample_proposal) = ComputeL2OutputRoot sample_keccak 0 (bi_Hash sample_head) (bi_Root sample_head) (ac_Root ac)
    \<and> (\<exists>c'. proposeL2Output sample_call (pa_outputRoot (pt_Data sample_proposal)) n
          (pa_l1Blockhash (pt_Data sample_proposal)) (pa_l1BlockNumber (pt_Data sample_proposal)) sample_l2oo = Inr c'
      \<and> oo_latestBlockNumber c' = n
      \<and> getL2Output c' n = Inr \<lparr>op_outputRoot = pa_outputRoot (pt_Data sample_proposal), op_timestamp = block_timestamp sample_call\<rparr>
      \<and> (\<forall>msg'. \<exists>e. proposeL2Output msg' (pa_outputRoot (pt_Data sample_proposal)) n
           (pa_l1Blockhash (pt_Data sample_proposal)) (pa_l1BlockNumber (pt_Data sample_proposal)) c' = Inl e))"
proof (rule proposal_is_recorded [OF sample_poll, where L = sample_trie and W = sample_ownable and t = 540])
  show "transactor_laws sample_proposer_env" by (auto simp: transactor_laws_def sample_proposer_env_def)
  show "headers_by_number sample_proposer_env" by (simp add: headers_by_number_def sample_proposer_env_def)
  show "pe_NextBlockNumber sample_proposer_env = nextBlockNumber sample_l2oo"
    by (simp add: sample_proposer_env_def nextBlockNumber_def checked_def sample_l2oo_def)
  show "OutputAtBlock sample_trie sample_keccak sample_l2_node k = Inr out"
    if "pe_OutputAtBlock sample_proposer_env k = Inr out" for k out
    using that by (simp add: sample_proposer_env_def sample_OutputAtBlock)
  show "computeL2Timestamp sample_l2oo (nat (pa_l2BlockNumber (pt_Data sample_proposal))) = Inr 540"
    by (simp add: computeL2Timestamp_def checked_def sample_l2oo_def sample_proposal_def)
  show "l2oo_inv sample_ownable sample_l2oo" by (rule sample_l2oo_inv)
  show "rlp_laws sample_trie" by (rule sample_rlp_laws)
  show "trie_commits sample_trie sample_keccak (\<lambda>a. Some sample_account) (bi_Root sample_head)" by (rule sample_commits)
qed (simp_all add: sample_l2oo_def sample_l2_node_def sample_call_def sample_proposal_def sample_root)

end
