(* ===== verification/EVM_Memory.thy ===== *)
theory EVM_Memory
  imports Prelude
begin

text \<open>
  Byte arrays in the memory of the EVM, for the assembly parts of the Solidity libraries
  \<^verbatim>\<open>packages/contracts-bedrock/contracts/libraries\<close>: the copying routines of \<^verbatim>\<open>rlp/RLPReader.sol\<close> and
  \<^verbatim>\<open>rlp/RLPWriter.sol\<close>, and \<^verbatim>\<open>Bytes.sol\<close>.

  Every array is looked at in a memory of its own, where it starts at address 0: a word with its length, then its
  bytes, then whatever follows it in memory (\<open>beyond\<close>, arbitrary). Lengths and addresses are natural numbers, since an
  array that fits into memory is far shorter than \<^verbatim>\<open>2^256\<close> bytes.
\<close>

unbundle bit_operations_syntax

section \<open>Memory\<close>

type_synonym memory = "nat \<Rightarrow> byte"

definition mload :: "memory \<Rightarrow> nat \<Rightarrow> hash" where
  "mload M p = bytes_word (map M [p..<p + 32])"

definition mstore :: "nat \<Rightarrow> hash \<Rightarrow> memory \<Rightarrow> memory" where
  "mstore p v M = (\<lambda>i. if p \<le> i \<and> i < p + 32 then word_bytes v ! (i - p) else M i)"

definition array_mem :: "memory \<Rightarrow> bytes \<Rightarrow> memory" where
  "array_mem beyond bs =
    (\<lambda>i. if i < 32 then word_bytes (word_of_nat (length bs) :: hash) ! i
         else if i < 32 + length bs then bs ! (i - 32)
         else beyond i)"

definition mem_bytes :: "memory \<Rightarrow> nat \<Rightarrow> bytes" where
  "mem_bytes M n = map M [32..<32 + n]"

text \<open>\<^verbatim>\<open>new bytes(n)\<close>\<close>

definition new_bytes :: "memory \<Rightarrow> nat \<Rightarrow> memory" where
  "new_bytes beyond n = array_mem beyond (replicate n 0)"

section \<open>Copying\<close>

text \<open>The last, partial word: \<^verbatim>\<open>256**(32 - len) - 1\<close> is unchecked, and \<^verbatim>\<open>256**32\<close> is 0.\<close>

definition copy_mask :: "nat \<Rightarrow> hash" where
  "copy_mask len = 256 ^ (32 - len) - 1"

definition copy_tail :: "memory \<Rightarrow> nat \<Rightarrow> nat \<Rightarrow> nat \<Rightarrow> memory \<Rightarrow> memory" where
  "copy_tail M src dest len D =
    mstore dest ((mload M src AND NOT (copy_mask len)) OR (mload D dest AND copy_mask len)) D"

fun copy_words :: "memory \<Rightarrow> nat \<Rightarrow> nat \<Rightarrow> nat \<Rightarrow> memory \<Rightarrow> memory" where
  "copy_words M src dest 0 D = D"
| "copy_words M src dest (Suc n) D = copy_words M (src + 32) (dest + 32) n (mstore dest (mload M src) D)"

text \<open>\<^verbatim>\<open>RLPReader._copy\<close>\<close>

definition copy_bytes :: "memory \<Rightarrow> memory \<Rightarrow> nat \<Rightarrow> nat \<Rightarrow> nat \<Rightarrow> bytes" where
  "copy_bytes beyond M src offset len =
    (let out = new_bytes beyond len in
     if len = 0 then mem_bytes out len
     else let n = len div 32; src = src + offset;
              out = copy_words M src 32 n out
          in mem_bytes (copy_tail M (src + 32 * n) (32 + 32 * n) (len mod 32) out) len)"

text \<open>\<^verbatim>\<open>RLPWriter._memcpy\<close>\<close>

function memcpy :: "memory \<Rightarrow> nat \<Rightarrow> nat \<Rightarrow> nat \<Rightarrow> memory \<Rightarrow> memory" where
  "memcpy M dest src len D =
    (if len \<ge> 32 then memcpy M (dest + 32) (src + 32) (len - 32) (mstore dest (mload M src) D)
     else copy_tail M src dest len D)"
  by pat_completeness auto
termination by (relation "measure (\<lambda>(M, dest, src, len, D). len)") auto

declare memcpy.simps [simp del]

section \<open>Slices\<close>

text \<open>The loop of \<^verbatim>\<open>Bytes.slice\<close>, which copies words from \<open>cc\<close> to \<open>mc\<close> while \<open>mc\<close> is below the end.\<close>

function slice_loop :: "memory \<Rightarrow> nat \<Rightarrow> nat \<Rightarrow> nat \<Rightarrow> memory \<Rightarrow> memory" where
  "slice_loop M mc cc stop D =
    (if mc < stop then slice_loop M (mc + 32) (cc + 32) stop (mstore mc (mload M cc) D) else D)"
  by pat_completeness auto
termination by (relation "measure (\<lambda>(M, mc, cc, stop, D). stop - mc)") auto

declare slice_loop.simps [simp del]

text \<open>\<open>free\<close> is what the free memory held before.\<close>

definition Bytes_slice3 :: "memory \<Rightarrow> memory \<Rightarrow> bytes \<Rightarrow> nat \<Rightarrow> nat \<Rightarrow> cause + bytes" where
  "Bytes_slice3 beyond free bs start len =
    (if \<not> (len + 31) mod 2 ^ 256 \<ge> len then Inl ''slice_overflow''
     else if \<not> (start + len) mod 2 ^ 256 \<ge> start then Inl ''slice_overflow''
     else if \<not> length bs \<ge> (start + len) mod 2 ^ 256 then Inl ''slice_outOfBounds''
     else if len = 0 then Inr []
     else let lengthmod = len mod 32;
              mc = lengthmod + 32 * (if lengthmod = 0 then 1 else 0);
              cc = lengthmod + 32 * (if lengthmod = 0 then 1 else 0) + start;
              D = slice_loop (array_mem beyond bs) mc cc (mc + len) free;
              D = mstore 0 (word_of_nat len) D
          in Inr (mem_bytes D len))"

definition Bytes_slice :: "memory \<Rightarrow> memory \<Rightarrow> bytes \<Rightarrow> nat \<Rightarrow> cause + bytes" where
  "Bytes_slice beyond free bs start =
    (if start \<ge> length bs then Inr [] else Bytes_slice3 beyond free bs start (length bs - start))"

section \<open>Nibbles\<close>

definition toNibbles :: "bytes \<Rightarrow> bytes" where
  "toNibbles bs = concat (map (\<lambda>b. [drop_bit 4 b, b mod 16]) bs)"

definition fromNibbles :: "bytes \<Rightarrow> bytes" where
  "fromNibbles bs = map (\<lambda>i. push_bit 4 (bs ! (i * 2)) OR bs ! (i * 2 + 1)) [0..<length bs div 2]"

definition Bytes_equal :: "(bytes \<Rightarrow> hash) \<Rightarrow> bytes \<Rightarrow> bytes \<Rightarrow> bool" where
  "Bytes_equal keccak256 bs other \<longleftrightarrow> keccak256 bs = keccak256 other"

section \<open>The routines copy what they should\<close>

lemma nth_be_bytes: "i < n \<Longrightarrow> be_bytes n x ! i = word_of_nat (x div 256 ^ (n - 1 - i))"
proof (induction n arbitrary: x)
  case (Suc n)
  show ?case
  proof (cases "i < n")
    case True
    then have "x div 256 div 256 ^ (n - 1 - i) = x div 256 ^ (n - i)"
      by (simp add: Suc_diff_Suc flip: div_mult2_eq power_Suc)
    with True Suc.IH [of "x div 256"] show ?thesis by (simp add: nth_append)
  next
    case False
    with Suc.prems have "i = n" by simp
    moreover have "word_of_nat (x mod 256) = (word_of_nat x :: byte)"
      by (simp add: word_unat_eq_iff unat_of_nat)
    ultimately show ?thesis by (simp add: nth_append)
  qed
qed simp

lemma nth_word_bytes:
  assumes "i < 32"
  shows "word_bytes (w :: hash) ! i = ucast (drop_bit (8 * (31 - i)) w)"
proof -
  have "(256 :: nat) ^ (31 - i) = 2 ^ (8 * (31 - i))" by (simp add: power_mult)
  then have "unat w div 256 ^ (31 - i) = unat (drop_bit (8 * (31 - i)) w)"
    by (simp only: unat_drop_bit_eq drop_bit_eq_div [of _ "unat w"])
  with assms show ?thesis
    by (simp add: word_bytes_def nth_be_bytes)
qed

lemma copy_mask_eq: "copy_mask r = mask (8 * (32 - r))"
  by (simp add: copy_mask_def mask_eq_exp_minus_1 power_mult)

lemma nth_masked:
  assumes "i < 32" "r < 32"
  shows "word_bytes ((a AND NOT (copy_mask r)) OR (b AND copy_mask r)) ! i
    = (if i < r then word_bytes a ! i else word_bytes b ! i)"
proof -
  have "bit (copy_mask r) (8 * (31 - i) + j) \<longleftrightarrow> \<not> i < r" if "j < 8" for j
    using assms that by (auto simp: copy_mask_eq bit_mask_iff)
  then show ?thesis
    using assms
    by (auto intro!: bit_word_eqI simp: nth_word_bytes bit_simps)
qed

lemma word_bytes_mload: "word_bytes (mload M p) = map M [p..<p + 32]"
  unfolding mload_def by (rule word_bytes_bytes_word) simp_all

lemma mstore_mload: "mstore p (mload M q) D = (\<lambda>i. if p \<le> i \<and> i < p + 32 then M (q + (i - p)) else D i)"
  by (auto simp: mstore_def word_bytes_mload fun_eq_iff)

lemma copy_tail_eq:
  assumes "len < 32"
  shows "copy_tail M src dest len D = (\<lambda>i. if dest \<le> i \<and> i < dest + len then M (src + (i - dest)) else D i)"
proof
  fix i
  show "copy_tail M src dest len D i = (if dest \<le> i \<and> i < dest + len then M (src + (i - dest)) else D i)"
  proof (cases "dest \<le> i \<and> i < dest + 32")
    case True
    then have "i - dest < 32" by auto
    with True assms show ?thesis
      unfolding copy_tail_def mstore_def by (auto simp: nth_masked word_bytes_mload)
  next
    case False
    with assms show ?thesis by (auto simp: copy_tail_def mstore_def)
  qed
qed

lemma copy_words_eq:
  "copy_words M src dest n D = (\<lambda>i. if dest \<le> i \<and> i < dest + 32 * n then M (src + (i - dest)) else D i)"
proof (induction n arbitrary: src dest D)
  case (Suc n)
  show ?case unfolding copy_words.simps Suc mstore_mload
    by (auto simp: fun_eq_iff)
qed (auto simp: fun_eq_iff)

lemma memcpy_eq:
  "memcpy M dest src len D = (\<lambda>i. if dest \<le> i \<and> i < dest + len then M (src + (i - dest)) else D i)"
proof (induction M dest src len D rule: memcpy.induct)
  case (1 M dest src len D)
  show ?case
  proof (cases "len \<ge> 32")
    case True
    show ?thesis
      unfolding memcpy.simps [of M dest src len D] using True 1 [OF True] by (auto simp: mstore_mload fun_eq_iff)
  qed (simp add: memcpy.simps [of M dest src len D] copy_tail_eq)
qed

lemma copy_bytes_eq: "copy_bytes beyond M src offset len = map M [src + offset..<src + offset + len]"
proof (cases "len = 0")
  case False
  have "copy_tail M (src + offset + 32 * (len div 32)) (32 + 32 * (len div 32)) (len mod 32)
      (copy_words M (src + offset) 32 (len div 32) D) i = M (src + offset + (i - 32))"
    if "32 \<le> i" "i < 32 + len" for i D
  proof -
    have "len mod 32 < 32" "32 * (len div 32) + len mod 32 = len" by simp_all
    with that show ?thesis by (auto simp: copy_tail_eq copy_words_eq intro!: arg_cong [of _ _ M])
  qed
  with False show ?thesis
    by (auto simp: copy_bytes_def Let_def mem_bytes_def add.assoc intro!: nth_equalityI)
qed (simp add: copy_bytes_def mem_bytes_def)

lemma word_count:
  assumes "0 < (k :: nat)"
  shows "(k + 31) div 32 = Suc ((k - 32 + 31) div 32)"
proof (cases "k \<le> 32")
  case True
  with assms have "(k + 31) div 32 = 1" by (intro div_nat_eqI) auto
  with True show ?thesis by simp
next
  case False
  then obtain j where "k = 32 + j" using less_imp_add_positive by (metis not_le)
  then have "k + 31 = 32 + (j + 31)" "k - 32 = j" by simp_all
  then show ?thesis by (simp only: div_add_self1)
qed

lemma slice_loop_eq:
  "slice_loop M mc cc stop D
    = (\<lambda>i. if mc \<le> i \<and> i < mc + 32 * ((stop - mc + 31) div 32) then M (cc + (i - mc)) else D i)"
proof (induction M mc cc stop D rule: slice_loop.induct)
  case (1 M mc cc stop D)
  show ?case
  proof (cases "mc < stop")
    case True
    from word_count [of "stop - mc"] have "(stop - mc + 31) div 32 = Suc ((stop - (mc + 32) + 31) div 32)" using True by simp
    then show ?thesis
      unfolding slice_loop.simps [of M mc cc stop D] using True 1 [OF True] by (auto simp: mstore_mload fun_eq_iff)
  qed (auto simp add: slice_loop.simps [of M mc cc stop D] fun_eq_iff)
qed

lemma slice_words: "(if len mod 32 = 0 then 32 else len mod 32) + 32 * ((len + 31) div 32) = 32 + (len :: nat)"
proof -
  define q r where "q = len div 32" and "r = len mod 32"
  have len: "len = r + q * 32" by (simp add: q_def r_def)
  have "len + 31 = (r + 31) + q * 32" by (simp add: len)
  then have "(len + 31) div 32 = q + (r + 31) div 32" by (simp only: div_mult_self1 zero_neq_numeral not_False_eq_True)
  moreover have "(r + 31) div 32 = (if r = 0 then 0 else 1)"
  proof (cases "r = 0")
    case False
    moreover have "r < 32" by (simp add: r_def)
    ultimately have "(r + 31) div 32 = 1" by (intro div_nat_eqI) auto
    with False show ?thesis by simp
  qed simp
  ultimately have "(len + 31) div 32 = q + (if r = 0 then 0 else 1)" by simp
  then show ?thesis unfolding r_def [symmetric] using len by (cases "r = 0") simp_all
qed

lemma array_mem_nth: "i < length bs \<Longrightarrow> array_mem beyond bs (32 + i) = bs ! i"
  by (simp add: array_mem_def)

lemma Bytes_slice3_eq:
  assumes "start + len < 2 ^ 256" "len + 31 < 2 ^ 256"
  shows "Bytes_slice3 beyond free bs start len
    = (if start + len \<le> length bs then Inr (take len (drop start bs)) else Inl ''slice_outOfBounds'')"
proof -
  note no_wrap = mod_less [OF assms(1)] mod_less [OF assms(2)]
  have content: "mem_bytes (mstore 0 v (slice_loop (array_mem beyond bs) mc (mc + start) (mc + len) free)) len
      = take len (drop start bs)"
    if "start + len \<le> length bs" "0 < len" "mc = (if len mod 32 = 0 then 32 else len mod 32)" for mc v
  proof -
    have "mc + 32 * ((len + 31) div 32) = 32 + len" unfolding that(3) by (rule slice_words)
    moreover have "mc \<le> 32" using that(3) by simp
    ultimately have "slice_loop (array_mem beyond bs) mc (mc + start) (mc + len) free (32 + i) = bs ! (start + i)" if "i < len" for i
      using that \<open>start + len \<le> length bs\<close> array_mem_nth [of "start + i" bs beyond]
      by (auto simp: slice_loop_eq algebra_simps)
    with that(1) show ?thesis
      by (auto simp: mem_bytes_def mstore_def intro!: nth_equalityI)
  qed
  show ?thesis
    unfolding Bytes_slice3_def no_wrap Let_def using content [OF _ _ refl, of "word_of_nat len"]
    by (auto simp: ac_simps)
qed

lemma Bytes_slice_eq:
  assumes "length bs + 31 < 2 ^ 256"
  shows "Bytes_slice beyond free bs start = Inr (drop start bs)"
proof (cases "start \<ge> length bs")
  case False
  have "start + (length bs - start) < 2 ^ 256" "length bs - start + 31 < 2 ^ 256"
    by (rule le_less_trans [OF _ assms]; use False in simp)+
  with False show ?thesis by (simp add: Bytes_slice_def Bytes_slice3_eq)
qed (simp add: Bytes_slice_def)

lemma length_toNibbles [simp]: "length (toNibbles bs) = 2 * length bs"
  by (induction bs) (simp_all add: toNibbles_def)

lemma toNibbles_Cons: "toNibbles (b # bs) = drop_bit 4 b # b mod 16 # toNibbles bs"
  by (simp add: toNibbles_def)

lemma nibbles_byte: "push_bit 4 (drop_bit 4 b) OR b mod 16 = (b :: byte)"
proof -
  have "b mod 16 = take_bit 4 b" by (simp add: take_bit_eq_mod)
  then show ?thesis by (auto intro!: bit_word_eqI simp: bit_simps)
qed

lemma fromNibbles_Cons: "fromNibbles (x # y # ns) = (push_bit 4 x OR y) # fromNibbles ns"
proof -
  have "[0..<Suc (length ns div 2)] = 0 # map Suc [0..<length ns div 2]" by (simp only: upt_conv_Cons map_Suc_upt zero_less_Suc)
  then show ?thesis by (simp add: fromNibbles_def)
qed

lemma fromNibbles_toNibbles: "fromNibbles (toNibbles bs) = bs"
proof (induction bs)
  case Nil
  then show ?case by (simp add: toNibbles_def fromNibbles_def)
next
  case (Cons b bs)
  then show ?case by (simp add: toNibbles_Cons fromNibbles_Cons nibbles_byte)
qed

lemma toNibbles_inject: "toNibbles bs = toNibbles cs \<longleftrightarrow> bs = cs"
  using fromNibbles_toNibbles by metis

end
