(* ===== verification/RLP.thy ===== *)
theory RLP
  imports EVM_Memory
begin

text \<open>
  The RLP libraries of the contracts, \<^verbatim>\<open>libraries/rlp/RLPReader.sol\<close> and \<^verbatim>\<open>libraries/rlp/RLPWriter.sol\<close> under
  \<^verbatim>\<open>packages/contracts-bedrock/contracts\<close>. A failed \<^verbatim>\<open>require\<close> or a failed arithmetic check gives \<open>Inl\<close>.
\<close>

section \<open>The reader\<close>

datatype rlp_item_type = DATA_ITEM | LIST_ITEM

text \<open>An item points into the memory that holds the array it was read from.\<close>

record rlp_item =
  ri_length :: nat
  ri_ptr :: nat
  ri_mem :: memory

definition MAX_LIST_LENGTH :: nat where "MAX_LIST_LENGTH = 32"

definition toRLPItem :: "memory \<Rightarrow> bytes \<Rightarrow> rlp_item" where
  "toRLPItem beyond bs = \<lparr>ri_length = length bs, ri_ptr = 32, ri_mem = array_mem beyond bs\<rparr>"

text \<open>\<^verbatim>\<open>byte(0, w)\<close>, and \<^verbatim>\<open>div(w, exp(256, 32 - n))\<close>, where the EVM divides by zero to zero.\<close>

definition evm_byte0 :: "hash \<Rightarrow> nat" where
  "evm_byte0 w = unat (word_bytes w ! 0)"

definition evm_top :: "hash \<Rightarrow> nat \<Rightarrow> hash" where
  "evm_top w n = (let d = 256 ^ (32 - n) in if d = 0 then 0 else w div d)"

definition decodeLength :: "rlp_item \<Rightarrow> cause + nat \<times> nat \<times> rlp_item_type" where
  "decodeLength item =
    (if \<not> ri_length item > 0 then Inl ''RLP item cannot be null''
     else let ptr = ri_ptr item; prefix = evm_byte0 (mload (ri_mem item) ptr) in
     if prefix \<le> 0x7f then Inr (0, 1, DATA_ITEM)
     else if prefix \<le> 0xb7 then
       let strLen = prefix - 0x80 in
       if \<not> ri_length item > strLen then Inl ''invalid RLP short string''
       else Inr (1, strLen, DATA_ITEM)
     else if prefix \<le> 0xbf then
       let lenOfStrLen = prefix - 0xb7 in
       if \<not> ri_length item > lenOfStrLen then Inl ''invalid RLP long string length''
       else let strLen = unat (evm_top (mload (ri_mem item) (ptr + 1)) lenOfStrLen) in
       if \<not> ri_length item > lenOfStrLen + strLen then Inl ''invalid RLP long string''
       else Inr (1 + lenOfStrLen, strLen, DATA_ITEM)
     else if prefix \<le> 0xf7 then
       let listLen = prefix - 0xc0 in
       if \<not> ri_length item > listLen then Inl ''invalid RLP short list''
       else Inr (1, listLen, LIST_ITEM)
     else
       let lenOfListLen = prefix - 0xf7 in
       if \<not> ri_length item > lenOfListLen then Inl ''invalid RLP long list length''
       else let listLen = unat (evm_top (mload (ri_mem item) (ptr + 1)) lenOfListLen) in
       if \<not> ri_length item > lenOfListLen + listLen then Inl ''invalid RLP long list''
       else Inr (1 + lenOfListLen, listLen, LIST_ITEM))"

lemma decodeLength_pos:
  "decodeLength item = Inr (itemOffset, itemLength, ty) \<Longrightarrow> 0 < itemOffset + itemLength"
  by (auto simp: decodeLength_def Let_def split: if_splits)

text \<open>The loop of \<^verbatim>\<open>readList\<close>.\<close>

function readList_loop :: "rlp_item \<Rightarrow> nat \<Rightarrow> rlp_item list \<Rightarrow> cause + rlp_item list" where
  "readList_loop item offset out =
    (if offset < ri_length item then
       if \<not> length out < MAX_LIST_LENGTH then Inl ''provided RLP list exceeds max list length''
       else (case decodeLength (item\<lparr>ri_length := ri_length item - offset, ri_ptr := ri_ptr item + offset\<rparr>) of
          Inl e \<Rightarrow> Inl e
        | Inr (itemOffset, itemLength, ty) \<Rightarrow>
            readList_loop item (offset + (itemOffset + itemLength))
              (out @ [item\<lparr>ri_length := itemLength + itemOffset, ri_ptr := ri_ptr item + offset\<rparr>]))
     else Inr out)"
  by pat_completeness auto
termination
  by (relation "measure (\<lambda>(item, offset, out). ri_length item - offset)") (auto dest!: decodeLength_pos)

declare readList_loop.simps [simp del]

definition readList :: "rlp_item \<Rightarrow> cause + rlp_item list" where
  "readList item =
    (case decodeLength item of
       Inl e \<Rightarrow> Inl e
     | Inr (listOffset, listLength, itemType) \<Rightarrow>
         if itemType \<noteq> LIST_ITEM then Inl ''invalid RLP list value'' else readList_loop item listOffset [])"

definition readBytes :: "memory \<Rightarrow> rlp_item \<Rightarrow> cause + bytes" where
  "readBytes beyond item =
    (case decodeLength item of
       Inl e \<Rightarrow> Inl e
     | Inr (itemOffset, itemLength, itemType) \<Rightarrow>
         if itemType \<noteq> DATA_ITEM then Inl ''invalid RLP bytes value''
         else Inr (copy_bytes beyond (ri_mem item) (ri_ptr item) itemOffset itemLength))"

definition readRawBytes :: "memory \<Rightarrow> rlp_item \<Rightarrow> bytes" where
  "readRawBytes beyond item = copy_bytes beyond (ri_mem item) (ri_ptr item) 0 (ri_length item)"

definition readBytes32 :: "rlp_item \<Rightarrow> cause + hash" where
  "readBytes32 item =
    (if \<not> ri_length item \<le> 33 then Inl ''invalid RLP bytes32 value''
     else case decodeLength item of
       Inl e \<Rightarrow> Inl e
     | Inr (itemOffset, itemLength, itemType) \<Rightarrow>
         if itemType \<noteq> DATA_ITEM then Inl ''invalid RLP bytes32 value''
         else let out = mload (ri_mem item) (ri_ptr item + itemOffset) in
           Inr (if itemLength < 32 then evm_top out itemLength else out))"

definition readUint256 :: "rlp_item \<Rightarrow> cause + nat" where
  "readUint256 item = map_sum id unat (readBytes32 item)"

definition readBool :: "rlp_item \<Rightarrow> cause + bool" where
  "readBool item =
    (if ri_length item \<noteq> 1 then Inl ''invalid RLP boolean value''
     else let out = evm_byte0 (mload (ri_mem item) (ri_ptr item)) in
     if \<not> (out = 0 \<or> out = 1) then Inl ''invalid RLP boolean value, must be 0 or 1''
     else Inr (out \<noteq> 0))"

definition readAddress :: "rlp_item \<Rightarrow> cause + address" where
  "readAddress item =
    (if ri_length item = 1 then Inr 0
     else if ri_length item \<noteq> 21 then Inl ''invalid RLP address value''
     else map_sum id word_of_nat (readUint256 item))"

section \<open>The writer\<close>

text \<open>The loop that counts the bytes of a length: \<^verbatim>\<open>i\<close> runs through the powers of 256.\<close>

function length_of_length :: "nat \<Rightarrow> nat \<Rightarrow> nat" where
  "length_of_length len i = (if len div i \<noteq> 0 then Suc (length_of_length len (i * 256)) else 0)"
  by pat_completeness auto
termination
  by (relation "measure (\<lambda>(len, i). Suc len - i)") (auto simp: div_eq_0_iff not_less intro!: diff_less_mono2)

declare length_of_length.simps [simp del]

text \<open>
  The first byte is computed in \<^verbatim>\<open>uint8\<close>, the powers of 256 in \<^verbatim>\<open>uint256\<close>, both checked.
\<close>

definition writeLength :: "nat \<Rightarrow> nat \<Rightarrow> cause + bytes" where
  "writeLength len offset =
    (if len < 56 then Inr [word_of_nat (len + offset)]
     else let lenLen = length_of_length len 1 in
     if lenLen \<ge> 32 \<or> lenLen + offset + 55 > 255 then Inl ''arithmetic overflow''
     else Inr (word_of_nat (lenLen + offset + 55)
       # map (\<lambda>i. word_of_nat (len div 256 ^ (lenLen - i) mod 256)) [1..<lenLen + 1]))"

definition writeBytes :: "bytes \<Rightarrow> cause + bytes" where
  "writeBytes bs =
    (if length bs = 1 \<and> bs ! 0 < 128 then Inr bs
     else map_sum id (\<lambda>prefix. prefix @ bs) (writeLength (length bs) 128))"

text \<open>The loop of \<^verbatim>\<open>_flatten\<close>: every string is copied behind the ones before.\<close>

fun flatten_loop :: "memory \<Rightarrow> bytes list \<Rightarrow> nat \<Rightarrow> memory \<Rightarrow> memory" where
  "flatten_loop beyond [] flattenedPtr D = D"
| "flatten_loop beyond (item # items) flattenedPtr D =
    flatten_loop beyond items (flattenedPtr + length item)
      (memcpy (array_mem beyond item) flattenedPtr 32 (length item) D)"

definition flatten :: "memory \<Rightarrow> bytes list \<Rightarrow> bytes" where
  "flatten beyond list =
    (if length list = 0 then []
     else let len = sum_list (map length list) in mem_bytes (flatten_loop beyond list 32 (new_bytes beyond len)) len)"

definition writeList :: "memory \<Rightarrow> bytes list \<Rightarrow> cause + bytes" where
  "writeList beyond items =
    (let list = flatten beyond items in map_sum id (\<lambda>prefix. prefix @ list) (writeLength (length list) 192))"

definition toBinary :: "nat \<Rightarrow> bytes" where
  "toBinary x = dropWhile (\<lambda>b. b = 0) (be_bytes 32 x)"

definition writeUint :: "nat \<Rightarrow> cause + bytes" where
  "writeUint x = writeBytes (toBinary x)"

definition writeAddress :: "address \<Rightarrow> cause + bytes" where
  "writeAddress a = writeBytes (word_bytes a)"

definition writeBool :: "bool \<Rightarrow> bytes" where
  "writeBool b = [if b then 0x01 else 0x80]"

section \<open>Reading what was written\<close>

lemma evm_byte0_mload: "evm_byte0 (mload M p) = unat (M p)"
  by (simp add: evm_byte0_def word_bytes_mload)

lemma evm_top_mload:
  assumes "n \<le> 32"
  shows "unat (evm_top (mload M p) n) = be_val (map M [p..<p + n])"
proof (cases "n = 0")
  case False
  let ?A = "map M [p..<p + n]" and ?B = "map M [p + n..<p + 32]"
  have split: "map M [p..<p + 32] = ?A @ ?B"
    using upt_add_eq_append [of p "p + n" "32 - n"] assms by (simp flip: map_append)
  have "unat (mload M p) = be_val (?A @ ?B)"
  proof -
    have "be_val (map M [p..<p + 32]) < 2 ^ 256" using be_val_less [of "map M [p..<p + 32]"] by simp
    then show ?thesis unfolding mload_def bytes_word_def split [symmetric] by (simp add: unat_of_nat)
  qed
  also have "\<dots> = be_val ?A * 256 ^ (32 - n) + be_val ?B" using assms by (simp add: be_val_append)
  finally have w: "unat (mload M p) = be_val ?A * 256 ^ (32 - n) + be_val ?B" .
  have small: "be_val ?B < 256 ^ (32 - n)" using be_val_less [of ?B] assms by simp
  have d: "unat (256 ^ (32 - n) :: hash) = 256 ^ (32 - n)"
  proof -
    have "(256 :: nat) ^ (32 - n) < 256 ^ 32" using False assms by (intro power_strict_increasing) auto
    then have "(256 :: nat) ^ (32 - n) mod 2 ^ 256 = 256 ^ (32 - n)" by simp
    then have "unat (word_of_nat (256 ^ (32 - n)) :: hash) = 256 ^ (32 - n)" by (simp only: unat_of_nat) simp
    then show ?thesis by simp
  qed
  then have "(256 ^ (32 - n) :: hash) \<noteq> 0" by (metis unat_0 power_not_zero zero_neq_numeral)
  then have "unat (evm_top (mload M p) n) = unat (mload M p) div 256 ^ (32 - n)"
    by (simp add: evm_top_def unat_div d)
  with w small show ?thesis by simp
qed (simp add: evm_top_def)

lemma length_of_length_bound: "0 < i \<Longrightarrow> len < i * 256 ^ length_of_length len i"
proof (induction len i rule: length_of_length.induct)
  case (1 len i)
  show ?case
  proof (cases "len div i \<noteq> 0")
    case True
    with 1 show ?thesis by (subst length_of_length.simps) (simp add: mult.assoc)
  next
    case False
    with 1 show ?thesis by (subst length_of_length.simps) (simp add: div_eq_0_iff)
  qed
qed

lemma length_of_length_le: "len < i * 256 ^ m \<Longrightarrow> length_of_length len i \<le> m"
proof (induction m arbitrary: i)
  case 0
  then show ?case by (subst length_of_length.simps) simp
next
  case (Suc m)
  then show ?case by (subst length_of_length.simps) (simp add: mult.assoc)
qed

lemma length_of_length_pos: "1 \<le> len \<Longrightarrow> 1 \<le> length_of_length len 1"
  by (subst length_of_length.simps) simp

lemma length_digits: "map (\<lambda>i. word_of_nat (len div 256 ^ (n - i) mod 256)) [1..<n + 1] = be_bytes n len"
proof (rule nth_equalityI)
  fix i assume "i < length (map (\<lambda>i. word_of_nat (len div 256 ^ (n - i) mod 256) :: byte) [1..<n + 1])"
  then have "i < n" by (simp del: upt_Suc)
  moreover have "(word_of_nat (x mod 256) :: byte) = word_of_nat x" for x by (simp add: word_unat_eq_iff unat_of_nat)
  ultimately show "map (\<lambda>i. word_of_nat (len div 256 ^ (n - i) mod 256)) [1..<n + 1] ! i = be_bytes n len ! i"
    by (simp add: nth_be_bytes nth_upt del: upt_Suc)
qed (simp del: upt_Suc)

text \<open>A byte string stands at an address.\<close>

definition holds :: "memory \<Rightarrow> nat \<Rightarrow> bytes \<Rightarrow> bool" where
  "holds M p bs \<longleftrightarrow> map M [p..<p + length bs] = bs"

lemma holds_Cons: "holds M p (b # bs) \<longleftrightarrow> M p = b \<and> holds M (p + 1) bs"
proof -
  have "[p..<p + length (b # bs)] = p # [p + 1..<p + 1 + length bs]" by (simp add: upt_conv_Cons del: upt_Suc)
  then show ?thesis by (simp add: holds_def del: upt_Suc)
qed

lemma holds_append: "holds M p (as @ bs) \<longleftrightarrow> holds M p as \<and> holds M (p + length as) bs"
  by (induction as arbitrary: p) (simp_all add: holds_Cons, simp add: holds_def)

definition kind_offset :: "rlp_item_type \<Rightarrow> nat" where
  "kind_offset ty = (case ty of DATA_ITEM \<Rightarrow> 128 | LIST_ITEM \<Rightarrow> 192)"

lemma unat_small_byte: "m < 256 \<Longrightarrow> unat (word_of_nat m :: byte) = m"
  by (simp add: unat_of_nat)

lemma decodeLength_short:
  assumes "len < 56" "M p = word_of_nat (len + kind_offset ty)" "1 + len \<le> n"
  shows "decodeLength \<lparr>ri_length = n, ri_ptr = p, ri_mem = M\<rparr> = Inr (1, len, ty)"
proof -
  have "unat (M p) = len + kind_offset ty"
    unfolding assms(2) using assms(1) by (intro unat_small_byte) (cases ty; simp add: kind_offset_def)
  with assms show ?thesis
    by (cases ty) (simp_all add: decodeLength_def evm_byte0_mload kind_offset_def)
qed

lemma decodeLength_long:
  assumes "1 \<le> k" "k \<le> 8" "len < 256 ^ k" "holds M p (word_of_nat (k + kind_offset ty + 55) # be_bytes k len)" "1 + k + len \<le> n"
  shows "decodeLength \<lparr>ri_length = n, ri_ptr = p, ri_mem = M\<rparr> = Inr (1 + k, len, ty)"
proof -
  have M: "M p = word_of_nat (k + kind_offset ty + 55)" "map M [p + 1..<p + 1 + k] = be_bytes k len"
    using assms(4) unfolding holds_Cons by (simp_all add: holds_def)
  have "unat (M p) = k + kind_offset ty + 55"
    unfolding M(1) using assms(2) by (intro unat_small_byte) (cases ty; simp add: kind_offset_def)
  moreover have "unat (evm_top (mload M (p + 1)) k) = len"
    unfolding evm_top_mload [OF order_trans [OF assms(2)], simplified] M(2) using assms(3) by (simp add: be_val_be_bytes)
  ultimately show ?thesis
    using assms(1,2,5) by (cases ty) (simp_all add: decodeLength_def evm_byte0_mload kind_offset_def)
qed

lemma decodeLength_written:
  assumes "writeLength len (kind_offset ty) = Inr pre" "holds M p pre" "length pre + len \<le> n" "len < 2 ^ 64"
  shows "decodeLength \<lparr>ri_length = n, ri_ptr = p, ri_mem = M\<rparr> = Inr (length pre, len, ty)"
proof (cases "len < 56")
  case True
  with assms show ?thesis by (auto simp: writeLength_def holds_Cons decodeLength_short)
next
  case False
  let ?k = "length_of_length len 1"
  have k: "1 \<le> ?k" "?k \<le> 8" "len < 256 ^ ?k"
    using False assms(4) length_of_length_bound [of 1 len]
    by (simp_all add: length_of_length_pos [simplified] length_of_length_le [of len 1 8, simplified])
  have pre: "pre = word_of_nat (?k + kind_offset ty + 55) # be_bytes ?k len"
    using assms(1) False unfolding writeLength_def Let_def length_digits by (auto split: if_splits)
  have "1 + ?k + len \<le> n" using assms(3) unfolding pre by simp
  from decodeLength_long [OF k assms(2) [unfolded pre] this] show ?thesis unfolding pre by simp
qed

lemma writeLength_defined:
  assumes "len < 2 ^ 64"
  shows "\<exists>pre. writeLength len (kind_offset ty) = Inr pre \<and> pre \<noteq> [] \<and> length pre \<le> 9"
proof -
  have "length_of_length len 1 \<le> 8" using assms by (intro length_of_length_le) simp
  then show ?thesis by (cases ty) (auto simp: writeLength_def kind_offset_def Let_def)
qed

text \<open>\<open>b\<close> is an encoding of the content \<open>c\<close>, wherever it stands and whatever follows it.\<close>

definition encoding :: "bytes \<Rightarrow> bytes \<Rightarrow> rlp_item_type \<Rightarrow> bool" where
  "encoding b c ty \<longleftrightarrow> b \<noteq> [] \<and> (\<exists>pre. b = pre @ c
     \<and> (\<forall>M p n. holds M p b \<and> length b \<le> n
          \<longrightarrow> decodeLength \<lparr>ri_length = n, ri_ptr = p, ri_mem = M\<rparr> = Inr (length pre, length c, ty)))"

definition item_of :: "rlp_item \<Rightarrow> bytes \<Rightarrow> bool" where
  "item_of r b \<longleftrightarrow> holds (ri_mem r) (ri_ptr r) b \<and> ri_length r = length b"

lemma encoding_decode:
  assumes "encoding b c ty" "holds M p b" "length b \<le> n"
  obtains pre where "b = pre @ c" "decodeLength \<lparr>ri_length = n, ri_ptr = p, ri_mem = M\<rparr> = Inr (length pre, length c, ty)"
  using assms unfolding encoding_def by blast

lemma encoding_nonempty: "encoding b c ty \<Longrightarrow> b \<noteq> []"
  by (simp add: encoding_def)

lemma encoding_prefixed:
  assumes "writeLength (length c) (kind_offset ty) = Inr pre" "length c < 2 ^ 64"
  shows "encoding (pre @ c) c ty"
proof -
  have "pre \<noteq> []" using writeLength_defined [OF assms(2), of ty] assms(1) by auto
  then show ?thesis
    unfolding encoding_def using decodeLength_written [OF assms(1) _ _ assms(2)]
    by (auto simp: holds_append)
qed

lemma writeBytes_encoding:
  assumes "length bs < 2 ^ 64"
  shows "\<exists>b. writeBytes bs = Inr b \<and> encoding b bs DATA_ITEM \<and> length b \<le> length bs + 9"
proof (cases "length bs = 1 \<and> bs ! 0 < 128")
  case True
  then obtain x where x: "bs = [x]" "x < 128" by (cases bs) auto
  then have "unat x \<le> 0x7f" by (simp add: word_less_nat_alt)
  then have "encoding [x] [x] DATA_ITEM"
    unfolding encoding_def by (auto simp: holds_Cons decodeLength_def evm_byte0_mload)
  with x show ?thesis by (auto simp: writeBytes_def)
next
  case False
  obtain pre where pre: "writeLength (length bs) (kind_offset DATA_ITEM) = Inr pre" "length pre \<le> 9"
    using writeLength_defined [OF assms] by blast
  with False have "writeBytes bs = Inr (pre @ bs)" unfolding writeBytes_def by (auto simp: kind_offset_def)
  with encoding_prefixed [OF pre(1) assms] pre(2) show ?thesis by simp
qed

lemma flatten_loop_eq:
  "flatten_loop beyond items p D = (\<lambda>i. if p \<le> i \<and> i < p + length (concat items) then concat items ! (i - p) else D i)"
proof (induction items arbitrary: p D)
  case (Cons item items)
  have "array_mem beyond item (32 + i - p) = item ! (i - p)" if "p \<le> i" "i - p < length item" for i
    using that array_mem_nth [of "i - p" item beyond] by simp
  then show ?case
    unfolding flatten_loop.simps Cons.IH memcpy_eq
    by (auto simp: fun_eq_iff nth_append)
qed (auto simp: fun_eq_iff)

lemma flatten_eq: "flatten beyond items = concat items"
proof -
  have "sum_list (map length items) = length (concat items)" by (simp add: length_concat)
  then show ?thesis
    by (cases items) (auto simp: flatten_def Let_def mem_bytes_def flatten_loop_eq intro!: nth_equalityI)
qed

lemma writeList_encoding:
  assumes "length (concat es) < 2 ^ 64"
  shows "\<exists>b. writeList beyond es = Inr b \<and> encoding b (concat es) LIST_ITEM"
proof -
  obtain pre where pre: "writeLength (length (concat es)) (kind_offset LIST_ITEM) = Inr pre"
    using writeLength_defined [OF assms] by blast
  then have "writeList beyond es = Inr (pre @ concat es)"
    unfolding writeList_def Let_def flatten_eq by (simp add: kind_offset_def)
  with encoding_prefixed [OF pre assms] show ?thesis by blast
qed

lemma item_of_array: "item_of (toRLPItem beyond b) b"
  by (auto simp: item_of_def toRLPItem_def holds_def array_mem_nth intro!: nth_equalityI)

lemma item_of_select: "item_of r b \<Longrightarrow> r = \<lparr>ri_length = length b, ri_ptr = ri_ptr r, ri_mem = ri_mem r\<rparr>"
  by (simp add: item_of_def)

lemma item_of_decode:
  assumes "item_of r b" "encoding b c ty"
  obtains pre where "b = pre @ c" "decodeLength r = Inr (length pre, length c, ty)"
proof -
  have "holds (ri_mem r) (ri_ptr r) b" using assms(1) by (simp add: item_of_def)
  from encoding_decode [OF assms(2) this order_refl] that show thesis
    by (subst (asm) item_of_select [OF assms(1), symmetric]) blast
qed

lemma readBytes_item:
  assumes "item_of r b" "encoding b c DATA_ITEM"
  shows "readBytes beyond r = Inr c"
  using assms
proof (rule item_of_decode)
  fix pre assume pre: "b = pre @ c" "decodeLength r = Inr (length pre, length c, DATA_ITEM)"
  have "holds (ri_mem r) (ri_ptr r + length pre) c"
    using assms(1) by (simp add: item_of_def pre(1) holds_append)
  then have "map (ri_mem r) [ri_ptr r + length pre..<ri_ptr r + length pre + length c] = c" by (simp add: holds_def)
  then show ?thesis by (simp add: readBytes_def pre(2) copy_bytes_eq)
qed

lemma readRawBytes_item: "item_of r b \<Longrightarrow> readRawBytes beyond r = b"
  by (simp add: item_of_def readRawBytes_def copy_bytes_eq holds_def)

text \<open>Reading the items of a list one by one; the reader refuses more than 32 of them.\<close>

lemma readList_loop_items:
  assumes "\<forall>e \<in> set es. \<exists>c ty. encoding e c ty" "holds (ri_mem r) (ri_ptr r + offset) (concat es)"
    "offset + length (concat es) = ri_length r" "length out + length es \<le> MAX_LIST_LENGTH"
  shows "\<exists>rs. readList_loop r offset out = Inr (out @ rs) \<and> list_all2 item_of rs es"
  using assms
proof (induction es arbitrary: offset out)
  case Nil
  then show ?case by (subst readList_loop.simps) simp
next
  case (Cons e es)
  obtain c ty where enc: "encoding e c ty" using Cons.prems(1) by auto
  have e: "holds (ri_mem r) (ri_ptr r + offset) e" "holds (ri_mem r) (ri_ptr r + (offset + length e)) (concat es)"
    using Cons.prems(2) by (simp_all add: holds_append add.assoc)
  let ?item = "r\<lparr>ri_length := length e, ri_ptr := ri_ptr r + offset\<rparr>"
  have "length e \<le> ri_length r - offset" "0 < length e" using Cons.prems(3) encoding_nonempty [OF enc] by auto
  with encoding_decode [OF enc e(1)] obtain pre where
    pre: "e = pre @ c" "decodeLength \<lparr>ri_length = ri_length r - offset, ri_ptr = ri_ptr r + offset, ri_mem = ri_mem r\<rparr>
      = Inr (length pre, length c, ty)" by blast
  have dec: "decodeLength (r\<lparr>ri_length := ri_length r - offset, ri_ptr := ri_ptr r + offset\<rparr>) = Inr (length pre, length c, ty)"
    using pre(2) by (cases r) simp
  have "offset < ri_length r" "length out < MAX_LIST_LENGTH" 
    using Cons.prems(3,4) \<open>0 < length e\<close> by (simp_all del: length_greater_0_conv)
  moreover have "length pre + length c = length e" by (simp add: pre(1))
  ultimately have step: "readList_loop r offset out = readList_loop r (offset + length e) (out @ [?item])"
    using dec by (subst readList_loop.simps) (simp add: add.commute [of "length c"])
  obtain rs where "readList_loop r (offset + length e) (out @ [?item]) = Inr ((out @ [?item]) @ rs)" "list_all2 item_of rs es"
    using Cons.IH [of "offset + length e" "out @ [?item]"] Cons.prems e(2) by (auto simp: add.assoc)
  moreover have "item_of ?item e" using e(1) by (simp add: item_of_def)
  ultimately show ?case unfolding step by (intro exI [of _ "?item # rs"]) simp
qed

lemma readList_items:
  assumes "item_of r b" "encoding b (concat es) LIST_ITEM" "\<forall>e \<in> set es. \<exists>c ty. encoding e c ty"
    "length es \<le> MAX_LIST_LENGTH"
  shows "\<exists>rs. readList r = Inr rs \<and> list_all2 item_of rs es"
  using assms(1,2)
proof (rule item_of_decode)
  fix pre assume pre: "b = pre @ concat es" "decodeLength r = Inr (length pre, length (concat es), LIST_ITEM)"
  have "holds (ri_mem r) (ri_ptr r + length pre) (concat es)" "length pre + length (concat es) = ri_length r"
    using assms(1) by (simp_all add: item_of_def pre(1) holds_append)
  from readList_loop_items [OF assms(3) this, of "[]"] assms(4) show ?thesis
    by (simp add: readList_def pre(2))
qed

section \<open>Round trips\<close>

lemma map_writeBytes:
  assumes "\<forall>x \<in> set xs. length x < 2 ^ 64"
  obtains es where "map writeBytes xs = map Inr es" "list_all2 (\<lambda>e x. encoding e x DATA_ITEM) es xs"
    "length (concat es) \<le> length (concat xs) + 9 * length xs"
  using assms
proof (induction xs arbitrary: thesis)
  case (Cons x xs)
  obtain e where e: "writeBytes x = Inr e" "encoding e x DATA_ITEM" "length e \<le> length x + 9"
    using writeBytes_encoding Cons.prems(2) by force
  show ?case
  proof (rule Cons.IH)
    fix es assume "map writeBytes xs = map Inr es" "list_all2 (\<lambda>e x. encoding e x DATA_ITEM) es xs"
      "length (concat es) \<le> length (concat xs) + 9 * length xs"
    with e show thesis by (intro Cons.prems(1) [of "e # es"]) simp_all
  qed (use Cons.prems(2) in simp)
qed simp

lemma map_readBytes:
  assumes "list_all2 item_of rs es" "list_all2 (\<lambda>e x. encoding e x DATA_ITEM) es xs"
  shows "map (readBytes beyond) rs = map Inr xs"
  using assms
proof (induction rs es arbitrary: xs rule: list_all2_induct)
  case (Cons r rs e es)
  then show ?case by (cases xs) (auto simp: readBytes_item)
qed simp

lemma rlp_list_read:
  assumes "length xs \<le> MAX_LIST_LENGTH" and "length (concat xs) < 2 ^ 63"
  shows "\<exists>es b items. map writeBytes xs = map Inr es \<and> writeList beyond es = Inr b
    \<and> readList (toRLPItem beyond' b) = Inr items \<and> map (readBytes beyond'') items = map Inr xs"
proof (rule map_writeBytes)
  show "\<forall>x \<in> set xs. length x < 2 ^ 64"
  proof
    fix x assume "x \<in> set xs"
    then have "length x \<le> length (concat xs)" by (simp add: length_concat member_le_sum_list)
    also have "\<dots> < 2 ^ 64" using assms(2) by simp
    finally show "length x < 2 ^ 64" .
  qed
next
  fix es assume es: "map writeBytes xs = map Inr es" "list_all2 (\<lambda>e x. encoding e x DATA_ITEM) es xs"
    "length (concat es) \<le> length (concat xs) + 9 * length xs"
  have "length es \<le> MAX_LIST_LENGTH" using assms(1) list_all2_lengthD [OF es(2)] by simp
  moreover have "length (concat es) < 2 ^ 64" using es(3) assms unfolding MAX_LIST_LENGTH_def by simp
  then obtain b where b: "writeList beyond es = Inr b" "encoding b (concat es) LIST_ITEM"
    using writeList_encoding by blast
  moreover have "\<forall>e \<in> set es. \<exists>c ty. encoding e c ty"
    using es(2) by (fastforce simp: list_all2_conv_all_nth in_set_conv_nth)
  ultimately obtain items where "readList (toRLPItem beyond' b) = Inr items" "list_all2 item_of items es"
    using readList_items [OF item_of_array b(2)] by blast
  with es b map_readBytes [of items es xs beyond''] show ?thesis by blast
qed

text \<open>
  C23. What the RLP writer writes, the reader reads: a list of up to 32 byte strings (with together less than 2^63 bytes)
  is written without an error, and reading the list and then its items gives the strings back, whatever
  else the memory holds.
\<close>

theorem rlp_list_roundtrip:
  assumes "length xs \<le> MAX_LIST_LENGTH" and "length (concat xs) < 2 ^ 63"
  shows "\<exists>es b items. map writeBytes xs = map Inr es \<and> writeList beyond es = Inr b
    \<and> readList (toRLPItem beyond' b) = Inr items \<and> map (readBytes beyond'') items = map Inr xs"
  using assms by (rule rlp_list_read)

theorem rlp_list_roundtrip_witness:
  "\<exists>es b items. map writeBytes [[5], [], [200, 1]] = map Inr es \<and> writeList (\<lambda>i. 0) es = Inr b
    \<and> readList (toRLPItem (\<lambda>i. 7) b) = Inr items \<and> map (readBytes (\<lambda>i. 9)) items = map Inr [[5], [], [200, 1]]"
  by (rule rlp_list_roundtrip) (simp_all add: MAX_LIST_LENGTH_def)

lemma be_val_dropWhile: "be_val (dropWhile (\<lambda>b. b = 0) bs) = be_val bs"
proof (induction bs)
  case (Cons b bs)
  show ?case
  proof (cases "b = 0")
    case True
    then show ?thesis using Cons be_val_replicate_zero [of 1 bs] by simp
  qed simp
qed simp

lemma unat_readBytes32:
  assumes "item_of r b" "encoding b c DATA_ITEM" "length b \<le> 33" "length c \<le> 32"
  shows "readBytes32 r = Inr (bytes_word c)"
  using assms(1,2)
proof (rule item_of_decode)
  fix pre assume pre: "b = pre @ c" "decodeLength r = Inr (length pre, length c, DATA_ITEM)"
  have "holds (ri_mem r) (ri_ptr r + length pre) c"
    using assms(1) by (simp add: item_of_def pre(1) holds_append)
  then have c: "map (ri_mem r) [ri_ptr r + length pre..<ri_ptr r + length pre + length c] = c" by (simp add: holds_def)
  have "(if length c < 32 then evm_top (mload (ri_mem r) (ri_ptr r + length pre)) (length c) else mload (ri_mem r) (ri_ptr r + length pre))
      = bytes_word c"
  proof (cases "length c < 32")
    case True
    then have "unat (evm_top (mload (ri_mem r) (ri_ptr r + length pre)) (length c)) = be_val c"
      using evm_top_mload [of "length c" "ri_mem r" "ri_ptr r + length pre"] c by simp
    moreover have "be_val c < 256 ^ 32" by (rule less_le_trans [OF be_val_less]) (use assms(4) in \<open>intro power_increasing; simp\<close>)
    then have "unat (bytes_word c :: hash) = be_val c" by (simp add: bytes_word_def unat_of_nat)
    ultimately show ?thesis using True by (simp add: word_unat_eq_iff)
  next
    case False
    then have "length c = 32" using assms(4) by simp
    with c show ?thesis by (simp add: mload_def)
  qed
  moreover have "ri_length r \<le> 33" using assms(1,3) by (simp add: item_of_def)
  ultimately show ?thesis by (simp add: readBytes32_def pre(2) Let_def)
qed

lemma writeUint_read:
  assumes "x < 2 ^ 256"
  shows "\<exists>b. writeUint x = Inr b \<and> readUint256 (toRLPItem beyond b) = Inr x"
proof -
  have len: "length (toBinary x) \<le> 32" using length_dropWhile_le [of "\<lambda>b. b = 0" "be_bytes 32 x"] by (simp add: toBinary_def)
  have val: "be_val (toBinary x) = x" using assms by (simp add: toBinary_def be_val_dropWhile be_val_be_bytes)
  have "\<exists>b. writeBytes (toBinary x) = Inr b \<and> encoding b (toBinary x) DATA_ITEM \<and> length b \<le> 33"
  proof -
    obtain b where b: "writeBytes (toBinary x) = Inr b" "encoding b (toBinary x) DATA_ITEM"
      using writeBytes_encoding [of "toBinary x"] len by force
    then have "length b \<le> 33" using len by (auto simp: writeBytes_def writeLength_def split: if_splits)
    with b show ?thesis by blast
  qed
  then obtain b where b: "writeBytes (toBinary x) = Inr b" "encoding b (toBinary x) DATA_ITEM" "length b \<le> 33" by blast
  have "readBytes32 (toRLPItem beyond b) = Inr (bytes_word (toBinary x))"
    by (rule unat_readBytes32 [OF item_of_array b(2,3) len])
  moreover have "unat (bytes_word (toBinary x) :: hash) = x" using assms by (simp add: bytes_word_def val unat_of_nat)
  ultimately show ?thesis using b(1) by (simp add: writeUint_def readUint256_def)
qed

lemma writeAddress_read: "\<exists>b. writeAddress a = Inr b \<and> readAddress (toRLPItem beyond b) = Inr a"
proof -
  have w: "writeAddress a = Inr (0x94 # word_bytes a)"
    by (simp add: writeAddress_def writeBytes_def writeLength_def)
  then have enc: "encoding (0x94 # word_bytes a) (word_bytes a) DATA_ITEM"
    using writeBytes_encoding [of "word_bytes a"] by (auto simp: writeAddress_def)
  have "readBytes32 (toRLPItem beyond (0x94 # word_bytes a)) = Inr (bytes_word (word_bytes a))"
    by (rule unat_readBytes32 [OF item_of_array enc]) simp_all
  moreover have "word_of_nat (unat (bytes_word (word_bytes a) :: hash)) = a"
  proof -
    have "unat a < 2 ^ 160" using unsigned_less [of a, where ?'a = nat] by simp
    then have "unat a < 2 ^ 256" by simp
    moreover have "be_val (word_bytes a) = unat a" by (rule be_val_word_bytes) simp
    ultimately have "unat (bytes_word (word_bytes a) :: hash) = unat a"
      unfolding bytes_word_def by (simp only: unat_of_nat) simp
    then show ?thesis by simp
  qed
  ultimately show ?thesis using w by (simp add: readAddress_def readUint256_def toRLPItem_def)
qed

text \<open>The reader refuses what the writer writes for \<open>False\<close>.\<close>

lemma writeBool_read:
  "readBool (toRLPItem beyond (writeBool True)) = Inr True"
  "readBool (toRLPItem beyond (writeBool False)) = Inl ''invalid RLP boolean value, must be 0 or 1''"
  by (simp_all add: readBool_def toRLPItem_def writeBool_def evm_byte0_mload array_mem_def)

end
