(* ===== verification/Merkle_Trie.thy ===== *)
theory Merkle_Trie
  imports RLP L1_Info
begin

text \<open>
  Verification of Merkle-Patricia proofs on L1: \<^verbatim>\<open>libraries/trie/MerkleTrie.sol\<close> and
  \<^verbatim>\<open>libraries/trie/SecureMerkleTrie.sol\<close> under \<^verbatim>\<open>packages/contracts-bedrock/contracts\<close>. The argument \<open>beyond\<close> is
  what follows an array in memory. The second half specifies tries and proves the verification sound and complete.
\<close>

lemma map_sum_eq_Inr [simp]: "map_sum f g x = Inr y \<longleftrightarrow> (\<exists>z. x = Inr z \<and> y = g z)"
  by (cases x) auto

section \<open>Walking a proof\<close>

record trie_node =
  tn_encoded :: bytes
  tn_decoded :: "rlp_item list"

definition TREE_RADIX :: nat where "TREE_RADIX = 16"
definition BRANCH_NODE_LENGTH :: nat where "BRANCH_NODE_LENGTH = TREE_RADIX + 1"
definition LEAF_OR_EXTENSION_NODE_LENGTH :: nat where "LEAF_OR_EXTENSION_NODE_LENGTH = 2"

text \<open>\<^verbatim>\<open>bytes32(b)\<close> takes the first 32 bytes and pads with zeros on the right.\<close>

definition bytes32 :: "bytes \<Rightarrow> hash" where
  "bytes32 bs = bytes_word (take 32 (bs @ replicate 32 0))"

definition RLP_NULL :: hash where "RLP_NULL = bytes32 [0x80]"

fun parse_nodes :: "memory \<Rightarrow> rlp_item list \<Rightarrow> cause + trie_node list" where
  "parse_nodes beyond [] = Inr []"
| "parse_nodes beyond (node # nodes) =
    (case readBytes beyond node of Inl e \<Rightarrow> Inl e | Inr encoded \<Rightarrow>
     case readList (toRLPItem beyond encoded) of Inl e \<Rightarrow> Inl e | Inr decoded \<Rightarrow>
     case parse_nodes beyond nodes of Inl e \<Rightarrow> Inl e | Inr proof_nodes \<Rightarrow>
       Inr (\<lparr>tn_encoded = encoded, tn_decoded = decoded\<rparr> # proof_nodes))"

definition parseProof :: "memory \<Rightarrow> bytes \<Rightarrow> cause + trie_node list" where
  "parseProof beyond prv =
    (case readList (toRLPItem beyond prv) of Inl e \<Rightarrow> Inl e | Inr nodes \<Rightarrow> parse_nodes beyond nodes)"

definition getNodeID :: "memory \<Rightarrow> rlp_item \<Rightarrow> cause + hash" where
  "getNodeID beyond node =
    (if ri_length node < 32 then Inr (bytes32 (readRawBytes beyond node))
     else map_sum id bytes32 (readBytes beyond node))"

definition getNodePath :: "memory \<Rightarrow> trie_node \<Rightarrow> cause + bytes" where
  "getNodePath beyond node = map_sum id toNibbles (readBytes beyond (tn_decoded node ! 0))"

definition getNodeValue :: "memory \<Rightarrow> trie_node \<Rightarrow> cause + bytes" where
  "getNodeValue beyond node =
    (if length (tn_decoded node) = 0 then Inl ''arithmetic underflow''
     else readBytes beyond (tn_decoded node ! (length (tn_decoded node) - 1)))"

fun getSharedNibbleLength :: "bytes \<Rightarrow> bytes \<Rightarrow> nat" where
  "getSharedNibbleLength (x # xs) (y # ys) = (if x = y then Suc (getSharedNibbleLength xs ys) else 0)"
| "getSharedNibbleLength _ _ = 0"

text \<open>The check of a node against the identifier its parent names, the first node being the root.\<close>

definition check_node :: "keccak \<Rightarrow> hash \<Rightarrow> nat \<Rightarrow> bytes \<Rightarrow> cause option" where
  "check_node keccak256 currentNodeID currentKeyIndex encoded =
    (if currentKeyIndex = 0 then
       if keccak256 encoded = currentNodeID then None else Some ''invalid root hash''
     else if length encoded \<ge> 32 then
       if keccak256 encoded = currentNodeID then None else Some ''invalid large internal hash''
     else if bytes32 encoded = currentNodeID then None else Some ''invalid internal node hash'')"

text \<open>
  The loop: the remaining nodes, the identifier expected next, the key index, its increment and the path length. The
  result is the final path length, key index and node identifier.
\<close>

fun walk :: "memory \<Rightarrow> keccak \<Rightarrow> bytes \<Rightarrow> trie_node list \<Rightarrow> hash \<Rightarrow> nat \<Rightarrow> nat \<Rightarrow> nat \<Rightarrow> cause + nat \<times> nat \<times> hash" where
  "walk beyond keccak256 key [] currentNodeID currentKeyIndex currentKeyIncrement pathLength =
     Inr (pathLength, currentKeyIndex, currentNodeID)"
| "walk beyond keccak256 key (currentNode # nodes) currentNodeID keyIndex currentKeyIncrement pathLen =
    (let currentKeyIndex = keyIndex + currentKeyIncrement; pathLength = pathLen + 1 in
     case check_node keccak256 currentNodeID currentKeyIndex (tn_encoded currentNode) of
       Some e \<Rightarrow> Inl e
     | None \<Rightarrow>
     if length (tn_decoded currentNode) = BRANCH_NODE_LENGTH then
       if currentKeyIndex = length key then Inr (pathLength, currentKeyIndex, currentNodeID)
       else if \<not> currentKeyIndex < length key then Inl ''index out of bounds''
       else (case getNodeID beyond (tn_decoded currentNode ! unat (key ! currentKeyIndex)) of
          Inl e \<Rightarrow> Inl e
        | Inr nodeID \<Rightarrow> walk beyond keccak256 key nodes nodeID currentKeyIndex 1 pathLength)
     else if length (tn_decoded currentNode) = LEAF_OR_EXTENSION_NODE_LENGTH then
       (case getNodePath beyond currentNode of Inl e \<Rightarrow> Inl e | Inr path \<Rightarrow>
        if path = [] then Inl ''index out of bounds''
        else let prefix = unat (path ! 0); offset = 2 - prefix mod 2 in
        case Bytes_slice beyond beyond path offset of Inl e \<Rightarrow> Inl e | Inr pathRemainder \<Rightarrow>
        case Bytes_slice beyond beyond key currentKeyIndex of Inl e \<Rightarrow> Inl e | Inr keyRemainder \<Rightarrow>
        let sharedNibbleLength = getSharedNibbleLength pathRemainder keyRemainder in
        if prefix = 2 \<or> prefix = 3 then
          if length pathRemainder = sharedNibbleLength \<and> length keyRemainder = sharedNibbleLength
          then Inr (pathLength, currentKeyIndex + sharedNibbleLength, RLP_NULL)
          else Inr (pathLength, currentKeyIndex, RLP_NULL)
        else if prefix = 0 \<or> prefix = 1 then
          if sharedNibbleLength \<noteq> length pathRemainder then Inr (pathLength, currentKeyIndex, RLP_NULL)
          else (case getNodeID beyond (tn_decoded currentNode ! 1) of
             Inl e \<Rightarrow> Inl e
           | Inr nodeID \<Rightarrow> walk beyond keccak256 key nodes nodeID currentKeyIndex sharedNibbleLength pathLength)
        else Inl ''received a node with an unknown prefix'')
     else Inl ''received an unparseable node'')"

definition walkNodePath :: "memory \<Rightarrow> keccak \<Rightarrow> trie_node list \<Rightarrow> bytes \<Rightarrow> hash \<Rightarrow> cause + nat \<times> bytes \<times> bool" where
  "walkNodePath beyond keccak256 prv key0 root =
    (let key = toNibbles key0 in
     case walk beyond keccak256 key prv root 0 0 0 of Inl e \<Rightarrow> Inl e | Inr (pathLength, currentKeyIndex, currentNodeID) \<Rightarrow>
     let isFinalNode = (currentNodeID = RLP_NULL) in
     case Bytes_slice beyond beyond key currentKeyIndex of Inl e \<Rightarrow> Inl e | Inr keyRemainder \<Rightarrow>
       Inr (pathLength, keyRemainder, isFinalNode))"

section \<open>The library functions\<close>

definition MerkleTrie_get :: "memory \<Rightarrow> keccak \<Rightarrow> bytes \<Rightarrow> bytes \<Rightarrow> hash \<Rightarrow> cause + bool \<times> bytes" where
  "MerkleTrie_get beyond keccak256 key prv root =
    (case parseProof beyond prv of Inl e \<Rightarrow> Inl e | Inr nodes \<Rightarrow>
     case walkNodePath beyond keccak256 nodes key root of Inl e \<Rightarrow> Inl e | Inr (pathLength, keyRemainder, isFinalNode) \<Rightarrow>
     let exists = (length keyRemainder = 0) in
     if \<not> (exists \<or> isFinalNode) then Inl ''provided proof is invalid''
     else if exists then
       if pathLength = 0 then Inl ''arithmetic underflow''
       else map_sum id (\<lambda>value. (True, value)) (getNodeValue beyond (nodes ! (pathLength - 1)))
     else Inr (False, []))"

definition MerkleTrie_verifyInclusionProof :: "memory \<Rightarrow> keccak \<Rightarrow> bytes \<Rightarrow> bytes \<Rightarrow> bytes \<Rightarrow> hash \<Rightarrow> cause + bool" where
  "MerkleTrie_verifyInclusionProof beyond keccak256 key val prv root =
     map_sum id (\<lambda>(exists, value). exists \<and> Bytes_equal keccak256 val value) (MerkleTrie_get beyond keccak256 key prv root)"

definition getSecureKey :: "keccak \<Rightarrow> bytes \<Rightarrow> bytes" where
  "getSecureKey keccak256 key = word_bytes (keccak256 key)"

definition SecureMerkleTrie_verifyInclusionProof :: "memory \<Rightarrow> keccak \<Rightarrow> bytes \<Rightarrow> bytes \<Rightarrow> bytes \<Rightarrow> hash \<Rightarrow> cause + bool" where
  "SecureMerkleTrie_verifyInclusionProof beyond keccak256 key val prv root =
     MerkleTrie_verifyInclusionProof beyond keccak256 (getSecureKey keccak256 key) val prv root"

definition SecureMerkleTrie_get :: "memory \<Rightarrow> keccak \<Rightarrow> bytes \<Rightarrow> bytes \<Rightarrow> hash \<Rightarrow> cause + bool \<times> bytes" where
  "SecureMerkleTrie_get beyond keccak256 key prv root =
     MerkleTrie_get beyond keccak256 (getSecureKey keccak256 key) prv root"

section \<open>Tries\<close>

text \<open>
  A trie over keys of a fixed number of nibbles, so that branches carry no value. Paths are nibbles.
\<close>

datatype trie = Leaf bytes bytes | Extension bytes trie | Branch "trie option list"

fun lookup_trie :: "trie \<Rightarrow> bytes \<Rightarrow> bytes option" where
  "lookup_trie (Leaf path value) key = (if key = path then Some value else None)"
| "lookup_trie (Extension path t) key =
    (if take (length path) key = path then lookup_trie t (drop (length path) key) else None)"
| "lookup_trie (Branch children) key =
    (case key of [] \<Rightarrow> None
     | nibble # key' \<Rightarrow>
         if unat nibble < length children
         then (case children ! unat nibble of None \<Rightarrow> None | Some t \<Rightarrow> lookup_trie t key')
         else None)"

text \<open>Paths are packed into bytes behind a prefix that tells leaf from extension and odd from even.\<close>

definition hex_prefix :: "byte \<Rightarrow> bytes \<Rightarrow> bytes" where
  "hex_prefix flag path = fromNibbles ((if even (length path) then [flag, 0] else [flag + 1]) @ path)"

definition rlp_bytes :: "bytes \<Rightarrow> bytes" where
  "rlp_bytes bs = (case writeBytes bs of Inl e \<Rightarrow> [] | Inr b \<Rightarrow> b)"

definition rlp_list :: "bytes list \<Rightarrow> bytes" where
  "rlp_list es = (case writeList (\<lambda>i. 0) es of Inl e \<Rightarrow> [] | Inr b \<Rightarrow> b)"

text \<open>A node that encodes to at least 32 bytes is referred to by its hash, a shorter one is embedded.\<close>

definition node_ref :: "keccak \<Rightarrow> bytes \<Rightarrow> bytes" where
  "node_ref keccak256 e = (if length e < 32 then e else rlp_bytes (word_bytes (keccak256 e)))"

fun node_items :: "keccak \<Rightarrow> trie \<Rightarrow> bytes list" where
  "node_items keccak256 (Leaf path value) = [rlp_bytes (hex_prefix 2 path), rlp_bytes value]"
| "node_items keccak256 (Extension path t) =
    [rlp_bytes (hex_prefix 0 path), node_ref keccak256 (rlp_list (node_items keccak256 t))]"
| "node_items keccak256 (Branch children) =
    map (\<lambda>c. case c of None \<Rightarrow> rlp_bytes [] | Some t \<Rightarrow> node_ref keccak256 (rlp_list (node_items keccak256 t))) children
      @ [rlp_bytes []]"

definition node_enc :: "keccak \<Rightarrow> trie \<Rightarrow> bytes" where
  "node_enc keccak256 t = rlp_list (node_items keccak256 t)"

definition trie_root :: "keccak \<Rightarrow> trie \<Rightarrow> hash" where
  "trie_root keccak256 t = keccak256 (node_enc keccak256 t)"

definition nibbles :: "bytes \<Rightarrow> bool" where
  "nibbles ns \<longleftrightarrow> (\<forall>x \<in> set ns. x < 16)"

text \<open>
  Well-formed for keys of \<open>n\<close> nibbles. An embedded leaf or extension has more than 16 bytes, which is so for every trie
  over hashed keys that is not astronomically large.
\<close>

fun wf_trie :: "keccak \<Rightarrow> nat \<Rightarrow> trie \<Rightarrow> bool" where
  "wf_trie keccak256 n (Leaf path value) \<longleftrightarrow>
     length path = n \<and> n < 2 ^ 16 \<and> nibbles path \<and> length value < 2 ^ 32
     \<and> length (node_enc keccak256 (Leaf path value)) > 16"
| "wf_trie keccak256 n (Extension path t) \<longleftrightarrow>
     path \<noteq> [] \<and> length path \<le> n \<and> n < 2 ^ 16 \<and> nibbles path \<and> wf_trie keccak256 (n - length path) t
     \<and> length (node_enc keccak256 (Extension path t)) > 16"
| "wf_trie keccak256 n (Branch children) \<longleftrightarrow>
     0 < n \<and> length children = TREE_RADIX
     \<and> (\<forall>c \<in> set children. case c of None \<Rightarrow> True | Some t \<Rightarrow> wf_trie keccak256 (n - 1) t)"

fun subtries :: "trie \<Rightarrow> trie set" where
  "subtries (Leaf path value) = {Leaf path value}"
| "subtries (Extension path t) = insert (Extension path t) (subtries t)"
| "subtries (Branch children) =
    insert (Branch children) (\<Union>c \<in> set children. case c of None \<Rightarrow> {} | Some t \<Rightarrow> subtries t)"

section \<open>Encodings of nodes\<close>

lemma rlp_bytes_encoding:
  assumes "length bs < 2 ^ 64"
  shows "encoding (rlp_bytes bs) bs DATA_ITEM" "length (rlp_bytes bs) \<le> length bs + 9"
  using writeBytes_encoding [OF assms] by (auto simp: rlp_bytes_def)

lemma rlp_list_encoding: "length (concat es) < 2 ^ 64 \<Longrightarrow> encoding (rlp_list es) (concat es) LIST_ITEM"
  using writeList_encoding [of es "\<lambda>i. 0"] by (auto simp: rlp_list_def)

lemma rlp_list_pair: "length a + length b < 2 ^ 64 \<Longrightarrow> encoding (rlp_list [a, b]) (a @ b) LIST_ITEM"
  using rlp_list_encoding [of "[a, b]"] by simp

lemma rlp_bytes_Nil: "rlp_bytes [] = [0x80]"
  by (simp add: rlp_bytes_def writeBytes_def writeLength_def)

lemma length_rlp_hash: "length (rlp_bytes (word_bytes (h :: hash))) = 33"
  by (simp add: rlp_bytes_def writeBytes_def writeLength_def)

lemma nibble_bits: "(x :: byte) < 16 \<Longrightarrow> take_bit 4 x = x"
  by (simp add: take_bit_eq_mod word_mod_less_divisor unsigned_take_bit_eq word_less_nat_alt word_unat_eq_iff unat_mod)

lemma toNibbles_pair:
  assumes "(x :: byte) < 16" "y < 16"
  shows "drop_bit 4 (push_bit 4 x OR y) = x" "(push_bit 4 x OR y) mod 16 = y"
proof -
  note bits = nibble_bits [OF assms(1)] nibble_bits [OF assms(2)]
  have low: "bit x i \<Longrightarrow> i < 4" "bit y i \<Longrightarrow> i < 4" for i
    using arg_cong [OF bits(1), of "\<lambda>w. bit w i"] arg_cong [OF bits(2), of "\<lambda>w. bit w i"] by (auto simp: bit_take_bit_iff)
  show "drop_bit 4 (push_bit 4 x OR y) = x" by (rule bit_word_eqI) (use low in \<open>auto simp: bit_simps dest: low\<close>)
  have "(push_bit 4 x OR y) mod 16 = take_bit 4 (push_bit 4 x OR y)" by (simp add: take_bit_eq_mod)
  also have "\<dots> = y" by (rule bit_word_eqI) (auto simp: bit_simps dest: low)
  finally show "(push_bit 4 x OR y) mod 16 = y" .
qed

lemma toNibbles_fromNibbles: "even (length ns) \<Longrightarrow> nibbles ns \<Longrightarrow> toNibbles (fromNibbles ns) = ns"
proof (induction ns rule: induct_list012)
  case 1
  then show ?case by (simp add: toNibbles_def fromNibbles_def)
next
  case (3 x y ns)
  then show ?case
    unfolding fromNibbles_Cons toNibbles_Cons using toNibbles_pair [of x y] by (simp only: nibbles_def) simp
qed simp

lemma toNibbles_hex_prefix:
  assumes "nibbles path" "flag = 0 \<or> flag = 2"
  shows "toNibbles (hex_prefix flag path) = (if even (length path) then [flag, 0] else [flag + 1]) @ path"
  unfolding hex_prefix_def
  by (rule toNibbles_fromNibbles) (use assms in \<open>auto simp: nibbles_def\<close>)

lemma length_hex_prefix: "length (hex_prefix flag path) \<le> length path + 1"
  by (simp add: hex_prefix_def fromNibbles_def)

lemma nibbles_toNibbles: "nibbles (toNibbles bs)"
proof (induction bs)
  case Nil
  show ?case by (simp add: nibbles_def toNibbles_def)
next
  case (Cons b bs)
  have "drop_bit 4 b < 16" "b mod 16 < 16"
    using unat_byte_less [of b]
    by (simp_all add: word_less_nat_alt unat_drop_bit_eq unat_mod unat_div drop_bit_eq_div less_mult_imp_div_less del: unat_byte_less)
  with Cons show ?case by (simp add: nibbles_def toNibbles_Cons)
qed

lemma shared_length_eq: "getSharedNibbleLength a b = length a \<longleftrightarrow> take (length a) b = a"
  by (induction a b rule: getSharedNibbleLength.induct) auto

lemma shared_both: "length a = getSharedNibbleLength a b \<and> length b = getSharedNibbleLength a b \<longleftrightarrow> b = a"
  by (induction a b rule: getSharedNibbleLength.induct) auto

lemma shared_self [simp]: "getSharedNibbleLength a a = length a"
  by (simp add: shared_length_eq)

section \<open>Items of nodes\<close>

definition node_id :: "keccak \<Rightarrow> trie \<Rightarrow> hash" where
  "node_id keccak256 t =
    (if length (node_enc keccak256 t) < 32 then bytes32 (node_enc keccak256 t) else keccak256 (node_enc keccak256 t))"

definition encodable :: "bytes \<Rightarrow> bool" where
  "encodable e \<longleftrightarrow> (\<exists>c ty. encoding e c ty)"

lemma encodable_rlp_bytes: "length bs < 2 ^ 64 \<Longrightarrow> encodable (rlp_bytes bs)"
  unfolding encodable_def using rlp_bytes_encoding(1) by blast

lemma node_ref_ok:
  assumes "encoding e c LIST_ITEM"
  shows "encodable (node_ref kec e)" "length (node_ref kec e) \<le> 33"
  using assms length_rlp_hash [of "kec e"] encodable_rlp_bytes [of "word_bytes (kec e)"]
  by (auto simp: node_ref_def encodable_def)

lemma length_concat_le: "(\<And>x. x \<in> set xs \<Longrightarrow> length x \<le> k) \<Longrightarrow> length (concat xs) \<le> k * length xs"
  by (induction xs) (auto simp: add_mono)

lemma rlp_list_small: "length (concat es) < 2 ^ 40 \<Longrightarrow> encoding (rlp_list es) (concat es) LIST_ITEM"
  by (rule rlp_list_encoding) simp

lemma node_items_ok:
  assumes "wf_trie kec n t"
  shows "(\<forall>e \<in> set (node_items kec t). encodable e) \<and> length (node_items kec t) \<le> 17
    \<and> length (concat (node_items kec t)) < 2 ^ 40"
  using assms
proof (induction kec t arbitrary: n rule: node_items.induct)
  case (1 kec path val)
  have "length (hex_prefix 2 path) < 2 ^ 64" "length val < 2 ^ 64" using 1 length_hex_prefix [of 2 path] by simp_all
  note short = this
  show ?case
    using 1 rlp_bytes_encoding(2) [OF short(1)] rlp_bytes_encoding(2) [OF short(2)] length_hex_prefix [of 2 path]
      encodable_rlp_bytes [OF short(1)] encodable_rlp_bytes [OF short(2)] by simp
next
  case (2 kec path t)
  have enc: "encoding (rlp_list (node_items kec t)) (concat (node_items kec t)) LIST_ITEM"
    using 2 by (auto intro: rlp_list_small)
  have "length (hex_prefix 0 path) < 2 ^ 64" using 2 length_hex_prefix [of 0 path] by simp
  note short = this
  show ?case
    using 2 rlp_bytes_encoding(2) [OF short] node_ref_ok [OF enc, of kec] length_hex_prefix [of 0 path]
      encodable_rlp_bytes [OF short] by simp
next
  case (3 kec children)
  have child: "encoding (rlp_list (node_items kec t)) (concat (node_items kec t)) LIST_ITEM" if "Some t \<in> set children" for t
    using 3 that by (force intro: rlp_list_small)
  let ?item = "\<lambda>c. case c of None \<Rightarrow> rlp_bytes [] | Some t \<Rightarrow> node_ref kec (rlp_list (node_items kec t))"
  have item: "encodable (?item c)" "length (?item c) \<le> 33" if "c \<in> set children" for c
    using that node_ref_ok [OF child, of _ kec] encodable_rlp_bytes [of "[]"] by (auto simp: rlp_bytes_Nil split: option.split)
  moreover have "encodable (rlp_bytes [])" "length (rlp_bytes []) \<le> 33"
    using encodable_rlp_bytes [of "[]"] by (simp_all add: rlp_bytes_Nil)
  ultimately have items: "\<forall>e \<in> set (node_items kec (Branch children)). encodable e \<and> length e \<le> 33" by auto
  have len: "length (node_items kec (Branch children)) = 17" using 3 by (simp add: TREE_RADIX_def)
  have "length (concat (node_items kec (Branch children))) \<le> 33 * length (node_items kec (Branch children))"
    by (rule length_concat_le) (use items in blast)
  then have "length (concat (node_items kec (Branch children))) < 2 ^ 40" unfolding len by simp
  with items len show ?case by simp
qed

lemma node_enc_ok:
  assumes "wf_trie kec n t"
  shows "(\<forall>e \<in> set (node_items kec t). encodable e) \<and> length (node_items kec t) \<le> 17
    \<and> encoding (node_enc kec t) (concat (node_items kec t)) LIST_ITEM"
  using node_items_ok [OF assms] rlp_list_small by (auto simp: node_enc_def)

lemma length_node_enc: "wf_trie kec n t \<Longrightarrow> length (node_enc kec t) < 2 ^ 41"
proof -
  assume wf: "wf_trie kec n t"
  let ?c = "concat (node_items kec t)"
  have c: "length ?c < 2 ^ 40" using node_items_ok [OF wf] by blast
  then obtain pre where "writeLength (length ?c) (kind_offset LIST_ITEM) = Inr pre" "length pre \<le> 9"
    using writeLength_defined [of "length ?c" LIST_ITEM] by auto
  then have "length (node_enc kec t) \<le> length ?c + 9"
    by (simp add: node_enc_def rlp_list_def writeList_def flatten_eq kind_offset_def)
  with c show ?thesis by simp
qed

lemma bytes32_hash: "bytes32 (word_bytes (h :: hash)) = h"
  by (simp add: bytes32_def)

lemma bytes32_pad:
  assumes "bytes32 a = bytes32 b" "length a \<le> length b" "length b \<le> 32"
  shows "b = a @ replicate (length b - length a) 0"
proof -
  have "word_bytes (bytes32 x) = x @ replicate (32 - length x) 0" if "length x \<le> 32" for x
    unfolding bytes32_def using that by (subst word_bytes_bytes_word) simp_all
  then have "a @ replicate (32 - length a) 0 = b @ replicate (32 - length b) 0"
    using assms by (metis order_trans)
  then have "take (length b) (a @ replicate (32 - length a) 0) = b" by simp
  with assms(2,3) show ?thesis by (simp add: min_def split: if_splits)
qed

lemma small_slice:
  assumes "length bs < 2 ^ 20"
  shows "Bytes_slice beyond free bs start = Inr (drop start bs)"
proof (rule Bytes_slice_eq)
  have "length bs + 31 < 2 ^ 21" using assms by simp
  also have "\<dots> \<le> 2 ^ 256" by (rule power_increasing) simp_all
  finally show "length bs + 31 < 2 ^ 256" .
qed

section \<open>One step of the walk\<close>

lemma getNodeID_null: "item_of r (rlp_bytes []) \<Longrightarrow> getNodeID beyond r = Inr RLP_NULL"
  by (simp add: getNodeID_def readRawBytes_item RLP_NULL_def rlp_bytes_Nil) (simp add: item_of_def)

lemma getNodeID_child:
  assumes "item_of r (node_ref kec (node_enc kec t))"
  shows "getNodeID beyond r = Inr (node_id kec t)"
proof (cases "length (node_enc kec t) < 32")
  case True
  with assms have "item_of r (node_enc kec t)" by (simp add: node_ref_def)
  with True show ?thesis by (simp add: getNodeID_def readRawBytes_item node_id_def) (simp add: item_of_def)
next
  case False
  with assms have r: "item_of r (rlp_bytes (word_bytes (kec (node_enc kec t))))" by (simp add: node_ref_def)
  then have "ri_length r = 33" by (simp add: item_of_def length_rlp_hash)
  moreover have "readBytes beyond r = Inr (word_bytes (kec (node_enc kec t)))"
    by (rule readBytes_item [OF r rlp_bytes_encoding(1)]) simp
  ultimately show ?thesis using False by (simp add: getNodeID_def node_id_def bytes32_hash)
qed

lemma walk_Branch:
  assumes "check_node kec ID (i + inc) (tn_encoded node) = None" "list_all2 item_of (tn_decoded node) (node_items kec (Branch children))"
    "length children = TREE_RADIX" "i + inc < length key" "nibbles key"
  shows "walk beyond kec key (node # nodes) ID i inc pl
    = walk beyond kec key nodes (case children ! unat (key ! (i + inc)) of None \<Rightarrow> RLP_NULL | Some t \<Rightarrow> node_id kec t) (i + inc) 1 (pl + 1)"
proof -
  let ?n = "unat (key ! (i + inc))"
  have len: "length (tn_decoded node) = BRANCH_NODE_LENGTH"
    using list_all2_lengthD [OF assms(2)] assms(3) by (simp add: BRANCH_NODE_LENGTH_def)
  have n: "?n < 16" using assms(4,5) by (auto simp: nibbles_def word_less_nat_alt)
  then have "item_of (tn_decoded node ! ?n) (node_items kec (Branch children) ! ?n)"
    using list_all2_nthD [OF assms(2)] len by (simp add: BRANCH_NODE_LENGTH_def TREE_RADIX_def)
  then have "getNodeID beyond (tn_decoded node ! ?n) = Inr (case children ! ?n of None \<Rightarrow> RLP_NULL | Some t \<Rightarrow> node_id kec t)"
    using n assms(3) getNodeID_null getNodeID_child
    by (auto simp: nth_append TREE_RADIX_def node_enc_def split: option.splits)
  with assms(1,4) len show ?thesis by (simp add: Let_def)
qed

lemma path_of_node:
  assumes "item_of r (rlp_bytes (hex_prefix flag path))" "nibbles path" "flag = 0 \<or> flag = 2" "length path < 2 ^ 16"
  shows "map_sum id toNibbles (readBytes beyond r) = Inr ((if even (length path) then [flag, 0] else [flag + 1]) @ path)"
proof -
  have "length (hex_prefix flag path) < 2 ^ 64" using length_hex_prefix [of flag path] assms(4) by simp
  with readBytes_item [OF assms(1) rlp_bytes_encoding(1)] show ?thesis
    by (simp add: toNibbles_hex_prefix [OF assms(2,3)])
qed

lemma walk_path:
  assumes "check_node kec ID (i + inc) (tn_encoded node) = None" "list_all2 item_of (tn_decoded node) [rlp_bytes (hex_prefix flag path), e]"
    "nibbles path" "flag = 0 \<or> flag = 2" "length path < 2 ^ 16" "length key < 2 ^ 16"
  shows "walk beyond kec key (node # nodes) ID i inc pl =
    (if flag = 2 then Inr (pl + 1, if drop (i + inc) key = path then i + inc + length path else i + inc, RLP_NULL)
     else if take (length path) (drop (i + inc) key) \<noteq> path then Inr (pl + 1, i + inc, RLP_NULL)
     else case getNodeID beyond (tn_decoded node ! 1) of Inl e \<Rightarrow> Inl e
       | Inr nodeID \<Rightarrow> walk beyond kec key nodes nodeID (i + inc) (length path) (pl + 1))"
proof -
  define full where "full = (if even (length path) then [flag, 0] else [flag + 1]) @ path"
  from assms(2) obtain r0 r1 where r: "tn_decoded node = [r0, r1]" "item_of r0 (rlp_bytes (hex_prefix flag path))"
    by (auto simp: list_all2_Cons2)
  have len: "LEAF_OR_EXTENSION_NODE_LENGTH \<noteq> BRANCH_NODE_LENGTH" "length (tn_decoded node) = LEAF_OR_EXTENSION_NODE_LENGTH"
    by (simp_all add: r(1) BRANCH_NODE_LENGTH_def LEAF_OR_EXTENSION_NODE_LENGTH_def TREE_RADIX_def)
  have path: "getNodePath beyond node = Inr full" "full \<noteq> []"
    unfolding getNodePath_def full_def using path_of_node [OF r(2) assms(3-5)] r(1) by simp_all
  have p: "unat (full ! 0) = (if even (length path) then unat flag else unat flag + 1)"
    using assms(4) by (auto simp: full_def)
  have "length full < 2 ^ 20" "length key < 2 ^ 20" using assms(5,6) by (auto simp: full_def)
  moreover have "drop (2 - unat (full ! 0) mod 2) full = path" unfolding p using assms(4) by (auto simp: full_def)
  ultimately have slices: "Bytes_slice beyond beyond full (2 - unat (full ! 0) mod 2) = Inr path"
    "Bytes_slice beyond beyond key (i + inc) = Inr (drop (i + inc) key)"
    by (simp_all only: small_slice)
  show ?thesis
  proof (cases "flag = 2")
    case True
    then have "unat (full ! 0) = 2 \<or> unat (full ! 0) = 3" unfolding p by simp
    with True show ?thesis
      using shared_both [of path "drop (i + inc) key"]
      by (simp add: assms(1) len path slices Let_def)
  next
    case False
    then have "unat (full ! 0) = 0 \<or> unat (full ! 0) = 1" unfolding p using assms(4) by simp
    then have "\<not> (unat (full ! 0) = 2 \<or> unat (full ! 0) = 3)" "unat (full ! 0) = 0 \<or> unat (full ! 0) = 1" by auto
    with False show ?thesis
      using shared_length_eq [of path "drop (i + inc) key"]
      by (cases "take (length path) (drop (i + inc) key) = path")
        (simp_all add: assms(1) len path slices Let_def split: sum.split)
  qed
qed

lemma walk_Inr:
  assumes "walk beyond kec key (node # nodes) ID i inc pl = Inr r"
  shows "check_node kec ID (i + inc) (tn_encoded node) = None"
    "length (tn_decoded node) = BRANCH_NODE_LENGTH \<or> length (tn_decoded node) = LEAF_OR_EXTENSION_NODE_LENGTH"
  using assms by (auto simp: Let_def split: option.splits if_splits)

declare walk.simps(2) [simp del]

section \<open>The node found is a node of the trie\<close>

text \<open>
  What soundness needs of the hash, for the nodes of a given trie: no other input has the hash of a node; the hash of a
  long input is not an embedded node or the empty reference padded with zeros; and the hash of a long node is not a
  short list padded with zeros, since the walk does not tell hashes from embedded nodes.
\<close>

definition keccak_safe :: "memory \<Rightarrow> keccak \<Rightarrow> trie \<Rightarrow> bool" where
  "keccak_safe beyond keccak256 T \<longleftrightarrow>
     (\<forall>s \<in> subtries T. \<forall>e.
        (keccak256 e = keccak256 (node_enc keccak256 s) \<longrightarrow> e = node_enc keccak256 s)
        \<and> (length (node_enc keccak256 s) < 32 \<longrightarrow> length e \<ge> 32 \<longrightarrow> keccak256 e \<noteq> bytes32 (node_enc keccak256 s))
        \<and> (length (node_enc keccak256 s) \<ge> 32 \<longrightarrow> length e < 32 \<longrightarrow> bytes32 e = keccak256 (node_enc keccak256 s)
            \<longrightarrow> (\<forall>rs. readList (toRLPItem beyond e) \<noteq> Inr rs)))
     \<and> (\<forall>e. length e \<ge> 32 \<longrightarrow> keccak256 e \<noteq> RLP_NULL)"

lemma encoding_zero: "encoding [0] [0] DATA_ITEM"
  using rlp_bytes_encoding(1) [of "[0]"] by (simp add: rlp_bytes_def writeBytes_def)

lemma concat_replicate_single: "concat (replicate k [x]) = replicate k x"
  by (induction k) simp_all

text \<open>The reader takes zeros behind a list for further items.\<close>

lemma readList_padded:
  assumes "encoding b (concat es) LIST_ITEM" "\<forall>e \<in> set es. encodable e" "length es + k \<le> MAX_LIST_LENGTH"
  shows "\<exists>rs. readList (toRLPItem beyond (b @ replicate k 0)) = Inr rs \<and> list_all2 item_of rs (es @ replicate k [0])"
proof -
  let ?r = "toRLPItem beyond (b @ replicate k 0)" and ?es = "es @ replicate k [0]"
  have mem: "holds (ri_mem ?r) (ri_ptr ?r) (b @ replicate k 0)" and len: "ri_length ?r = length b + k"
    using item_of_array [of beyond "b @ replicate k 0"] by (simp_all add: item_of_def)
  have "holds (ri_mem ?r) (ri_ptr ?r) b" using mem by (simp add: holds_append)
  then obtain pre where pre: "b = pre @ concat es"
    "decodeLength \<lparr>ri_length = length b + k, ri_ptr = ri_ptr ?r, ri_mem = ri_mem ?r\<rparr> = Inr (length pre, length (concat es), LIST_ITEM)"
    using encoding_decode [OF assms(1), of "ri_mem ?r" "ri_ptr ?r" "length b + k"] by auto
  have "\<lparr>ri_length = length b + k, ri_ptr = ri_ptr ?r, ri_mem = ri_mem ?r\<rparr> = ?r" by (simp add: toRLPItem_def)
  with pre(2) have dec: "decodeLength ?r = Inr (length pre, length (concat es), LIST_ITEM)" by simp
  have "holds (ri_mem ?r) (ri_ptr ?r + length pre) (concat ?es)"
    using mem by (simp add: pre(1) holds_append concat_replicate_single)
  moreover have "length pre + length (concat ?es) = ri_length ?r"
    unfolding len by (simp add: pre(1) concat_replicate_single)
  moreover have "\<forall>e \<in> set ?es. \<exists>c ty. encoding e c ty" 
    using assms(2) encoding_zero unfolding encodable_def by fastforce
  ultimately have "\<exists>rs. readList_loop ?r (length pre) [] = Inr ([] @ rs) \<and> list_all2 item_of rs ?es"
    using assms(3) by (intro readList_loop_items) simp_all
  with dec show ?thesis by (simp add: readList_def)
qed

lemma short_list:
  assumes "length (rlp_list es) < 32" "rlp_list es \<noteq> []"
  shows "rlp_list es = word_of_nat (length (concat es) + 192) # concat es" "length (concat es) < 56"
proof -
  obtain pre where pre: "writeLength (length (concat es)) 192 = Inr pre" "rlp_list es = pre @ concat es"
    using assms(2) by (cases "writeLength (length (concat es)) 192") (auto simp: rlp_list_def writeList_def flatten_eq)
  then show "length (concat es) < 56" using assms(1) by auto
  with pre show "rlp_list es = word_of_nat (length (concat es) + 192) # concat es" by (auto simp: writeLength_def)
qed

lemma readList_truncated:
  assumes "length (rlp_list es) < 32" "rlp_list es = e @ z" "z \<noteq> []"
  shows "\<exists>m. readList (toRLPItem beyond e) = Inl m"
proof (cases e)
  case Nil
  then show ?thesis by (simp add: readList_def decodeLength_def toRLPItem_def)
next
  case (Cons x e')
  have b: "rlp_list es = word_of_nat (length (concat es) + 192) # concat es" "length (concat es) < 56"
    by (rule short_list [OF assms(1)], use assms(2,3) in simp)+
  then have x: "x = word_of_nat (length (concat es) + 192)" using assms(2) Cons by simp
  have "length (rlp_list es) = length e + length z" "0 < length z" using assms(2,3) by simp_all
  then have "length e \<le> length (concat es)" unfolding b(1) by (simp del: length_greater_0_conv)
  have "unat (e ! 0) = length (concat es) + 192"
    unfolding Cons x nth_Cons_0 using b(2) by (intro unat_small_byte) simp
  moreover have "evm_byte0 (mload (array_mem beyond e) 32) = unat (e ! 0)"
    using array_mem_nth [of 0 e beyond] Cons by (simp add: evm_byte0_mload)
  ultimately have "decodeLength (toRLPItem beyond e) = Inl ''invalid RLP short list''"
    using \<open>length e \<le> length (concat es)\<close> b(2) Cons by (simp add: decodeLength_def toRLPItem_def)
  then show ?thesis by (simp add: readList_def)
qed

definition expected_id :: "keccak \<Rightarrow> trie \<Rightarrow> nat \<Rightarrow> hash" where
  "expected_id keccak256 s i = (if i = 0 then trie_root keccak256 s else node_id keccak256 s)"

lemma node_items_length: "wf_trie kec n s \<Longrightarrow> length (node_items kec s) = (case s of Branch children \<Rightarrow> 17 | _ \<Rightarrow> 2)"
  by (cases s) (simp_all add: TREE_RADIX_def)

lemma length_concat_ge: "(\<And>x. x \<in> set xs \<Longrightarrow> x \<noteq> []) \<Longrightarrow> length xs \<le> length (concat xs)"
proof (induction xs)
  case (Cons x xs)
  then have "0 < length x" "length xs \<le> length (concat xs)" by simp_all
  then show ?case by (simp del: length_greater_0_conv)
qed simp

lemma node_enc_long: "wf_trie kec n s \<Longrightarrow> 16 < length (node_enc kec s)"
proof (cases s)
  case (Branch children)
  assume wf: "wf_trie kec n s"
  note ok = node_enc_ok [OF wf]
  have "e \<noteq> []" if "e \<in> set (node_items kec s)" for e
    using ok that unfolding encodable_def using encoding_nonempty by blast
  then have "length (node_items kec s) \<le> length (concat (node_items kec s))" by (rule length_concat_ge)
  then have "17 \<le> length (concat (node_items kec s))"
    using node_items_length [OF wf] Branch by (simp del: node_items.simps)
  moreover have "length (concat (node_items kec s)) \<le> length (node_enc kec s)"
    using ok by (auto simp: encoding_def)
  ultimately show ?thesis by simp
qed simp_all

lemma padded_not_parsed:
  assumes wf: "wf_trie kec n s" and "length (node_enc kec s) + k < 32" "0 < k"
    and rs: "readList (toRLPItem beyond (node_enc kec s @ replicate k 0)) = Inr rs"
  shows "length rs \<noteq> BRANCH_NODE_LENGTH \<and> length rs \<noteq> LEAF_OR_EXTENSION_NODE_LENGTH"
proof -
  note ok = node_enc_ok [OF wf]
  have long: "16 < length (node_enc kec s)" by (rule node_enc_long [OF wf])
  have "length (node_items kec s) + k \<le> MAX_LIST_LENGTH"
    using ok assms(2) long by (simp add: MAX_LIST_LENGTH_def)
  from readList_padded [OF conjunct2 [OF conjunct2 [OF ok]] conjunct1 [OF ok] this, of beyond] rs
  have "length rs = length (node_items kec s) + k" by (auto dest: list_all2_lengthD)
  with node_items_length [OF wf] assms(2,3) long show ?thesis
    by (cases s) (auto simp: BRANCH_NODE_LENGTH_def LEAF_OR_EXTENSION_NODE_LENGTH_def TREE_RADIX_def)
qed

lemma short_node:
  assumes wf: "wf_trie kec n s" and "length (node_enc kec s) < 32" "length e < 32" "bytes32 e = bytes32 (node_enc kec s)"
    and rs: "readList (toRLPItem beyond e) = Inr rs" "length rs = BRANCH_NODE_LENGTH \<or> length rs = LEAF_OR_EXTENSION_NODE_LENGTH"
  shows "e = node_enc kec s"
proof (cases "length (node_enc kec s) \<le> length e")
  case True
  define k where "k = length e - length (node_enc kec s)"
  have e: "e = node_enc kec s @ replicate k 0"
    unfolding k_def by (rule bytes32_pad) (use True assms(3,4) in simp_all)
  have "k = 0"
  proof (rule ccontr)
    assume "k \<noteq> 0"
    moreover have "length (node_enc kec s) + k < 32" using True assms(3) by (simp add: k_def)
    ultimately show False using padded_not_parsed [OF wf _ _ rs(1) [unfolded e]] rs(2) by blast
  qed
  with e show ?thesis by simp
next
  case False
  then have "node_enc kec s = e @ replicate (length (node_enc kec s) - length e) 0"
    by (intro bytes32_pad) (use assms(2,4) in simp_all)
  with readList_truncated [OF assms(2) [unfolded node_enc_def], of e _ beyond] False rs(1) show ?thesis
    by (force simp: node_enc_def)
qed

lemma node_found:
  assumes safe: "keccak_safe beyond kec T" and s: "s \<in> subtries T" and wf: "wf_trie kec n s"
    and check: "check_node kec (expected_id kec s i) i (tn_encoded node) = None"
    and rs: "readList (toRLPItem beyond (tn_encoded node)) = Inr (tn_decoded node)"
      "length (tn_decoded node) = BRANCH_NODE_LENGTH \<or> length (tn_decoded node) = LEAF_OR_EXTENSION_NODE_LENGTH"
  shows "list_all2 item_of (tn_decoded node) (node_items kec s)"
proof -
  let ?e = "tn_encoded node" and ?b = "node_enc kec s"
  have same: "kec ?e = kec ?b \<Longrightarrow> ?e = ?b"
    and long: "length ?b < 32 \<Longrightarrow> length ?e \<ge> 32 \<Longrightarrow> kec ?e \<noteq> bytes32 ?b"
    and short: "length ?b \<ge> 32 \<Longrightarrow> length ?e < 32 \<Longrightarrow> bytes32 ?e \<noteq> kec ?b"
    using safe s rs(1) unfolding keccak_safe_def by blast+
  have "?e = ?b"
  proof (cases "i = 0 \<or> length ?e \<ge> 32")
    case True
    then have "kec ?e = expected_id kec s i" using check by (auto simp: check_node_def split: if_splits)
    with True same long show ?thesis by (auto simp: expected_id_def trie_root_def node_id_def split: if_splits)
  next
    case False
    then have "bytes32 ?e = node_id kec s" using check by (auto simp: check_node_def expected_id_def split: if_splits)
    with False short short_node [OF wf _ _ _ rs] show ?thesis by (auto simp: node_id_def split: if_splits)
  qed
  moreover note ok = node_enc_ok [OF wf]
  have "length (node_items kec s) + 0 \<le> MAX_LIST_LENGTH" using ok by (simp add: MAX_LIST_LENGTH_def)
  from readList_padded [OF conjunct2 [OF conjunct2 [OF ok]] conjunct1 [OF ok] this, of beyond]
  have "\<exists>rs. readList (toRLPItem beyond ?b) = Inr rs \<and> list_all2 item_of rs (node_items kec s)" by simp
  ultimately show ?thesis using rs(1) by auto
qed

lemma null_not_found:
  assumes "keccak_safe beyond kec T" "i < length key" "walk beyond kec key nodes RLP_NULL i 1 pl = Inr (pl', i', id')" "length key \<le> i'"
    "\<forall>node \<in> set nodes. readList (toRLPItem beyond (tn_encoded node)) = Inr (tn_decoded node)"
  shows False
proof (cases nodes)
  case Nil
  with assms(2-4) show ?thesis by simp
next
  case (Cons node nodes')
  let ?e = "tn_encoded node"
  have check: "check_node kec RLP_NULL (i + 1) ?e = None"
    using walk_Inr(1) [OF assms(3) [unfolded Cons]] .
  have "length ?e < 32"
    using check assms(1) by (auto simp: check_node_def keccak_safe_def split: if_splits)
  with check have eq: "bytes32 [0x80] = bytes32 ?e" by (auto simp: check_node_def RLP_NULL_def split: if_splits)
  show ?thesis
  proof (cases ?e)
    case Nil
    then show ?thesis using bytes32_pad [OF eq [symmetric]] by simp
  next
    case e: (Cons x xs)
    then have "?e = [0x80] @ replicate (length ?e - 1) 0"
      using bytes32_pad [OF eq] \<open>length ?e < 32\<close> by simp
    then have "?e ! 0 = 0x80" by (metis append_Cons nth_Cons_0)
    then have "evm_byte0 (mload (array_mem beyond ?e) 32) = 0x80"
      using array_mem_nth [of 0 ?e beyond] e by (simp add: evm_byte0_mload)
    then have "\<exists>m. readList (toRLPItem beyond ?e) = Inl m"
      using e by (simp add: readList_def decodeLength_def toRLPItem_def)
    with assms(5) Cons show ?thesis by auto
  qed
qed

section \<open>Soundness\<close>

lemma subtries_self: "s \<in> subtries s"
  by (cases s) simp_all

lemma subtries_trans: "s \<in> subtries T \<Longrightarrow> subtries s \<subseteq> subtries T"
proof (induction T rule: subtries.induct)
  case (3 children)
  show ?case
  proof (cases "s = Branch children")
    case False
    with 3(2) obtain t where t: "Some t \<in> set children" "s \<in> subtries t" by (auto split: option.splits)
    then have "subtries s \<subseteq> subtries t" using 3(1) by blast
    with t(1) show ?thesis by force
  qed simp
qed auto

lemma child_subtrie:
  "Extension path t \<in> subtries T \<Longrightarrow> t \<in> subtries T"
  "Branch children \<in> subtries T \<Longrightarrow> Some t \<in> set children \<Longrightarrow> t \<in> subtries T"
  using subtries_trans [of "Extension path t" T] subtries_trans [of "Branch children" T] subtries_self [of t] by force+

text \<open>The steps of a walk at a leaf and at an extension.\<close>

lemma walk_at_Leaf:
  assumes wf: "wf_trie kec n (Leaf path val)" and items: "list_all2 item_of (tn_decoded node) (node_items kec (Leaf path val))"
    and key: "length key < 2 ^ 16" "length key \<le> i'" "i + inc + n = length key"
    and walk: "walk beyond kec key (node # nodes) nid i inc pl = Inr (pl', i', id')"
  shows "drop (i + inc) key = path" "pl' = pl + 1" "getNodeValue beyond node = Inr val"
proof -
  let ?i = "i + inc"
  have path: "nibbles path" "length path < 2 ^ 16" "length path = n" "length val < 2 ^ 64" using wf by auto
  have two: "list_all2 item_of (tn_decoded node) [rlp_bytes (hex_prefix 2 path), rlp_bytes val]" using items by simp
  have "walk beyond kec key (node # nodes) nid i inc pl
    = Inr (pl + 1, if drop ?i key = path then ?i + length path else ?i, RLP_NULL)"
    using walk_path [OF walk_Inr(1) [OF walk] two path(1) disjI2 [OF refl] path(2) key(1), of beyond nodes pl] by (simp only: refl if_True)
  then have "(pl + 1, if drop ?i key = path then ?i + length path else ?i, RLP_NULL) = (pl', i', id')"
    using walk by (simp only: sum.inject)
  then show "drop ?i key = path" "pl' = pl + 1" using path(3) key(2,3) by (cases path; auto split: if_splits)+
  have "getNodeValue beyond node = readBytes beyond (tn_decoded node ! 1)" "item_of (tn_decoded node ! 1) (rlp_bytes val)"
    using two by (auto simp: getNodeValue_def list_all2_Cons2)
  then show "getNodeValue beyond node = Inr val" using readBytes_item rlp_bytes_encoding(1) [OF path(4)] by simp
qed

lemma walk_at_Extension:
  assumes wf: "wf_trie kec n (Extension path t)" and items: "list_all2 item_of (tn_decoded node) (node_items kec (Extension path t))"
    and key: "length key < 2 ^ 16" "length key \<le> i'" "i + inc + n = length key"
    and walk: "walk beyond kec key (node # nodes) nid i inc pl = Inr (pl', i', id')"
  shows "i + inc < length key" "take (length path) (drop (i + inc) key) = path"
    "walk beyond kec key nodes (expected_id kec t (i + inc + length path)) (i + inc) (length path) (pl + 1) = Inr (pl', i', id')"
proof -
  let ?i = "i + inc"
  have path: "path \<noteq> []" "length path \<le> n" "nibbles path" "n < 2 ^ 16" using wf by simp_all
  then show i: "?i < length key" using key(3) by (cases path) auto
  have "getNodeID beyond (tn_decoded node ! 1) = Inr (node_id kec t)"
    by (rule getNodeID_child) (use items in \<open>auto simp: list_all2_Cons2 node_enc_def\<close>)
  then have "walk beyond kec key (node # nodes) nid i inc pl =
    (if take (length path) (drop ?i key) \<noteq> path then Inr (pl + 1, ?i, RLP_NULL)
     else walk beyond kec key nodes (node_id kec t) ?i (length path) (pl + 1))"
    using walk_path [OF walk_Inr(1) [OF walk], of 0 path] items key(1) path by simp
  with walk i show "take (length path) (drop ?i key) = path"
    "walk beyond kec key nodes (expected_id kec t (?i + length path)) ?i (length path) (pl + 1) = Inr (pl', i', id')"
    using path(1) key(2) by (auto simp: expected_id_def split: if_splits)
qed

text \<open>A walk that uses up the key ends at a node that holds the value of the key.\<close>

lemma walk_sound:
  assumes "keccak_safe beyond kec T" "nibbles key" "length key < 2 ^ 16" "length key \<le> i'"
    and "wf_trie kec n s" "s \<in> subtries T" "i + inc + n = length key" "i < length key"
    and "\<forall>node \<in> set nodes. readList (toRLPItem beyond (tn_encoded node)) = Inr (tn_decoded node)"
    and "walk beyond kec key nodes (expected_id kec s (i + inc)) i inc pl = Inr (pl', i', id')"
  shows "\<exists>j < length nodes. pl' = pl + j + 1
    \<and> (\<forall>v. getNodeValue beyond (nodes ! j) = Inr v \<longrightarrow> lookup_trie s (drop (i + inc) key) = Some v)"
  using assms(5-)
proof (induction nodes arbitrary: s n i inc pl)
  case (Cons node nodes)
  let ?i = "i + inc"
  note check = walk_Inr [OF Cons.prems(6)]
  have items: "list_all2 item_of (tn_decoded node) (node_items kec s)"
    by (rule node_found [OF assms(1) Cons.prems(2,1) check(1) _ check(2)]) (use Cons.prems(5) in simp)
  have later: ?case if ex: "\<exists>j < length nodes. pl' = pl + 1 + j + 1
      \<and> (\<forall>v. getNodeValue beyond (nodes ! j) = Inr v \<longrightarrow> lookup_trie s (drop ?i key) = Some v)"
  proof -
    obtain j where "j < length nodes" "pl' = pl + 1 + j + 1"
      "\<forall>v. getNodeValue beyond (nodes ! j) = Inr v \<longrightarrow> lookup_trie s (drop ?i key) = Some v"
      using ex by blast
    then show ?thesis by (intro exI [of _ "Suc j"]) simp
  qed
  show ?case
  proof (cases s)
    case (Leaf path val)
    from walk_at_Leaf [OF Cons.prems(1) [unfolded Leaf] items [unfolded Leaf] assms(3,4) Cons.prems(3,6)] show ?thesis
      using Leaf by (intro exI [of _ 0]) simp
  next
    case (Extension path t)
    note step = walk_at_Extension [OF Cons.prems(1) [unfolded Extension] items [unfolded Extension] assms(3,4) Cons.prems(3,6)]
    have "\<exists>j < length nodes. pl' = pl + 1 + j + 1
        \<and> (\<forall>v. getNodeValue beyond (nodes ! j) = Inr v \<longrightarrow> lookup_trie t (drop (?i + length path) key) = Some v)"
      by (rule Cons.IH [OF _ _ _ step(1) _ step(3), of "n - length path"])
        (use Cons.prems(1-3,5) Extension child_subtrie(1) in auto)
    then show ?thesis
      by (intro later) (simp add: Extension step(2) add.commute)
  next
    case (Branch children)
    let ?c = "children ! unat (key ! ?i)"
    have wf: "0 < n" "length children = TREE_RADIX" using Cons.prems(1) Branch by simp_all
    then have "?i < length key" using Cons.prems(3) by simp
    have step: "walk beyond kec key nodes (case ?c of None \<Rightarrow> RLP_NULL | Some t \<Rightarrow> node_id kec t) ?i 1 (pl + 1) = Inr (pl', i', id')"
      using walk_Branch [OF check(1) items [unfolded Branch] wf(2) \<open>?i < length key\<close> assms(2)] Cons.prems(6) Branch by simp
    have nibble: "unat (key ! ?i) < length children"
      using assms(2) \<open>?i < length key\<close> wf(2) by (auto simp: nibbles_def TREE_RADIX_def word_less_nat_alt)
    show ?thesis
    proof (cases ?c)
      case None
      then show ?thesis using null_not_found [OF assms(1) \<open>?i < length key\<close>, of nodes "pl + 1"] step Cons.prems(5) assms(4) by simp
    next
      case (Some t)
      then have t: "Some t \<in> set children" using nibble by (metis nth_mem)
      have "\<exists>j < length nodes. pl' = pl + 1 + j + 1
          \<and> (\<forall>v. getNodeValue beyond (nodes ! j) = Inr v \<longrightarrow> lookup_trie t (drop (?i + 1) key) = Some v)"
        by (rule Cons.IH [of "n - 1"])
          (use Cons.prems(1-3,5) wf(1) Branch t child_subtrie(2) [of children T] Some step \<open>?i < length key\<close> in \<open>auto simp: expected_id_def\<close>)
      moreover have "drop ?i key = key ! ?i # drop (?i + 1) key" using \<open>?i < length key\<close> by (simp add: Cons_nth_drop_Suc)
      ultimately show ?thesis by (intro later) (simp add: Branch Some nibble)
    qed
  qed
qed (use assms(4) in simp)

lemma parse_nodes_decoded:
  "parse_nodes beyond items = Inr nodes \<Longrightarrow> \<forall>node \<in> set nodes. readList (toRLPItem beyond (tn_encoded node)) = Inr (tn_decoded node)"
  by (induction items arbitrary: nodes) (auto split: sum.splits)

lemma get_sound:
  assumes "keccak_safe beyond kec T" "wf_trie kec (2 * length key) T" "key \<noteq> []" "length key < 2 ^ 15"
    and "MerkleTrie_get beyond kec key prv (trie_root kec T) = Inr (True, v)"
  shows "lookup_trie T (toNibbles key) = Some v"
proof -
  from assms(5) obtain nodes pl i' id' where parsed: "parseProof beyond prv = Inr nodes"
    and walk: "walk beyond kec (toNibbles key) nodes (trie_root kec T) 0 0 0 = Inr (pl, i', id')"
    and rest: "Bytes_slice beyond beyond (toNibbles key) i' = Inr []"
    and val: "getNodeValue beyond (nodes ! (pl - 1)) = Inr v"
    by (auto simp: MerkleTrie_get_def walkNodePath_def Let_def split: sum.splits if_splits)
  have "length (toNibbles key) \<le> i'"
    using rest assms(4) small_slice [of "toNibbles key" beyond beyond i'] by simp
  moreover have "\<forall>node \<in> set nodes. readList (toRLPItem beyond (tn_encoded node)) = Inr (tn_decoded node)"
    using parsed parse_nodes_decoded by (auto simp: parseProof_def split: sum.splits)
  moreover have "expected_id kec T (0 + 0) = trie_root kec T" by (simp add: expected_id_def)
  ultimately obtain j where "pl = 0 + j + 1" "getNodeValue beyond (nodes ! j) = Inr v \<longrightarrow> lookup_trie T (drop (0 + 0) (toNibbles key)) = Some v"
    using walk_sound [OF assms(1) nibbles_toNibbles _ _ assms(2) subtries_self, of key i' 0 0 nodes 0 pl id'] walk assms(3,4) by auto
  with val show ?thesis by simp
qed

section \<open>Completeness\<close>

text \<open>The nodes on the way to a key, embedded ones included, are its proof.\<close>

fun path_nodes :: "trie \<Rightarrow> bytes \<Rightarrow> trie list" where
  "path_nodes (Leaf path val) key = [Leaf path val]"
| "path_nodes (Extension path t) key = Extension path t # path_nodes t (drop (length path) key)"
| "path_nodes (Branch children) key =
    Branch children # (case key of [] \<Rightarrow> []
      | nibble # key' \<Rightarrow>
          if unat nibble < length children
          then (case children ! unat nibble of None \<Rightarrow> [] | Some t \<Rightarrow> path_nodes t key') else [])"

definition trie_proof :: "keccak \<Rightarrow> trie \<Rightarrow> bytes \<Rightarrow> bytes" where
  "trie_proof keccak256 t key = rlp_list (map (\<lambda>s. rlp_bytes (node_enc keccak256 s)) (path_nodes t (toNibbles key)))"

definition node_ok :: "keccak \<Rightarrow> trie_node \<Rightarrow> trie \<Rightarrow> bool" where
  "node_ok keccak256 node s \<longleftrightarrow> tn_encoded node = node_enc keccak256 s \<and> list_all2 item_of (tn_decoded node) (node_items keccak256 s)"

lemma check_node_ok: "check_node kec (expected_id kec s i) i (node_enc kec s) = None"
  by (simp add: check_node_def expected_id_def trie_root_def node_id_def)

lemma walk_complete:
  assumes "nibbles key" "length key < 2 ^ 16"
    and "wf_trie kec n s" "i + inc + n = length key" "lookup_trie s (drop (i + inc) key) = Some v"
    and "list_all2 (node_ok kec) nodes (path_nodes s (drop (i + inc) key))"
  shows "walk beyond kec key nodes (expected_id kec s (i + inc)) i inc pl = Inr (pl + length nodes, length key, RLP_NULL)
    \<and> getNodeValue beyond (last nodes) = Inr v \<and> nodes \<noteq> []"
  using assms(3-)
proof (induction nodes arbitrary: s n i inc pl)
  case Nil
  then show ?case by (cases s) simp_all
next
  case (Cons node nodes)
  let ?i = "i + inc"
  have node: "node_ok kec node s" using Cons.prems(4) by (cases s) auto
  then have items: "list_all2 item_of (tn_decoded node) (node_items kec s)"
    and check: "check_node kec (expected_id kec s ?i) ?i (tn_encoded node) = None"
    by (simp_all add: node_ok_def check_node_ok)
  show ?case
  proof (cases s)
    case (Leaf path val)
    have wf: "nibbles path" "length path < 2 ^ 16" "length path = n" "length val < 2 ^ 64" using Cons.prems(1) Leaf by auto
    have two: "list_all2 item_of (tn_decoded node) [rlp_bytes (hex_prefix 2 path), rlp_bytes val]" using items Leaf by simp
    have r: "drop ?i key = path" "val = v" "nodes = []" using Cons.prems(3,4) Leaf by (auto split: if_splits)
    have "getNodeValue beyond node = readBytes beyond (tn_decoded node ! 1)" "item_of (tn_decoded node ! 1) (rlp_bytes val)"
      using two by (auto simp: getNodeValue_def list_all2_Cons2)
    then have "getNodeValue beyond node = Inr val" using readBytes_item rlp_bytes_encoding(1) [OF wf(4)] by simp
    moreover have "?i + length path = length key" using Cons.prems(2) wf(3) by simp
    ultimately show ?thesis
      using walk_path [OF check two wf(1) disjI2 [OF refl] wf(2) assms(2), of beyond nodes pl] r by simp
  next
    case (Extension path t)
    have wf: "path \<noteq> []" "length path \<le> n" "nibbles path" "length path < 2 ^ 16" "wf_trie kec (n - length path) t"
      using Cons.prems(1) Extension by auto
    have two: "list_all2 item_of (tn_decoded node) [rlp_bytes (hex_prefix 0 path), node_ref kec (node_enc kec t)]"
      using items Extension by (simp add: node_enc_def)
    have id: "getNodeID beyond (tn_decoded node ! 1) = Inr (expected_id kec t (?i + length path))"
      using getNodeID_child [of "tn_decoded node ! 1" kec t beyond] two wf(1) by (auto simp: list_all2_Cons2 expected_id_def)
    have prefix: "take (length path) (drop ?i key) = path" and found: "lookup_trie t (drop (?i + length path) key) = Some v"
      using Cons.prems(3) Extension by (auto simp: add.commute split: if_splits)
    have "list_all2 (node_ok kec) nodes (path_nodes t (drop (?i + length path) key))"
      using Cons.prems(4) Extension by (simp add: add.commute)
    from Cons.IH [OF wf(5) _ found this, of "pl + 1"] Cons.prems(2) wf(2) show ?thesis
      using walk_path [OF check two wf(3) disjI1 [OF refl] wf(4) assms(2), of beyond nodes pl] prefix id by simp
  next
    case (Branch children)
    have wf: "0 < n" "length children = TREE_RADIX" using Cons.prems(1) Branch by simp_all
    then have i: "?i < length key" using Cons.prems(2) by simp
    then have key: "drop ?i key = key ! ?i # drop (?i + 1) key" by (simp add: Cons_nth_drop_Suc)
    obtain t where t: "unat (key ! ?i) < length children" "children ! unat (key ! ?i) = Some t" "lookup_trie t (drop (?i + 1) key) = Some v"
      using Cons.prems(3) unfolding Branch key by (auto split: if_splits option.splits)
    then have "wf_trie kec (n - 1) t" using Cons.prems(1) Branch by (metis nth_mem option.simps(5) wf_trie.simps(3))
    moreover have "list_all2 (node_ok kec) nodes (path_nodes t (drop (?i + 1) key))"
      using Cons.prems(4) t(1,2) unfolding Branch key by simp
    ultimately show ?thesis
      using Cons.IH [OF _ _ t(3), of "n - 1" "pl + 1"] Cons.prems(2) wf(1) t(2)
        walk_Branch [OF check items [unfolded Branch] wf(2) i assms(1), of beyond nodes pl]
      by (simp add: Branch expected_id_def)
  qed
qed

lemma path_nodes_wf: "wf_trie kec n t \<Longrightarrow> list_all (\<lambda>s. \<exists>m. wf_trie kec m s) (path_nodes t key)"
proof (induction t key arbitrary: n rule: path_nodes.induct)
  case (3 children key)
  have "wf_trie kec (n - 1) t" if "unat nibble < length children" "children ! unat nibble = Some t" for nibble :: byte and t
    using 3(2) that by (metis nth_mem option.simps(5) wf_trie.simps(3))
  then have "list_all (\<lambda>s. \<exists>m. wf_trie kec m s) (path_nodes t key')"
    if "key = nibble # key'" "unat nibble < length children" "children ! unat nibble = Some t" for nibble key' t
    using 3(1) that by blast
  with 3(2) show ?case by (auto simp del: wf_trie.simps split: list.split option.split)
qed auto

lemma parse_nodes_ok:
  assumes "list_all2 item_of rs (map (\<lambda>s. rlp_bytes (node_enc kec s)) ss)" "\<forall>s \<in> set ss. \<exists>m. wf_trie kec m s"
  shows "\<exists>nodes. parse_nodes beyond rs = Inr nodes \<and> list_all2 (node_ok kec) nodes ss"
  using assms
proof (induction ss arbitrary: rs)
  case (Cons s ss)
  then obtain r rs' m where rs: "rs = r # rs'" "item_of r (rlp_bytes (node_enc kec s))" "wf_trie kec m s"
    "list_all2 item_of rs' (map (\<lambda>s. rlp_bytes (node_enc kec s)) ss)"
    by (auto simp: list_all2_Cons2)
  have "length (node_enc kec s) < 2 ^ 64" using length_node_enc [OF rs(3)] by simp
  then have "readBytes beyond r = Inr (node_enc kec s)" by (rule readBytes_item [OF rs(2) rlp_bytes_encoding(1)])
  moreover have "\<exists>decoded. readList (toRLPItem beyond (node_enc kec s)) = Inr decoded \<and> list_all2 item_of decoded (node_items kec s)"
    using node_enc_ok [OF rs(3)]
    by (intro readList_items [OF item_of_array]) (auto simp: encodable_def MAX_LIST_LENGTH_def)
  moreover obtain nodes where "parse_nodes beyond rs' = Inr nodes" "list_all2 (node_ok kec) nodes ss"
    using Cons.IH [OF rs(4)] Cons.prems(2) by auto
  ultimately show ?case
    by (auto simp: rs(1) node_ok_def [of kec _ s])
qed simp

lemma parse_complete:
  assumes "wf_trie kec n T" "length (path_nodes T (toNibbles key)) \<le> MAX_LIST_LENGTH"
  shows "\<exists>nodes. parseProof beyond (trie_proof kec T key) = Inr nodes \<and> list_all2 (node_ok kec) nodes (path_nodes T (toNibbles key))"
proof -
  let ?ss = "path_nodes T (toNibbles key)" and ?enc = "\<lambda>s. rlp_bytes (node_enc kec s)"
  have wf: "\<forall>s \<in> set ?ss. \<exists>m. wf_trie kec m s"
    using path_nodes_wf [OF assms(1)] unfolding list_all_iff .
  have small: "encodable (?enc s) \<and> length (?enc s) \<le> 2 ^ 42" if "s \<in> set ?ss" for s
  proof -
    have "length (node_enc kec s) < 2 ^ 41" using wf that length_node_enc by blast
    then show ?thesis using encodable_rlp_bytes [of "node_enc kec s"] rlp_bytes_encoding(2) [of "node_enc kec s"] by simp
  qed
  then have "length (concat (map ?enc ?ss)) \<le> 2 ^ 42 * length (map ?enc ?ss)" by (intro length_concat_le) auto
  then have "length (concat (map ?enc ?ss)) < 2 ^ 64" using assms(2) by (simp add: MAX_LIST_LENGTH_def)
  then have "encoding (trie_proof kec T key) (concat (map ?enc ?ss)) LIST_ITEM"
    unfolding trie_proof_def by (rule rlp_list_encoding)
  then have "\<exists>rs. readList (toRLPItem beyond (trie_proof kec T key)) = Inr rs \<and> list_all2 item_of rs (map ?enc ?ss)"
    by (rule readList_items [OF item_of_array]) (use small assms(2) in \<open>auto simp: encodable_def\<close>)
  then obtain rs where rs: "readList (toRLPItem beyond (trie_proof kec T key)) = Inr rs" "list_all2 item_of rs (map ?enc ?ss)" by blast
  from parse_nodes_ok [OF rs(2) wf, of beyond] show ?thesis by (simp add: parseProof_def rs(1))
qed

lemma get_complete:
  assumes "wf_trie kec (2 * length key) T" "length key < 2 ^ 15" "lookup_trie T (toNibbles key) = Some v"
    and "length (path_nodes T (toNibbles key)) \<le> MAX_LIST_LENGTH"
  shows "MerkleTrie_get beyond kec key (trie_proof kec T key) (trie_root kec T) = Inr (True, v)"
proof -
  obtain nodes where parsed: "parseProof beyond (trie_proof kec T key) = Inr nodes" "list_all2 (node_ok kec) nodes (path_nodes T (toNibbles key))"
    using parse_complete [OF assms(1,4)] by blast
  have "walk beyond kec (toNibbles key) nodes (expected_id kec T (0 + 0)) 0 0 0 = Inr (0 + length nodes, length (toNibbles key), RLP_NULL)
      \<and> getNodeValue beyond (last nodes) = Inr v \<and> nodes \<noteq> []"
    by (rule walk_complete [OF nibbles_toNibbles _ assms(1)]) (use assms(2,3) parsed(2) in simp_all)
  then have "walk beyond kec (toNibbles key) nodes (trie_root kec T) 0 0 0 = Inr (length nodes, 2 * length key, RLP_NULL)"
    "getNodeValue beyond (nodes ! (length nodes - 1)) = Inr v" "nodes \<noteq> []"
    using last_conv_nth [of nodes] by (simp_all add: expected_id_def)
  moreover have "Bytes_slice beyond beyond (toNibbles key) (2 * length key) = Inr []"
    using small_slice [of "toNibbles key"] assms(2) by simp
  ultimately show ?thesis
    using parsed(1) by (simp add: MerkleTrie_get_def walkNodePath_def)
qed

text \<open>
  Keys of a fixed length matter: when the walk has used up the key at a leaf with a longer path, the value of the leaf
  is returned for the shorter key, which the trie does not hold.
\<close>

lemma get_accepts_prefix:
  assumes "wf_trie kec n (Leaf path val)" "path \<noteq> []"
  shows "MerkleTrie_get beyond kec [] (trie_proof kec (Leaf path val) []) (trie_root kec (Leaf path val)) = Inr (True, val)"
    "lookup_trie (Leaf path val) (toNibbles []) = None"
proof -
  show "lookup_trie (Leaf path val) (toNibbles []) = None" using assms(2) by (simp add: toNibbles_def)
  obtain node where node: "parseProof beyond (trie_proof kec (Leaf path val) []) = Inr [node]" "node_ok kec node (Leaf path val)"
    using parse_complete [OF assms(1), of "[]" beyond] by (auto simp: MAX_LIST_LENGTH_def list_all2_Cons2)
  have wf: "nibbles path" "length path < 2 ^ 16" "length val < 2 ^ 64" using assms(1) by auto
  have two: "list_all2 item_of (tn_decoded node) [rlp_bytes (hex_prefix 2 path), rlp_bytes val]" using node(2) by (simp add: node_ok_def)
  have check: "check_node kec (trie_root kec (Leaf path val)) (0 + 0) (tn_encoded node) = None"
    using check_node_ok [of kec "Leaf path val" 0] node(2) by (simp add: expected_id_def node_ok_def)
  have "walk beyond kec [] [node] (trie_root kec (Leaf path val)) 0 0 0 = Inr (1, 0, RLP_NULL)"
    using walk_path [OF check two wf(1) disjI2 [OF refl] wf(2), of "[]"] assms(2) by simp
  moreover have "getNodeValue beyond node = readBytes beyond (tn_decoded node ! 1)" "item_of (tn_decoded node ! 1) (rlp_bytes val)"
    using two by (auto simp: getNodeValue_def list_all2_Cons2)
  then have "getNodeValue beyond node = Inr val" using readBytes_item rlp_bytes_encoding(1) [OF wf(3)] by simp
  moreover have "toNibbles [] = []" by (simp add: toNibbles_def)
  ultimately show "MerkleTrie_get beyond kec [] (trie_proof kec (Leaf path val) []) (trie_root kec (Leaf path val)) = Inr (True, val)"
    using node(1) by (simp add: MerkleTrie_get_def walkNodePath_def Bytes_slice_def)
qed

section \<open>Inclusion proofs\<close>

lemma verifyInclusionProof_sound:
  assumes "keccak_safe beyond kec T" "wf_trie kec 64 T" "\<And>v. kec v = kec val \<Longrightarrow> v = val"
    and "SecureMerkleTrie_verifyInclusionProof beyond kec key val prv (trie_root kec T) = Inr True"
  shows "lookup_trie T (toNibbles (getSecureKey kec key)) = Some val"
proof -
  let ?key = "getSecureKey kec key"
  have "length ?key = 32" by (simp add: getSecureKey_def)
  then have wf: "wf_trie kec (2 * length ?key) T" "?key \<noteq> []" "length ?key < 2 ^ 15" using assms(2) by auto
  obtain v where "MerkleTrie_get beyond kec ?key prv (trie_root kec T) = Inr (True, v)" "kec val = kec v"
    using assms(4) by (auto simp: SecureMerkleTrie_verifyInclusionProof_def MerkleTrie_verifyInclusionProof_def Bytes_equal_def)
  with get_sound [OF assms(1) wf] assms(3) show ?thesis by simp
qed

lemma verifyInclusionProof_complete:
  assumes "wf_trie kec 64 T" "lookup_trie T (toNibbles (getSecureKey kec key)) = Some val"
    and "length (path_nodes T (toNibbles (getSecureKey kec key))) \<le> MAX_LIST_LENGTH"
  shows "SecureMerkleTrie_verifyInclusionProof beyond kec key val (trie_proof kec T (getSecureKey kec key)) (trie_root kec T) = Inr True"
proof -
  let ?key = "getSecureKey kec key"
  have "length ?key = 32" by (simp add: getSecureKey_def)
  then have "wf_trie kec (2 * length ?key) T" "length ?key < 2 ^ 15" using assms(1) by auto
  from get_complete [OF this assms(2,3), of beyond] show ?thesis
    by (simp add: SecureMerkleTrie_verifyInclusionProof_def MerkleTrie_verifyInclusionProof_def Bytes_equal_def)
qed

text \<open>
  C19. A proof of inclusion exists exactly for what the trie holds: for a well-formed trie over hashed keys and a hash that is
  safe for it, some proof makes the library accept a value for a key under the root of the trie if and only if the trie maps
  the hash of the key to that value (provided its nodes up to the key are at most 32, the longest list the reader takes).
\<close>

theorem inclusion_proof_iff:
  assumes "keccak_safe beyond kec T" and "wf_trie kec 64 T" and "\<And>v. kec v = kec val \<Longrightarrow> v = val"
    and "length (path_nodes T (toNibbles (getSecureKey kec key))) \<le> MAX_LIST_LENGTH"
  shows "(\<exists>prv. SecureMerkleTrie_verifyInclusionProof beyond kec key val prv (trie_root kec T) = Inr True)
    \<longleftrightarrow> lookup_trie T (toNibbles (getSecureKey kec key)) = Some val"
  using verifyInclusionProof_sound [OF assms(1-3)] verifyInclusionProof_complete [OF assms(2) _ assms(4)] by blast

text \<open>A trie with a single key, and a hash that tells its node and its value from everything else.\<close>

definition sample_trie_path :: bytes where
  "sample_trie_path = toNibbles (word_bytes (3 :: hash))"

definition sample_tree :: trie where
  "sample_tree = Leaf sample_trie_path [1]"

definition sample_hash :: keccak where
  "sample_hash b = (if b = node_enc (\<lambda>b. 0) sample_tree then 1 else if b = [1] then 2 else 3)"

lemma node_enc_sample: "node_enc kec sample_tree = node_enc (\<lambda>b. 0) sample_tree" "length (node_enc kec sample_tree) = 36"
proof -
  show "node_enc kec sample_tree = node_enc (\<lambda>b. 0) sample_tree" by (simp add: node_enc_def sample_tree_def)
  have "length (hex_prefix 2 sample_trie_path) = 33" by (simp add: hex_prefix_def fromNibbles_def sample_trie_path_def)
  then have "length (rlp_bytes (hex_prefix 2 sample_trie_path)) = 34" by (simp add: rlp_bytes_def writeBytes_def writeLength_def)
  moreover have "rlp_bytes [1] = [1]" by (simp add: rlp_bytes_def writeBytes_def)
  ultimately show "length (node_enc kec sample_tree) = 36"
    by (simp add: node_enc_def sample_tree_def rlp_list_def writeList_def flatten_eq writeLength_def)
qed

lemma bytes32_short:
  assumes "length e < 32"
  shows "word_bytes (bytes32 e) ! 31 = 0"
proof -
  have "word_bytes (bytes32 e) = e @ replicate (32 - length e) 0"
    unfolding bytes32_def using assms by (subst word_bytes_bytes_word) simp_all
  then show ?thesis using assms by (simp add: nth_append)
qed

lemma sample_tree_safe:
  assumes "\<And>b. word_bytes (kec b) ! 31 \<noteq> 0" "\<And>e. kec e = kec (node_enc kec sample_tree) \<Longrightarrow> e = node_enc kec sample_tree"
  shows "keccak_safe beyond kec sample_tree"
proof -
  have short: "bytes32 e \<noteq> kec b" if "length e < 32" for e b
    using bytes32_short [OF that] assms(1) [of b] by auto
  have "RLP_NULL \<noteq> kec b" for b unfolding RLP_NULL_def by (rule short) simp
  then have "kec b \<noteq> RLP_NULL" for b by (rule not_sym)
  with short show ?thesis
    using assms(2) node_enc_sample(2) [of kec] unfolding keccak_safe_def by (auto simp: sample_tree_def)
qed

lemma sample_hash_safe: "keccak_safe beyond sample_hash sample_tree"
proof (rule sample_tree_safe)
  show "word_bytes (sample_hash b) ! 31 \<noteq> 0" for b by (simp add: sample_hash_def nth_word_bytes)
  show "e = node_enc sample_hash sample_tree" if "sample_hash e = sample_hash (node_enc sample_hash sample_tree)" for e
    using that node_enc_sample(1) [of sample_hash] by (simp add: sample_hash_def split: if_splits)
qed

lemma sample_tree_wf: "wf_trie kec 64 sample_tree"
proof -
  have "length sample_trie_path = 64" "nibbles sample_trie_path" by (simp_all add: sample_trie_path_def nibbles_toNibbles)
  then show ?thesis using node_enc_sample(2) [of kec] by (simp add: sample_tree_def)
qed

theorem inclusion_proof_iff_witness:
  "(\<exists>prv. SecureMerkleTrie_verifyInclusionProof (\<lambda>i. 0) sample_hash [7] [1] prv (trie_root sample_hash sample_tree) = Inr True)
    \<longleftrightarrow> lookup_trie sample_tree (toNibbles (getSecureKey sample_hash [7])) = Some [1]"
proof (rule inclusion_proof_iff [OF sample_hash_safe sample_tree_wf])
  show "v = [1]" if "sample_hash v = sample_hash [1]" for v
    using that node_enc_sample(2) [of "\<lambda>b. 0"] by (auto simp: sample_hash_def split: if_splits)
  show "length (path_nodes sample_tree (toNibbles (getSecureKey sample_hash [7]))) \<le> MAX_LIST_LENGTH"
    by (simp add: sample_tree_def MAX_LIST_LENGTH_def)
qed

end
