(* ===== verification/Portal.thy ===== *)
theory Portal
  imports Proposer Merkle_Trie Deposits "HOL-Library.Signed_Division"
begin

text \<open>
  The bridge contracts under \<^verbatim>\<open>packages/contracts-bedrock/contracts\<close>: \<^verbatim>\<open>L1/OptimismPortal.sol\<close> with
  \<^verbatim>\<open>L1/ResourceMetering.sol\<close> on L1, \<^verbatim>\<open>L2/L2ToL1MessagePasser.sol\<close> on L2, and the libraries \<^verbatim>\<open>Hashing.sol\<close>,
  \<^verbatim>\<open>SafeCall.sol\<close> and \<^verbatim>\<open>vendor/AddressAliasHelper.sol\<close> they use.

  A \<^verbatim>\<open>uint256\<close> that is only stored or encoded is a word; amounts that are computed with are natural numbers or
  integers with the checks of Solidity written out. A call that reverts gives \<open>Inl\<close> and leaves the state as it was.
\<close>

type_synonym uint256 = "256 word"

section \<open>Hashing\<close>

record withdrawal =
  wd_nonce :: uint256
  wd_sender :: address
  wd_target :: address
  wd_value :: uint256
  wd_gasLimit :: uint256
  wd_data :: bytes

record output_root_proof =
  orp_version :: hash
  orp_stateRoot :: hash
  orp_messagePasserStorageRoot :: hash
  orp_latestBlockhash :: hash

text \<open>An address is a word of 32 bytes in the ABI; a byte string has its length first and is padded with zeros.\<close>

definition abi_address :: "address \<Rightarrow> bytes" where
  "abi_address a = word_bytes (ucast a :: hash)"

definition abi_bytes :: "bytes \<Rightarrow> bytes" where
  "abi_bytes b = be_bytes 32 (length b) @ pad32 b"

definition encode_withdrawal :: "withdrawal \<Rightarrow> bytes" where
  "encode_withdrawal tx =
     word_bytes (wd_nonce tx) @ abi_address (wd_sender tx) @ abi_address (wd_target tx) @ word_bytes (wd_value tx)
     @ word_bytes (wd_gasLimit tx) @ be_bytes 32 192 @ abi_bytes (wd_data tx)"

definition hashWithdrawal :: "keccak \<Rightarrow> withdrawal \<Rightarrow> hash" where
  "hashWithdrawal keccak256 tx = keccak256 (encode_withdrawal tx)"

definition hashOutputRootProof :: "keccak \<Rightarrow> output_root_proof \<Rightarrow> hash" where
  "hashOutputRootProof keccak256 p =
     keccak256 (word_bytes (orp_version p) @ word_bytes (orp_stateRoot p)
       @ word_bytes (orp_messagePasserStorageRoot p) @ word_bytes (orp_latestBlockhash p))"

definition hashDepositSource :: "keccak \<Rightarrow> hash \<Rightarrow> uint256 \<Rightarrow> hash" where
  "hashDepositSource keccak256 l1BlockHash logIndex =
    (let depositId = keccak256 (word_bytes l1BlockHash @ word_bytes logIndex)
     in keccak256 (word_bytes (0 :: hash) @ word_bytes depositId))"

definition applyL1ToL2Alias :: "address \<Rightarrow> address" where
  "applyL1ToL2Alias l1Address = l1Address + 0x1111000000000000000000000000000000001111"

definition undoL1ToL2Alias :: "address \<Rightarrow> address" where
  "undoL1ToL2Alias l2Address = l2Address - 0x1111000000000000000000000000000000001111"

section \<open>The message passer on L2\<close>

text \<open>\<open>mp_initiated\<close> are the withdrawals of the events \<^verbatim>\<open>WithdrawalInitiated\<close>, in order.\<close>

record message_passer =
  mp_sentMessages :: "hash \<Rightarrow> bool"
  mp_nonce :: uint256
  mp_balance :: nat
  mp_initiated :: "withdrawal list"

definition initiateWithdrawal ::
    "keccak \<Rightarrow> address \<Rightarrow> uint256 \<Rightarrow> address \<Rightarrow> uint256 \<Rightarrow> bytes \<Rightarrow> message_passer \<Rightarrow> message_passer" where
  "initiateWithdrawal keccak256 sender val target gasLimit data s =
    (let tx = \<lparr>wd_nonce = mp_nonce s, wd_sender = sender, wd_target = target, wd_value = val,
           wd_gasLimit = gasLimit, wd_data = data\<rparr>;
         withdrawalHash = hashWithdrawal keccak256 tx
     in s\<lparr>mp_balance := mp_balance s + unat val,
          mp_sentMessages := (mp_sentMessages s)(withdrawalHash := True),
          mp_initiated := mp_initiated s @ [tx],
          mp_nonce := mp_nonce s + 1\<rparr>)"

definition mp_receive :: "keccak \<Rightarrow> address \<Rightarrow> uint256 \<Rightarrow> message_passer \<Rightarrow> message_passer" where
  "mp_receive keccak256 sender val s = initiateWithdrawal keccak256 sender val sender 100000 [] s"

definition mp_burn :: "message_passer \<Rightarrow> message_passer" where
  "mp_burn s = s\<lparr>mp_balance := 0\<rparr>"

inductive mp_reachable :: "keccak \<Rightarrow> message_passer \<Rightarrow> bool" for keccak256 where
  deployed: "mp_reachable keccak256 \<lparr>mp_sentMessages = (\<lambda>h. False), mp_nonce = 0, mp_balance = 0, mp_initiated = []\<rparr>"
| initiate: "mp_reachable keccak256 s \<Longrightarrow> length data < 2 ^ 256 \<Longrightarrow> mp_reachable keccak256 (initiateWithdrawal keccak256 sender val target gasLimit data s)"
| receive: "mp_reachable keccak256 s \<Longrightarrow> mp_reachable keccak256 (mp_receive keccak256 sender val s)"
| burn: "mp_reachable keccak256 s \<Longrightarrow> mp_reachable keccak256 (mp_burn s)"

section \<open>Resource metering\<close>

record resource_params =
  rp_prevBaseFee :: nat
  rp_prevBoughtGas :: nat
  rp_prevBlockNum :: nat

definition MAX_RESOURCE_LIMIT :: int where "MAX_RESOURCE_LIMIT = 8000000"
definition ELASTICITY_MULTIPLIER :: int where "ELASTICITY_MULTIPLIER = 4"
definition TARGET_RESOURCE_LIMIT :: int where "TARGET_RESOURCE_LIMIT = MAX_RESOURCE_LIMIT sdiv ELASTICITY_MULTIPLIER"
definition BASE_FEE_MAX_CHANGE_DENOMINATOR :: int where "BASE_FEE_MAX_CHANGE_DENOMINATOR = 8"
definition MINIMUM_BASE_FEE :: int where "MINIMUM_BASE_FEE = 10000"
definition INITIAL_BASE_FEE :: nat where "INITIAL_BASE_FEE = 1000000000"
definition MAX_BASE_FEE :: int where "MAX_BASE_FEE = 2 ^ 128 - 1"

text \<open>
  The environment of a call: besides the sender, the time and the block hashes, the origin of the transaction, the
  value sent, the block number and base fee, and what the gas allows.
\<close>

record l1_call = call +
  tx_origin :: address
  msg_value :: uint256
  block_number :: nat
  block_basefee :: nat
  gas_left :: nat
  gas_used :: nat
  can_burn :: "nat \<Rightarrow> bool"

definition clamp_base_fee :: "int \<Rightarrow> int" where
  "clamp_base_fee fee = min (max fee MINIMUM_BASE_FEE) MAX_BASE_FEE"

definition checked_int256 :: "int \<Rightarrow> cause + int" where
  "checked_int256 x = (if - (2 ^ 255) \<le> x \<and> x < 2 ^ 255 then Inr x else Inl ''arithmetic overflow'')"

text \<open>The base fee after the block of the last deposit, from its demand.\<close>

definition next_base_fee :: "resource_params \<Rightarrow> int" where
  "next_base_fee p =
    (let gasUsedDelta = int (rp_prevBoughtGas p) - TARGET_RESOURCE_LIMIT;
         baseFeeDelta = (int (rp_prevBaseFee p) * gasUsedDelta) sdiv TARGET_RESOURCE_LIMIT sdiv BASE_FEE_MAX_CHANGE_DENOMINATOR
     in clamp_base_fee (int (rp_prevBaseFee p) + baseFeeDelta))"

text \<open>The fixed-point power is solmate's and a parameter. It may revert.\<close>

definition idle_base_fee :: "(int \<Rightarrow> int \<Rightarrow> cause + int) \<Rightarrow> nat \<Rightarrow> int \<Rightarrow> cause + int" where
  "idle_base_fee powWad blockDiff fee =
    (case checked ((blockDiff - 1) * 10 ^ 18) of Inl e \<Rightarrow> Inl e | Inr n \<Rightarrow>
     case powWad (10 ^ 18 - 10 ^ 18 sdiv BASE_FEE_MAX_CHANGE_DENOMINATOR) (sint (word_of_nat n :: uint256)) of Inl e \<Rightarrow> Inl e | Inr factor \<Rightarrow>
     case checked_int256 (fee * factor) of Inl e \<Rightarrow> Inl e | Inr x \<Rightarrow>
       Inr (clamp_base_fee (x sdiv 10 ^ 18)))"

definition update_params :: "(int \<Rightarrow> int \<Rightarrow> cause + int) \<Rightarrow> nat \<Rightarrow> resource_params \<Rightarrow> cause + resource_params" where
  "update_params powWad number p =
    (case checked_minus number (rp_prevBlockNum p) of Inl e \<Rightarrow> Inl e | Inr blockDiff \<Rightarrow>
     if \<not> blockDiff > 0 then Inr p
     else case (if blockDiff > 1 then idle_base_fee powWad blockDiff (next_base_fee p) else Inr (next_base_fee p)) of
         Inl e \<Rightarrow> Inl e
       | Inr newBaseFee \<Rightarrow>
           Inr \<lparr>rp_prevBaseFee = nat newBaseFee, rp_prevBoughtGas = 0, rp_prevBlockNum = number mod 2 ^ 64\<rparr>)"

text \<open>The part of the modifier that runs after the function.\<close>

definition metered :: "(int \<Rightarrow> int \<Rightarrow> cause + int) \<Rightarrow> 'x l1_call_scheme \<Rightarrow> u64 \<Rightarrow> resource_params \<Rightarrow> cause + resource_params" where
  "metered powWad msg amount p =
    (case update_params powWad (block_number msg) p of Inl e \<Rightarrow> Inl e | Inr p \<Rightarrow>
     let bought = rp_prevBoughtGas p + unat amount in
     if \<not> bought < 2 ^ 64 then Inl ''arithmetic overflow''
     else if \<not> int bought \<le> MAX_RESOURCE_LIMIT then Inl ''cannot buy more gas than available gas limit''
     else let resourceCost = unat amount * rp_prevBaseFee p in
     if \<not> resourceCost < 2 ^ 128 then Inl ''arithmetic overflow''
     else let gasCost = resourceCost div max (block_basefee msg) 1000000000 in
     if gasCost > gas_used msg \<and> \<not> can_burn msg (gasCost - gas_used msg) then Inl ''out of gas''
     else Inr (p\<lparr>rp_prevBoughtGas := bought\<rparr>))"

section \<open>The portal\<close>

datatype portal_event =
    TransactionDeposited address address uint256 bytes
  | WithdrawalFinalized hash bool

record portal =
  FINALIZATION_PERIOD_SECONDS :: nat
  p_balance :: nat
  p_l2Sender :: address
  p_finalizedWithdrawals :: "hash \<Rightarrow> bool"
  p_params :: resource_params
  p_events :: "portal_event list"

definition DEPOSIT_VERSION :: uint256 where "DEPOSIT_VERSION = 0"
definition DEFAULT_L2_SENDER :: address where "DEFAULT_L2_SENDER = 0x000000000000000000000000000000000000dEaD"
definition RECEIVE_DEFAULT_GAS_LIMIT :: u64 where "RECEIVE_DEFAULT_GAS_LIMIT = 100000"
definition FINALIZE_GAS_BUFFER :: nat where "FINALIZE_GAS_BUFFER = 20000"

text \<open>The constructor, which runs the initializer.\<close>

definition new_portal :: "nat \<Rightarrow> nat \<Rightarrow> portal" where
  "new_portal finalizationPeriodSeconds number =
    \<lparr>FINALIZATION_PERIOD_SECONDS = finalizationPeriodSeconds, p_balance = 0, p_l2Sender = DEFAULT_L2_SENDER,
     p_finalizedWithdrawals = (\<lambda>h. False),
     p_params = \<lparr>rp_prevBaseFee = INITIAL_BASE_FEE, rp_prevBoughtGas = 0, rp_prevBlockNum = number mod 2 ^ 64\<rparr>,
     p_events = []\<rparr>"

definition depositTransaction ::
    "(int \<Rightarrow> int \<Rightarrow> cause + int) \<Rightarrow> 'x l1_call_scheme \<Rightarrow> address \<Rightarrow> uint256 \<Rightarrow> u64 \<Rightarrow> bool \<Rightarrow> bytes \<Rightarrow> portal \<Rightarrow> cause + portal" where
  "depositTransaction powWad msg to' val gasLimit isCreation data s =
    (if isCreation \<and> to' \<noteq> 0 then Inl ''must send to address(0) when creating a contract''
     else let from = (if msg_sender msg \<noteq> tx_origin msg then applyL1ToL2Alias (msg_sender msg) else msg_sender msg);
              opaqueData = word_bytes (msg_value msg) @ word_bytes val @ word_bytes gasLimit
                @ [if isCreation then 1 else 0] @ data;
              s = s\<lparr>p_balance := p_balance s + unat (msg_value msg),
                p_events := p_events s @ [TransactionDeposited from to' DEPOSIT_VERSION opaqueData]\<rparr>
     in case metered powWad msg gasLimit (p_params s) of Inl e \<Rightarrow> Inl e | Inr p \<Rightarrow> Inr (s\<lparr>p_params := p\<rparr>))"

definition portal_receive :: "(int \<Rightarrow> int \<Rightarrow> cause + int) \<Rightarrow> 'x l1_call_scheme \<Rightarrow> portal \<Rightarrow> cause + portal" where
  "portal_receive powWad msg s = depositTransaction powWad msg (msg_sender msg) (msg_value msg) RECEIVE_DEFAULT_GAS_LIMIT False [] s"

definition isOutputFinalized :: "'x call_scheme \<Rightarrow> portal \<Rightarrow> output_proposal \<Rightarrow> cause + bool" where
  "isOutputFinalized msg s proposal =
     map_sum id (\<lambda>t. block_timestamp msg > t) (checked (op_timestamp proposal + FINALIZATION_PERIOD_SECONDS s))"

definition isBlockFinalized :: "'x call_scheme \<Rightarrow> 'o l2oo \<Rightarrow> portal \<Rightarrow> nat \<Rightarrow> cause + bool" where
  "isBlockFinalized msg c s n = (case getL2Output c n of Inl e \<Rightarrow> Inl e | Inr proposal \<Rightarrow> isOutputFinalized msg s proposal)"

definition withdrawal_slot :: "keccak \<Rightarrow> hash \<Rightarrow> hash" where
  "withdrawal_slot keccak256 withdrawalHash = keccak256 (word_bytes withdrawalHash @ word_bytes (0 :: uint256))"

definition verifyWithdrawalInclusion :: "memory \<Rightarrow> keccak \<Rightarrow> hash \<Rightarrow> hash \<Rightarrow> bytes \<Rightarrow> cause + bool" where
  "verifyWithdrawalInclusion beyond keccak256 withdrawalHash storageRoot prv =
     SecureMerkleTrie_verifyInclusionProof beyond keccak256 (word_bytes (withdrawal_slot keccak256 withdrawalHash)) [1] prv storageRoot"

text \<open>
  \<^verbatim>\<open>finalizeWithdrawalTransaction\<close> up to the call of the target; the oracle contract is in state \<open>c\<close> and \<open>this\<close> is the
  address of the portal. The result is the hash of the withdrawal.
\<close>

definition check_withdrawal ::
    "memory \<Rightarrow> keccak \<Rightarrow> address \<Rightarrow> 'x l1_call_scheme \<Rightarrow> 'o l2oo \<Rightarrow> withdrawal \<Rightarrow> nat \<Rightarrow> output_root_proof \<Rightarrow> bytes \<Rightarrow> portal \<Rightarrow> cause + hash" where
  "check_withdrawal beyond keccak256 this msg c tx l2BlockNumber outputRootProof withdrawalProof s =
    (if p_l2Sender s \<noteq> DEFAULT_L2_SENDER then Inl ''can only trigger one withdrawal per transaction''
     else if wd_target tx = this then Inl ''you cannot send messages to the portal contract''
     else case getL2Output c l2BlockNumber of Inl e \<Rightarrow> Inl e | Inr proposal \<Rightarrow>
     case isOutputFinalized msg s proposal of Inl e \<Rightarrow> Inl e | Inr finalized \<Rightarrow>
     if \<not> finalized then Inl ''proposal is not yet finalized''
     else if op_outputRoot proposal \<noteq> hashOutputRootProof keccak256 outputRootProof then Inl ''invalid output root proof''
     else let withdrawalHash = hashWithdrawal keccak256 tx in
     case verifyWithdrawalInclusion beyond keccak256 withdrawalHash (orp_messagePasserStorageRoot outputRootProof) withdrawalProof of
       Inl e \<Rightarrow> Inl e
     | Inr included \<Rightarrow>
     if \<not> included then Inl ''invalid withdrawal inclusion proof''
     else if p_finalizedWithdrawals s withdrawalHash then Inl ''withdrawal has already been finalized''
     else case checked (unat (wd_gasLimit tx) + FINALIZE_GAS_BUFFER) of Inl e \<Rightarrow> Inl e | Inr gas \<Rightarrow>
     if \<not> gas_left msg \<ge> gas then Inl ''insufficient gas to finalize withdrawal''
     else Inr withdrawalHash)"

text \<open>
  The target of a withdrawal is arbitrary code, which may call the portal again. A call is given with the calls that its
  target makes and with whether the target succeeds; when the target fails, what it did is undone. A call with a value
  above the balance fails.
\<close>

datatype 'o portal_call =
    Deposit l1_call address uint256 u64 bool bytes
  | Receive l1_call
  | Finalize l1_call "'o l2oo" withdrawal nat output_root_proof bytes "'o portal_call list" bool

fun portal_exec :: "memory \<Rightarrow> keccak \<Rightarrow> (int \<Rightarrow> int \<Rightarrow> cause + int) \<Rightarrow> address \<Rightarrow> 'o portal_call \<Rightarrow> portal \<Rightarrow> cause + portal"
  and portal_execs :: "memory \<Rightarrow> keccak \<Rightarrow> (int \<Rightarrow> int \<Rightarrow> cause + int) \<Rightarrow> address \<Rightarrow> 'o portal_call list \<Rightarrow> portal \<Rightarrow> portal" where
  "portal_exec beyond keccak256 powWad this (Deposit msg to' val gasLimit isCreation data) s =
     depositTransaction powWad msg to' val gasLimit isCreation data s"
| "portal_exec beyond keccak256 powWad this (Receive msg) s = portal_receive powWad msg s"
| "portal_exec beyond keccak256 powWad this (Finalize msg c tx l2BlockNumber outputRootProof withdrawalProof nested ok) s =
    (case check_withdrawal beyond keccak256 this msg c tx l2BlockNumber outputRootProof withdrawalProof s of
       Inl e \<Rightarrow> Inl e
     | Inr withdrawalHash \<Rightarrow>
         let s = s\<lparr>p_finalizedWithdrawals := (p_finalizedWithdrawals s)(withdrawalHash := True), p_l2Sender := wd_sender tx\<rparr>;
             success = (ok \<and> unat (wd_value tx) \<le> p_balance s);
             s = (if success then portal_execs beyond keccak256 powWad this nested (s\<lparr>p_balance := p_balance s - unat (wd_value tx)\<rparr>) else s)
         in Inr (s\<lparr>p_l2Sender := DEFAULT_L2_SENDER, p_events := p_events s @ [WithdrawalFinalized withdrawalHash success]\<rparr>))"
| "portal_execs beyond keccak256 powWad this [] s = s"
| "portal_execs beyond keccak256 powWad this (a # as) s =
    (case portal_exec beyond keccak256 powWad this a s of
       Inl e \<Rightarrow> portal_execs beyond keccak256 powWad this as s
     | Inr s' \<Rightarrow> portal_execs beyond keccak256 powWad this as s')"

section \<open>Encodings are injective\<close>

lemma word_bytes_hash_inject [simp]: "word_bytes (a :: hash) = word_bytes b \<longleftrightarrow> a = b"
  by (rule word_bytes_inject) simp

lemma padded_u64_word_bytes: "padded_u64 n = word_bytes (ucast n :: hash)"
proof -
  have "be_val (padded_u64 n) = unat n" by (rule be_val_padded_u64)
  moreover have "be_val (word_bytes (ucast n :: hash)) = unat (ucast n :: hash)" by (rule be_val_word_bytes) simp
  moreover have "unat (ucast n :: hash) = unat n" by transfer simp
  ultimately show ?thesis by (intro be_val_inject) (simp_all add: padded_u64_def)
qed

lemma abi_address_inject [simp]: "abi_address a = abi_address b \<longleftrightarrow> a = b"
proof
  assume "abi_address a = abi_address b"
  then have "(ucast a :: hash) = ucast b" by (simp add: abi_address_def)
  then have "(ucast (ucast a :: hash) :: address) = ucast (ucast b :: hash)" by simp
  then show "a = b" by simp
qed simp

lemma length_abi_address [simp]: "length (abi_address a) = 32"
  by (simp add: abi_address_def)

lemma pad32_inject:
  assumes "length a = length b"
  shows "pad32 a = pad32 b \<longleftrightarrow> a = b"
  using assms by (auto simp: pad32_def)

lemma abi_bytes_inject:
  assumes "length a < 2 ^ 256" "length b < 2 ^ 256"
  shows "abi_bytes a = abi_bytes b \<longleftrightarrow> a = b"
proof
  assume "abi_bytes a = abi_bytes b"
  then have "be_bytes 32 (length a) = be_bytes 32 (length b)" "pad32 a = pad32 b" by (simp_all add: abi_bytes_def)
  moreover have "length a = length b"
  proof -
    have "be_val (be_bytes 32 (length a)) = be_val (be_bytes 32 (length b))" using calculation(1) by simp
    moreover have "(256 :: nat) ^ 32 = 2 ^ 256" by simp
    ultimately show ?thesis using assms by (simp only: be_val_be_bytes mod_less)
  qed
  ultimately show "a = b" by (simp add: pad32_inject)
qed simp

lemma encode_withdrawal_inject:
  assumes "length (wd_data tx) < 2 ^ 256" "length (wd_data tx') < 2 ^ 256"
  shows "encode_withdrawal tx = encode_withdrawal tx' \<longleftrightarrow> tx = tx'"
  using abi_bytes_inject [OF assms] by (cases tx; cases tx') (auto simp: encode_withdrawal_def)

lemma hashOutputRootProof_ComputeL2OutputRoot:
  "hashOutputRootProof K p = ComputeL2OutputRoot K (orp_version p) (orp_latestBlockhash p) (orp_stateRoot p) (orp_messagePasserStorageRoot p)"
  by (simp add: hashOutputRootProof_def ComputeL2OutputRoot_def)

lemma hashDepositSource_SourceHash: "hashDepositSource K h (ucast (n :: u64)) = UserDepositSource_SourceHash K h n"
  by (simp add: hashDepositSource_def UserDepositSource_SourceHash_def domain_input_def deposit_id_input_def
      padded_u64_word_bytes UserDepositSourceDomain_def)

lemma undo_apply_alias [simp]: "undoL1ToL2Alias (applyL1ToL2Alias a) = a" "applyL1ToL2Alias (undoL1ToL2Alias a) = a"
  by (simp_all add: undoL1ToL2Alias_def applyL1ToL2Alias_def)

section \<open>What the message passer records\<close>

definition mp_inv :: "keccak \<Rightarrow> message_passer \<Rightarrow> bool" where
  "mp_inv keccak256 m \<longleftrightarrow>
     (\<forall>h. mp_sentMessages m h \<longleftrightarrow> h \<in> hashWithdrawal keccak256 ` set (mp_initiated m))
     \<and> (\<forall>tx \<in> set (mp_initiated m). length (wd_data tx) < 2 ^ 256)
     \<and> map wd_nonce (mp_initiated m) = map word_of_nat [0..<length (mp_initiated m)]
     \<and> mp_nonce m = word_of_nat (length (mp_initiated m))"

lemma initiateWithdrawal_inv:
  assumes "mp_inv K m" "length data < 2 ^ 256"
  shows "mp_inv K (initiateWithdrawal K sender val target gasLimit data m)"
  using assms unfolding mp_inv_def by (auto simp: initiateWithdrawal_def Let_def)

lemma mp_reachable_inv: "mp_reachable K m \<Longrightarrow> mp_inv K m"
proof (induction rule: mp_reachable.induct)
  case (receive s sender val)
  then show ?case by (simp add: mp_receive_def initiateWithdrawal_inv)
qed (simp_all add: initiateWithdrawal_inv, simp_all add: mp_inv_def mp_burn_def)

section \<open>Metering\<close>

definition params_ok :: "resource_params \<Rightarrow> bool" where
  "params_ok p \<longleftrightarrow> MINIMUM_BASE_FEE \<le> int (rp_prevBaseFee p) \<and> rp_prevBaseFee p < 2 ^ 128
     \<and> int (rp_prevBoughtGas p) \<le> MAX_RESOURCE_LIMIT \<and> rp_prevBlockNum p < 2 ^ 64"

lemmas metering_constants = MAX_RESOURCE_LIMIT_def ELASTICITY_MULTIPLIER_def TARGET_RESOURCE_LIMIT_def
  BASE_FEE_MAX_CHANGE_DENOMINATOR_def MINIMUM_BASE_FEE_def INITIAL_BASE_FEE_def MAX_BASE_FEE_def

lemma clamp_base_fee_bounds: "MINIMUM_BASE_FEE \<le> clamp_base_fee fee" "clamp_base_fee fee < 2 ^ 128"
  by (simp_all add: clamp_base_fee_def MINIMUM_BASE_FEE_def MAX_BASE_FEE_def)

lemma idle_base_fee_bounds:
  assumes "idle_base_fee powWad n fee = Inr fee'"
  shows "MINIMUM_BASE_FEE \<le> fee'" "fee' < 2 ^ 128"
  using assms clamp_base_fee_bounds by (auto simp: idle_base_fee_def split: sum.splits)

lemma update_params_ok:
  assumes "params_ok p" "update_params powWad number p = Inr p'"
  shows "params_ok p'"
proof (cases "rp_prevBlockNum p < number")
  case False
  then show ?thesis using assms by (auto simp: update_params_def checked_minus_def split: if_splits)
next
  case True
  then obtain fee where p': "p' = \<lparr>rp_prevBaseFee = nat fee, rp_prevBoughtGas = 0, rp_prevBlockNum = number mod 2 ^ 64\<rparr>"
    and fee: "(if number - rp_prevBlockNum p > 1 then idle_base_fee powWad (number - rp_prevBlockNum p) (next_base_fee p)
      else Inr (next_base_fee p)) = Inr fee"
    using assms(2) by (auto simp: update_params_def checked_minus_def split: sum.splits)
  have "MINIMUM_BASE_FEE \<le> fee \<and> fee < 2 ^ 128"
    using fee idle_base_fee_bounds clamp_base_fee_bounds
    by (auto simp: next_base_fee_def Let_def simp del: One_nat_def split: if_splits)
  then have "MINIMUM_BASE_FEE \<le> int (nat fee)" "nat fee < 2 ^ 128"
    by (simp_all add: MINIMUM_BASE_FEE_def nat_less_iff)
  then show ?thesis by (simp add: p' params_ok_def MAX_RESOURCE_LIMIT_def)
qed

lemma metered_ok:
  assumes "params_ok p" "metered powWad msg amount p = Inr p'"
  shows "params_ok p'"
proof -
  obtain q where q: "update_params powWad (block_number msg) p = Inr q" "p' = q\<lparr>rp_prevBoughtGas := rp_prevBoughtGas q + unat amount\<rparr>"
      "int (rp_prevBoughtGas q + unat amount) \<le> MAX_RESOURCE_LIMIT"
    using assms(2) by (auto simp: metered_def Let_def split: sum.splits if_splits)
  with update_params_ok [OF assms(1)] show ?thesis by (simp add: params_ok_def)
qed

lemma sdiv_bounds:
  fixes d :: int
  assumes "- (2000000 * f) \<le> d" "d \<le> 6000000 * f" "0 \<le> f"
  shows "8 * (d sdiv 2000000 sdiv 8) \<le> 3 * f" "- f \<le> 8 * (d sdiv 2000000 sdiv 8)"
proof -
  have "8 * (d sdiv 2000000 sdiv 8) \<le> 3 * f \<and> - f \<le> 8 * (d sdiv 2000000 sdiv 8)"
  proof (cases "0 \<le> d")
    case True
    then have "d sdiv 2000000 sdiv 8 = d div 2000000 div 8"
      by (simp add: signed_divide_int_def sgn_if abs_if pos_imp_zdiv_nonneg_iff)
    moreover have "0 \<le> d div 2000000 div 8" "8 * (d div 2000000 div 8) \<le> 3 * f" using True assms by linarith+
    ultimately show ?thesis using assms(3) by simp
  next
    case False
    then have "0 \<le> - d div 2000000" by simp
    with False have "d sdiv 2000000 sdiv 8 = - (- d div 2000000 div 8)"
      by (auto simp: signed_divide_int_def sgn_if abs_if)
    moreover have "0 \<le> - d div 2000000 div 8" "8 * (- d div 2000000 div 8) \<le> f" using False assms by linarith+
    ultimately show ?thesis using assms(3) by simp
  qed
  then show "8 * (d sdiv 2000000 sdiv 8) \<le> 3 * f" "- f \<le> 8 * (d sdiv 2000000 sdiv 8)" by auto
qed

text \<open>From one block to the next the fee falls by at most an eighth, and rises by at most three eighths.\<close>

lemma next_base_fee_change:
  assumes "params_ok p"
  shows "8 * next_base_fee p \<le> 11 * int (rp_prevBaseFee p)"
    and "7 * int (rp_prevBaseFee p) \<le> 8 * next_base_fee p"
proof -
  let ?fee = "int (rp_prevBaseFee p)" and ?gas = "int (rp_prevBoughtGas p)"
  define d where "d = ?fee * (?gas - 2000000)"
  have b: "0 \<le> ?gas" "?gas \<le> 8000000" "10000 \<le> ?fee" "?fee < 2 ^ 128"
    using assms by (simp_all add: params_ok_def metering_constants)
  have "- (2000000 * ?fee) \<le> d" "d \<le> 6000000 * ?fee"
    using mult_left_mono [of "- 2000000" "?gas - 2000000" ?fee] mult_left_mono [of "?gas - 2000000" 6000000 ?fee] b
    by (simp_all add: d_def mult.commute)
  from sdiv_bounds [OF this] have e: "8 * (d sdiv 2000000 sdiv 8) \<le> 3 * ?fee" "- ?fee \<le> 8 * (d sdiv 2000000 sdiv 8)"
    by simp_all
  have "(8000000 :: int) sdiv 4 = 2000000" by (simp add: signed_divide_int_def)
  then have fee: "next_base_fee p = min (max (?fee + d sdiv 2000000 sdiv 8) 10000) (2 ^ 128 - 1)"
    by (simp add: next_base_fee_def clamp_base_fee_def metering_constants d_def Let_def)
  show "8 * next_base_fee p \<le> 11 * ?fee" using e(1) b unfolding fee by (simp add: min_def max_def)
  show "7 * ?fee \<le> 8 * next_base_fee p" using e(2) b unfolding fee by (simp add: min_def max_def)
qed

section \<open>No withdrawal is finalized twice\<close>

fun finalized_hashes :: "portal_event list \<Rightarrow> hash list" where
  "finalized_hashes [] = []"
| "finalized_hashes (WithdrawalFinalized h success # es) = h # finalized_hashes es"
| "finalized_hashes (TransactionDeposited from to' version opaqueData # es) = finalized_hashes es"

lemma finalized_hashes_append [simp]: "finalized_hashes (es @ es') = finalized_hashes es @ finalized_hashes es'"
  by (induction es rule: finalized_hashes.induct) simp_all

text \<open>How a call changes the portal, whatever the code it runs does.\<close>

definition portal_grows :: "portal \<Rightarrow> portal \<Rightarrow> bool" where
  "portal_grows s s' \<longleftrightarrow>
     (\<exists>new. p_events s' = p_events s @ new \<and> distinct (finalized_hashes new)
        \<and> (\<forall>h \<in> set (finalized_hashes new). \<not> p_finalizedWithdrawals s h \<and> p_finalizedWithdrawals s' h))
     \<and> (\<forall>h. p_finalizedWithdrawals s h \<longrightarrow> p_finalizedWithdrawals s' h)
     \<and> p_l2Sender s' = p_l2Sender s
     \<and> FINALIZATION_PERIOD_SECONDS s' = FINALIZATION_PERIOD_SECONDS s
     \<and> (params_ok (p_params s) \<longrightarrow> params_ok (p_params s'))"

lemma portal_grows_refl: "portal_grows s s"
  by (simp add: portal_grows_def)

lemma portal_grows_trans:
  assumes "portal_grows s s'" "portal_grows s' s''"
  shows "portal_grows s s''"
proof -
  obtain new new' where new: "p_events s' = p_events s @ new" "distinct (finalized_hashes new)"
      "\<forall>h \<in> set (finalized_hashes new). \<not> p_finalizedWithdrawals s h \<and> p_finalizedWithdrawals s' h"
    and new': "p_events s'' = p_events s' @ new'" "distinct (finalized_hashes new')"
      "\<forall>h \<in> set (finalized_hashes new'). \<not> p_finalizedWithdrawals s' h \<and> p_finalizedWithdrawals s'' h"
    using assms unfolding portal_grows_def by blast
  have "p_events s'' = p_events s @ (new @ new')" "distinct (finalized_hashes (new @ new'))"
    "\<forall>h \<in> set (finalized_hashes (new @ new')). \<not> p_finalizedWithdrawals s h \<and> p_finalizedWithdrawals s'' h"
    using new new' assms by (auto simp: portal_grows_def)
  then show ?thesis using assms unfolding portal_grows_def by metis
qed

lemma depositTransaction_event:
  assumes "depositTransaction powWad msg to' val gasLimit isCreation data s = Inr s'"
  shows "\<exists>p. metered powWad msg gasLimit (p_params s) = Inr p \<and> (isCreation \<longrightarrow> to' = 0)
    \<and> s' = s\<lparr>p_balance := p_balance s + unat (msg_value msg), p_params := p,
        p_events := p_events s @ [TransactionDeposited (if msg_sender msg \<noteq> tx_origin msg then applyL1ToL2Alias (msg_sender msg) else msg_sender msg)
          to' DEPOSIT_VERSION
          (word_bytes (msg_value msg) @ word_bytes val @ word_bytes gasLimit @ [if isCreation then 1 else 0] @ data)]\<rparr>"
  using assms by (auto simp: depositTransaction_def Let_def split: sum.splits if_splits)

lemma depositTransaction_grows:
  assumes "depositTransaction powWad msg to' val gasLimit isCreation data s = Inr s'"
  shows "portal_grows s s'"
  using depositTransaction_event [OF assms] metered_ok by (auto simp: portal_grows_def)

lemma check_withdrawal_fresh:
  assumes "check_withdrawal beyond K this msg c tx n orp wp s = Inr h"
  shows "h = hashWithdrawal K tx" "\<not> p_finalizedWithdrawals s h" "p_l2Sender s = DEFAULT_L2_SENDER"
  using assms by (auto simp: check_withdrawal_def Let_def split: if_splits sum.splits)

text \<open>What the finalization of a withdrawal adds to what its target does.\<close>

lemma finalize_grows:
  assumes "\<not> p_finalizedWithdrawals s h" "p_l2Sender s = DEFAULT_L2_SENDER"
    and "portal_grows (s\<lparr>p_finalizedWithdrawals := (p_finalizedWithdrawals s)(h := True), p_l2Sender := sender, p_balance := b\<rparr>) s1"
  shows "portal_grows s (s1\<lparr>p_l2Sender := DEFAULT_L2_SENDER, p_events := p_events s1 @ [WithdrawalFinalized h success]\<rparr>)"
proof -
  obtain new where new: "p_events s1 = p_events s @ new" "distinct (finalized_hashes new)"
      "\<forall>g \<in> set (finalized_hashes new). \<not> ((p_finalizedWithdrawals s)(h := True)) g \<and> p_finalizedWithdrawals s1 g"
    using assms(3) by (auto simp: portal_grows_def)
  let ?new = "new @ [WithdrawalFinalized h success]"
  have "p_finalizedWithdrawals s1 h" using assms(3) by (simp add: portal_grows_def)
  then have "distinct (finalized_hashes ?new)"
    "\<forall>g \<in> set (finalized_hashes ?new). \<not> p_finalizedWithdrawals s g \<and> p_finalizedWithdrawals s1 g"
    using new(2,3) assms(1) by (auto split: if_splits)
  then show ?thesis
    using new(1) assms(2,3) unfolding portal_grows_def by (auto split: if_splits)
qed

lemma portal_exec_grows:
  fixes a :: "'o portal_call" and as :: "'o portal_call list"
  shows "portal_exec beyond K powWad this a s = Inr s' \<Longrightarrow> portal_grows s s'"
    and "portal_grows s (portal_execs beyond K powWad this as s)"
proof (induction beyond K powWad this a s and beyond K powWad this as s arbitrary: s' and rule: portal_exec_portal_execs.induct)
  case (3 beyond K powWad this msg c tx n orp wp nested ok s)
  obtain h where h: "check_withdrawal beyond K this msg c tx n orp wp s = Inr h"
    using 3(2) by (auto split: sum.splits)
  note fresh = check_withdrawal_fresh [OF h]
  let ?s = "s\<lparr>p_finalizedWithdrawals := (p_finalizedWithdrawals s)(h := True), p_l2Sender := wd_sender tx\<rparr>"
  show ?case
  proof (cases "ok \<and> unat (wd_value tx) \<le> p_balance s")
    case True
    have "portal_grows (?s\<lparr>p_balance := p_balance s - unat (wd_value tx)\<rparr>)
        (portal_execs beyond K powWad this nested (?s\<lparr>p_balance := p_balance s - unat (wd_value tx)\<rparr>))"
      using 3(1) [OF h refl refl] True by simp
    from finalize_grows [OF fresh(2,3) this, of True] show ?thesis
      using 3(2) h True by (simp add: Let_def)
  next
    case False
    have "portal_grows (?s\<lparr>p_balance := p_balance s\<rparr>) ?s" by (simp add: portal_grows_def)
    from finalize_grows [OF fresh(2,3) this, of False] show ?thesis
      using 3(2) h False by (simp add: Let_def)
  qed
next
  case (5 beyond K powWad this a as s)
  then show ?case by (auto intro: portal_grows_trans split: sum.split)
qed (auto simp: portal_receive_def intro: depositTransaction_grows portal_grows_refl)

text \<open>
  C13. A withdrawal is finalized at most once: after any sequence of calls of the portal, with any calls that the targets
  of withdrawals make in turn, no hash occurs in two of the events \<^verbatim>\<open>WithdrawalFinalized\<close>, every hash in one of them is
  marked as finalized, and \<^verbatim>\<open>l2Sender\<close> is back at its default.
\<close>

theorem withdrawal_finalized_once:
  "distinct (finalized_hashes (p_events (portal_execs beyond K powWad this calls (new_portal period number))))
   \<and> list_all (p_finalizedWithdrawals (portal_execs beyond K powWad this calls (new_portal period number)))
       (finalized_hashes (p_events (portal_execs beyond K powWad this calls (new_portal period number))))
   \<and> p_l2Sender (portal_execs beyond K powWad this calls (new_portal period number)) = DEFAULT_L2_SENDER"
  using portal_exec_grows(2) [of "new_portal period number" beyond K powWad this calls]
  by (auto simp: portal_grows_def new_portal_def list_all_iff)

text \<open>
  C22. The price of deposits stays in range: after any sequence of calls of the portal, nested ones included and whatever the
  fixed-point power computes, the base fee is at least the minimum and fits its 128 bits, and the gas bought in a block is
  within the limit.
\<close>

theorem portal_params_in_range:
  "params_ok (p_params (portal_execs beyond K powWad this calls (new_portal period number)))"
proof -
  have "params_ok (p_params (new_portal period number))" by (simp add: new_portal_def params_ok_def metering_constants)
  with portal_exec_grows(2) [of "new_portal period number" beyond K powWad this calls] show ?thesis by (simp add: portal_grows_def)
qed

section \<open>Deposits reach the rollup node\<close>

text \<open>An event of the portal as a log of the block: the signature and the indexed arguments are topics.\<close>

fun portal_log :: "keccak \<Rightarrow> address \<Rightarrow> hash \<Rightarrow> u64 \<Rightarrow> portal_event \<Rightarrow> event_log" where
  "portal_log K this blockHash index (TransactionDeposited from to' version opaqueData) =
     \<lparr>lg_Address = this,
      lg_Topics = [K (string_bytes ''TransactionDeposited(address,address,uint256,bytes)''), ucast from, ucast to', version],
      lg_Data = be_bytes 32 32 @ abi_bytes opaqueData, lg_BlockHash = blockHash, lg_Index = index\<rparr>"
| "portal_log K this blockHash index (WithdrawalFinalized h success) =
     \<lparr>lg_Address = this, lg_Topics = [K (string_bytes ''WithdrawalFinalized(bytes32,bool)''), h],
      lg_Data = word_bytes (if success then 1 else 0 :: hash), lg_BlockHash = blockHash, lg_Index = index\<rparr>"

lemma be_bytes_padded:
  assumes "n < 2 ^ 64"
  shows "be_bytes 32 n = padded_u64 (word_of_nat n)"
proof (rule be_val_inject)
  have "n < 256 ^ 32" using assms by simp
  then have "n mod 256 ^ 32 = n" by (rule mod_less)
  moreover have "unat (word_of_nat n :: u64) = n" using assms by (simp add: unat_of_nat)
  ultimately show "be_val (be_bytes 32 n) = be_val (padded_u64 (word_of_nat n))"
    by (simp only: be_val_be_bytes be_val_padded_u64)
qed (simp add: padded_u64_def)

lemma deposit_log_decodes:
  assumes "length opaque < 2 ^ 64" and "unmarshalDepositVersion0
      \<lparr>dep_SourceHash = hashDepositSource K h (ucast i), dep_From = from, dep_To = None, dep_Mint = None, dep_Value = 0, dep_Gas = 0,
       dep_IsSystemTransaction = False, dep_Data = []\<rparr> to' opaque = Inr dep"
  shows "UnmarshalDepositLogEvent K (portal_log K this h i (TransactionDeposited from to' DEPOSIT_VERSION opaque)) = Inr dep"
proof -
  obtain z where z: "pad32 opaque = opaque @ z" using pad32_append by blast
  have data: "lg_Data (portal_log K this h i (TransactionDeposited from to' DEPOSIT_VERSION opaque))
      = padded_u64 32 @ padded_u64 (word_of_nat (length opaque)) @ opaque @ z"
    using be_bytes_padded [OF assms(1)] be_bytes_padded [of 32] by (simp add: abi_bytes_def z)
  show ?thesis
  proof (rule UnmarshalDepositLogEvent_layout [OF assms(1) data])
    show "length z < 32" using length_pad32(3) [of opaque] by (simp add: z)
    show "length (lg_Data (portal_log K this h i (TransactionDeposited from to' DEPOSIT_VERSION opaque))) mod 32 = 0"
      using length_pad32(1) [of opaque] by (simp add: abi_bytes_def mod_add_left_eq [symmetric])
    show "lg_Topics (portal_log K this h i (TransactionDeposited from to' DEPOSIT_VERSION opaque))
        = [DepositEventABIHash K, ucast from, ucast to', DepositEventVersion0]"
      by (simp add: DepositEventABIHash_def DepositEventABI_def DEPOSIT_VERSION_def DepositEventVersion0_def)
  qed (use assms(2) in \<open>simp add: hashDepositSource_SourceHash\<close>)
qed

lemma deposit_event_decodes:
  assumes "depositTransaction powWad msg to' val gasLimit isCreation data s = Inr s'" and "length data < 2 ^ 63"
  shows "\<exists>e. p_events s' = p_events s @ [e]
    \<and> UnmarshalDepositLogEvent K (portal_log K this blockHash index e)
      = Inr \<lparr>dep_SourceHash = hashDepositSource K blockHash (ucast index),
             dep_From = (if msg_sender msg \<noteq> tx_origin msg then applyL1ToL2Alias (msg_sender msg) else msg_sender msg),
             dep_To = (if isCreation then None else Some to'),
             dep_Mint = (if msg_value msg = 0 then None else Some (uint (msg_value msg))),
             dep_Value = uint val, dep_Gas = gasLimit, dep_IsSystemTransaction = False, dep_Data = data\<rparr>"
proof -
  have be_val: "be_val (word_bytes (w :: hash)) = unat w" for w by (rule be_val_word_bytes) simp
  show ?thesis
    using depositTransaction_event [OF assms(1)] assms(2)
    by (auto intro!: deposit_log_decodes simp del: portal_log.simps
        simp: unmarshalDepositVersion0_layout [simplified] be_val unat_eq_zero)
qed

text \<open>
  C14. What is deposited on L1 is what the rollup node derives: a successful call of \<^verbatim>\<open>depositTransaction\<close> adds one event,
  and \<^verbatim>\<open>UnmarshalDepositLogEvent\<close> of the node decodes its log, wherever it is in whatever block, into the deposit with the
  caller as sender (aliased if it is a contract), the value sent as mint, and the recipient, value, gas limit and data of the
  call; its source hash is the one \<^verbatim>\<open>Hashing.hashDepositSource\<close> computes.
\<close>

theorem deposit_is_derived:
  assumes "depositTransaction powWad msg to' val gasLimit isCreation data s = Inr s'" and "length data < 2 ^ 63"
  shows "\<exists>e. p_events s' = p_events s @ [e]
    \<and> UnmarshalDepositLogEvent K (portal_log K this blockHash index e)
      = Inr \<lparr>dep_SourceHash = hashDepositSource K blockHash (ucast index),
             dep_From = (if msg_sender msg \<noteq> tx_origin msg then applyL1ToL2Alias (msg_sender msg) else msg_sender msg),
             dep_To = (if isCreation then None else Some to'),
             dep_Mint = (if msg_value msg = 0 then None else Some (uint (msg_value msg))),
             dep_Value = uint val, dep_Gas = gasLimit, dep_IsSystemTransaction = False, dep_Data = data\<rparr>"
  by (rule deposit_event_decodes [OF assms])

definition sample_l1_call :: l1_call where
  "sample_l1_call = \<lparr>msg_sender = 5, block_timestamp = 2000, blockhash = (\<lambda>n. 77), tx_origin = 6, msg_value = 9,
     block_number = 100, block_basefee = 1000000000, gas_left = 500000, gas_used = 30000, can_burn = (\<lambda>n. n \<le> 400000)\<rparr>"

theorem deposit_is_derived_witness:
  "\<exists>s' e. depositTransaction (\<lambda>x y. Inr (10 ^ 18)) sample_l1_call 11 9 21000 False [1, 2] (new_portal 10 100) = Inr s'
    \<and> p_events s' = [e]
    \<and> UnmarshalDepositLogEvent (\<lambda>b. 7) (portal_log (\<lambda>b. 7) 3 42 1 e)
      = Inr \<lparr>dep_SourceHash = hashDepositSource (\<lambda>b. 7) 42 1, dep_From = 0x1111000000000000000000000000000000001116,
             dep_To = Some 11, dep_Mint = Some 9, dep_Value = 9, dep_Gas = 21000, dep_IsSystemTransaction = False, dep_Data = [1, 2]\<rparr>"
proof -
  obtain s' where s': "depositTransaction (\<lambda>x y. Inr (10 ^ 18)) sample_l1_call 11 9 21000 False [1, 2] (new_portal 10 100) = Inr s'"
    by (simp add: depositTransaction_def metered_def update_params_def checked_minus_def new_portal_def sample_l1_call_def
        metering_constants Let_def)
  from deposit_is_derived [OF this, of "\<lambda>b. 7" 3 42 1] show ?thesis
    using s' by (simp add: new_portal_def sample_l1_call_def applyL1ToL2Alias_def)
qed

section \<open>Which withdrawals can be finalized\<close>

text \<open>
  In the storage of a Solidity contract the value of a mapping at storage position \<open>p\<close> for a key is at the hash of the
  key followed by \<open>p\<close>. The state of an account holds the storage as a trie, in which a slot that holds one is the byte 1, and
  a slot that holds zero is absent. \<^verbatim>\<open>sentMessages\<close> is the first variable of the message passer and has position 0.
\<close>

definition mapping_slot :: "keccak \<Rightarrow> hash \<Rightarrow> uint256 \<Rightarrow> hash" where
  "mapping_slot K key p = K (word_bytes key @ word_bytes p)"

definition storage_path :: "keccak \<Rightarrow> hash \<Rightarrow> bytes" where
  "storage_path K slot = toNibbles (getSecureKey K (word_bytes slot))"

definition passer_storage :: "memory \<Rightarrow> keccak \<Rightarrow> trie \<Rightarrow> message_passer \<Rightarrow> bool" where
  "passer_storage beyond K T m \<longleftrightarrow>
     keccak_safe beyond K T \<and> wf_trie K 64 T
     \<and> (\<forall>h. (lookup_trie T (storage_path K (mapping_slot K h 0)) = Some [1] \<longleftrightarrow> mp_sentMessages m h)
          \<and> length (path_nodes T (storage_path K (mapping_slot K h 0))) \<le> MAX_LIST_LENGTH)"

definition output_input :: "hash \<Rightarrow> hash \<Rightarrow> hash \<Rightarrow> bytes" where
  "output_input blockHash stateRoot storageRoot =
     word_bytes (0 :: hash) @ word_bytes stateRoot @ word_bytes storageRoot @ word_bytes blockHash"

definition collision_free :: "keccak \<Rightarrow> bytes set \<Rightarrow> bool" where
  "collision_free K B \<longleftrightarrow> (\<forall>b \<in> B. \<forall>b'. K b' = K b \<longrightarrow> b' = b)"

lemma output_proof_unique:
  assumes "collision_free K {output_input blockHash stateRoot storageRoot}"
    and "ComputeL2OutputRoot K 0 blockHash stateRoot storageRoot = hashOutputRootProof K p"
  shows "orp_messagePasserStorageRoot p = storageRoot"
proof -
  have "K (word_bytes (orp_version p) @ word_bytes (orp_stateRoot p) @ word_bytes (orp_messagePasserStorageRoot p)
      @ word_bytes (orp_latestBlockhash p)) = K (output_input blockHash stateRoot storageRoot)"
    using assms(2) by (simp add: ComputeL2OutputRoot_def hashOutputRootProof_def output_input_def)
  with assms(1) have "word_bytes (orp_version p) @ word_bytes (orp_stateRoot p) @ word_bytes (orp_messagePasserStorageRoot p)
      @ word_bytes (orp_latestBlockhash p) = output_input blockHash stateRoot storageRoot"
    unfolding collision_free_def by blast
  then show ?thesis by (simp add: output_input_def)
qed

lemma verifyWithdrawalInclusion_iff:
  assumes "passer_storage beyond K T m" "collision_free K {[1]}"
  shows "(\<exists>prv. verifyWithdrawalInclusion beyond K h (trie_root K T) prv = Inr True) \<longleftrightarrow> mp_sentMessages m h"
proof -
  let ?key = "word_bytes (withdrawal_slot K h)"
  have slot: "toNibbles (getSecureKey K ?key) = storage_path K (mapping_slot K h 0)"
    by (simp add: storage_path_def mapping_slot_def withdrawal_slot_def)
  have T: "keccak_safe beyond K T" "wf_trie K 64 T" "length (path_nodes T (toNibbles (getSecureKey K ?key))) \<le> MAX_LIST_LENGTH"
    "lookup_trie T (toNibbles (getSecureKey K ?key)) = Some [1] \<longleftrightarrow> mp_sentMessages m h"
    using assms(1) unfolding passer_storage_def slot by blast+
  have one: "\<And>v. K v = K [1] \<Longrightarrow> v = [1]" using assms(2) by (simp add: collision_free_def)
  show ?thesis
    unfolding verifyWithdrawalInclusion_def T(4) [symmetric]
    using verifyInclusionProof_sound [OF T(1,2) one] verifyInclusionProof_complete [OF T(2) _ T(3)] by blast
qed

lemma initiated_iff_sent:
  assumes "mp_reachable K m" "collision_free K (encode_withdrawal ` set (mp_initiated m))" "length (wd_data tx) < 2 ^ 256"
  shows "mp_sentMessages m (hashWithdrawal K tx) \<longleftrightarrow> tx \<in> set (mp_initiated m)"
proof
  assume "mp_sentMessages m (hashWithdrawal K tx)"
  then obtain tx' where tx': "tx' \<in> set (mp_initiated m)" "hashWithdrawal K tx = hashWithdrawal K tx'" "length (wd_data tx') < 2 ^ 256"
    using mp_reachable_inv [OF assms(1)] unfolding mp_inv_def by blast
  then have "encode_withdrawal tx = encode_withdrawal tx'" using assms(2) by (simp add: collision_free_def hashWithdrawal_def)
  then have "tx = tx'" using encode_withdrawal_inject [OF assms(3) tx'(3)] by blast
  with tx'(1) show "tx \<in> set (mp_initiated m)" by simp
qed (use mp_reachable_inv [OF assms(1)] in \<open>simp add: mp_inv_def\<close>)

lemma check_withdrawal_iff:
  assumes "getL2Output c n = Inr proposal" "block_timestamp msg < 2 ^ 256" "gas_left msg < 2 ^ 256"
  shows "check_withdrawal beyond K this msg c tx n orp wp s = Inr h \<longleftrightarrow>
    h = hashWithdrawal K tx \<and> op_outputRoot proposal = hashOutputRootProof K orp
    \<and> verifyWithdrawalInclusion beyond K h (orp_messagePasserStorageRoot orp) wp = Inr True
    \<and> \<not> p_finalizedWithdrawals s h \<and> op_timestamp proposal + FINALIZATION_PERIOD_SECONDS s < block_timestamp msg
    \<and> unat (wd_gasLimit tx) + FINALIZE_GAS_BUFFER \<le> gas_left msg
    \<and> wd_target tx \<noteq> this \<and> p_l2Sender s = DEFAULT_L2_SENDER"
proof -
  have small: "t < 2 ^ 256" if "t \<le> t'" "t' < 2 ^ 256" for t t' :: nat using that by (rule le_less_trans)
  have time: "isOutputFinalized msg s proposal = Inr True
      \<longleftrightarrow> op_timestamp proposal + FINALIZATION_PERIOD_SECONDS s < block_timestamp msg"
    using small [OF less_imp_le assms(2)] by (auto simp: isOutputFinalized_def checked_def)
  have gas: "(\<exists>g. checked (unat (wd_gasLimit tx) + FINALIZE_GAS_BUFFER) = Inr g \<and> g \<le> gas_left msg)
      \<longleftrightarrow> unat (wd_gasLimit tx) + FINALIZE_GAS_BUFFER \<le> gas_left msg"
    using small [OF _ assms(3)] by (auto simp: checked_def)
  show ?thesis
    unfolding time [symmetric] gas [symmetric] check_withdrawal_def Let_def assms(1)
    by (auto split: sum.split)
qed

lemma finalize_succeeds_iff:
  "(\<exists>s'. portal_exec beyond K powWad this (Finalize msg c tx n orp wp nested ok) s = Inr s')
    \<longleftrightarrow> (\<exists>h. check_withdrawal beyond K this msg c tx n orp wp s = Inr h)"
  by (cases "check_withdrawal beyond K this msg c tx n orp wp s") (simp_all add: Let_def)

text \<open>
  C12. Exactly the withdrawals that were initiated on L2 can be finalized on L1, once, and after the finalization period: let the
  output the oracle gives for a block be the root that the proposer computes from a state in which the message passer, reached
  by any sequence of its calls, has its storage in a trie. If the hash has no collision with what was hashed there, there is a
  proof with which \<^verbatim>\<open>finalizeWithdrawalTransaction\<close> succeeds for a withdrawal, whatever its target does, if and only if the
  message passer initiated that withdrawal, it is not finalized, the period is over, the gas suffices, its target is not the portal, and no
  other withdrawal is running.
\<close>

theorem withdrawal_finalizable_iff:
  assumes "mp_reachable K m" and "passer_storage beyond K T m"
    and "getL2Output c n = Inr proposal" "op_outputRoot proposal = ComputeL2OutputRoot K 0 blockHash stateRoot (trie_root K T)"
    and "collision_free K ({[1], output_input blockHash stateRoot (trie_root K T)} \<union> encode_withdrawal ` set (mp_initiated m))"
    and "length (wd_data tx) < 2 ^ 256" "block_timestamp msg < 2 ^ 256" "gas_left msg < 2 ^ 256"
  shows "(\<exists>orp wp s'. portal_exec beyond K powWad this (Finalize msg c tx n orp wp nested ok) s = Inr s') \<longleftrightarrow>
    tx \<in> set (mp_initiated m) \<and> \<not> p_finalizedWithdrawals s (hashWithdrawal K tx)
    \<and> op_timestamp proposal + FINALIZATION_PERIOD_SECONDS s < block_timestamp msg
    \<and> unat (wd_gasLimit tx) + FINALIZE_GAS_BUFFER \<le> gas_left msg
    \<and> wd_target tx \<noteq> this \<and> p_l2Sender s = DEFAULT_L2_SENDER"
proof -
  have free: "collision_free K {[1]}" "collision_free K {output_input blockHash stateRoot (trie_root K T)}"
    "collision_free K (encode_withdrawal ` set (mp_initiated m))"
    using assms(5) by (simp_all add: collision_free_def)
  let ?orp = "\<lparr>orp_version = 0, orp_stateRoot = stateRoot, orp_messagePasserStorageRoot = trie_root K T, orp_latestBlockhash = blockHash\<rparr>"
  have orp: "op_outputRoot proposal = hashOutputRootProof K ?orp" by (simp add: assms(4) hashOutputRootProof_ComputeL2OutputRoot)
  have root: "orp_messagePasserStorageRoot p = trie_root K T" if "op_outputRoot proposal = hashOutputRootProof K p" for p
    using output_proof_unique [OF free(2)] that assms(4) by simp
  have "(\<exists>orp wp s'. portal_exec beyond K powWad this (Finalize msg c tx n orp wp nested ok) s = Inr s')
      \<longleftrightarrow> (\<exists>orp wp h. check_withdrawal beyond K this msg c tx n orp wp s = Inr h)"
    by (simp only: finalize_succeeds_iff)
  also have "\<dots> \<longleftrightarrow> (\<exists>wp. verifyWithdrawalInclusion beyond K (hashWithdrawal K tx) (trie_root K T) wp = Inr True)
      \<and> \<not> p_finalizedWithdrawals s (hashWithdrawal K tx)
      \<and> op_timestamp proposal + FINALIZATION_PERIOD_SECONDS s < block_timestamp msg
      \<and> unat (wd_gasLimit tx) + FINALIZE_GAS_BUFFER \<le> gas_left msg \<and> wd_target tx \<noteq> this \<and> p_l2Sender s = DEFAULT_L2_SENDER"
    unfolding check_withdrawal_iff [OF assms(3,7,8)] using orp root by (metis output_root_proof.select_convs(3))
  finally show ?thesis
    unfolding verifyWithdrawalInclusion_iff [OF assms(2) free(1)] initiated_iff_sent [OF assms(1) free(3) assms(6)] .
qed

text \<open>A withdrawal, the message passer after it, and a hash that tells the values hashed on the way from each other.\<close>

definition sample_withdrawal :: withdrawal where
  "sample_withdrawal = \<lparr>wd_nonce = 0, wd_sender = 5, wd_target = 17, wd_value = 0, wd_gasLimit = 21000, wd_data = []\<rparr>"

definition bridge_hash :: keccak where
  "bridge_hash b =
    (if b = node_enc (\<lambda>b. 0) sample_tree then 1 else if b = [1] then 2
     else if b = encode_withdrawal sample_withdrawal then 7 else if b = output_input 1 2 1 then 8
     else if b = word_bytes (7 :: hash) @ word_bytes (0 :: uint256) then 5 else if b = word_bytes (5 :: hash) then 3 else 4)"

definition sample_passer :: message_passer where
  "sample_passer = initiateWithdrawal bridge_hash 5 0 17 21000 []
     \<lparr>mp_sentMessages = (\<lambda>h. False), mp_nonce = 0, mp_balance = 0, mp_initiated = []\<rparr>"

definition sample_outputs :: "address l2oo" where
  "sample_outputs = sample_l2oo\<lparr>oo_l2Outputs := (\<lambda>n. \<lparr>op_outputRoot = 8, op_timestamp = 1000\<rparr>)\<rparr>"

lemma bridge_lengths:
  "length (node_enc K sample_tree) = 36" "length (encode_withdrawal sample_withdrawal) = 224" "length (output_input a b c) = 128"
  by (simp_all add: node_enc_sample(2) encode_withdrawal_def abi_bytes_def pad32_def output_input_def sample_withdrawal_def)

lemma bridge_inputs_distinct:
  "distinct [node_enc (\<lambda>b. 0) sample_tree, [1], encode_withdrawal sample_withdrawal, output_input 1 2 1,
     word_bytes (7 :: hash) @ word_bytes (0 :: uint256), word_bytes (5 :: hash)]"
proof (rule distinct_map [THEN iffD1, THEN conjunct1])
  show "distinct (map length [node_enc (\<lambda>b. 0) sample_tree, [1], encode_withdrawal sample_withdrawal, output_input 1 2 1,
     word_bytes (7 :: hash) @ word_bytes (0 :: uint256), word_bytes (5 :: hash)])"
    by (simp add: bridge_lengths)
qed

lemma bridge_hash_values:
  "bridge_hash b = 1 \<longleftrightarrow> b = node_enc (\<lambda>b. 0) sample_tree" "bridge_hash b = 2 \<longleftrightarrow> b = [1]"
  "bridge_hash b = 7 \<longleftrightarrow> b = encode_withdrawal sample_withdrawal" "bridge_hash b = 8 \<longleftrightarrow> b = output_input 1 2 1"
  "bridge_hash b = 5 \<longleftrightarrow> b = word_bytes (7 :: hash) @ word_bytes (0 :: uint256)" "bridge_hash b = 3 \<longleftrightarrow> b = word_bytes (5 :: hash)"
proof -
  have d: "distinct [i1, i2, i3, i4, i5, i6] \<Longrightarrow>
     (let k = (if b = i1 then 1 else if b = i2 then 2 else if b = i3 then 7 else if b = i4 then 8 else if b = i5 then 5 else if b = i6 then 3 else 4 :: hash)
      in (k = 1 \<longleftrightarrow> b = i1) \<and> (k = 2 \<longleftrightarrow> b = i2) \<and> (k = 7 \<longleftrightarrow> b = i3) \<and> (k = 8 \<longleftrightarrow> b = i4) \<and> (k = 5 \<longleftrightarrow> b = i5) \<and> (k = 3 \<longleftrightarrow> b = i6))"
    for i1 i2 i3 i4 i5 i6 :: bytes
    by (auto simp: Let_def)
  note * = d [OF bridge_inputs_distinct, unfolded Let_def, folded bridge_hash_def]
  show "bridge_hash b = 1 \<longleftrightarrow> b = node_enc (\<lambda>b. 0) sample_tree" "bridge_hash b = 2 \<longleftrightarrow> b = [1]"
    "bridge_hash b = 7 \<longleftrightarrow> b = encode_withdrawal sample_withdrawal" "bridge_hash b = 8 \<longleftrightarrow> b = output_input 1 2 1"
    "bridge_hash b = 5 \<longleftrightarrow> b = word_bytes (7 :: hash) @ word_bytes (0 :: uint256)" "bridge_hash b = 3 \<longleftrightarrow> b = word_bytes (5 :: hash)"
    using * by blast+
qed

lemma sample_passer_initiated: "mp_initiated sample_passer = [sample_withdrawal]"
    "mp_sentMessages sample_passer h \<longleftrightarrow> h = 7"
proof -
  have "bridge_hash (encode_withdrawal sample_withdrawal) = 7" by (simp add: bridge_hash_values)
  then show "mp_initiated sample_passer = [sample_withdrawal]" "mp_sentMessages sample_passer h \<longleftrightarrow> h = 7"
    by (simp_all add: sample_passer_def initiateWithdrawal_def hashWithdrawal_def sample_withdrawal_def)
qed

lemma sample_passer_reachable: "mp_reachable bridge_hash sample_passer"
  unfolding sample_passer_def by (intro mp_reachable.intros) simp

lemma sample_passer_storage: "passer_storage beyond bridge_hash sample_tree sample_passer"
proof -
  have root: "bridge_hash (node_enc bridge_hash sample_tree) = 1"
    using node_enc_sample(1) [of bridge_hash] by (simp add: bridge_hash_values)
  have "keccak_safe beyond bridge_hash sample_tree"
  proof (rule sample_tree_safe)
    show "word_bytes (bridge_hash b) ! 31 \<noteq> 0" for b by (simp add: bridge_hash_def nth_word_bytes)
    show "e = node_enc bridge_hash sample_tree" if "bridge_hash e = bridge_hash (node_enc bridge_hash sample_tree)" for e
      using that node_enc_sample(1) [of bridge_hash] unfolding root by (simp add: bridge_hash_values)
  qed
  moreover have "lookup_trie sample_tree (storage_path bridge_hash (mapping_slot bridge_hash h 0)) = Some [1] \<longleftrightarrow> h = 7" for h
  proof -
    have "lookup_trie sample_tree (storage_path bridge_hash (mapping_slot bridge_hash h 0)) = Some [1]
        \<longleftrightarrow> bridge_hash (word_bytes (mapping_slot bridge_hash h 0)) = 3"
      by (auto simp: sample_tree_def sample_trie_path_def storage_path_def getSecureKey_def toNibbles_inject)
    then show ?thesis by (simp add: bridge_hash_values mapping_slot_def)
  qed
  ultimately show ?thesis
    by (simp add: passer_storage_def sample_tree_wf sample_passer_initiated) (simp add: sample_tree_def MAX_LIST_LENGTH_def)
qed

theorem withdrawal_finalizable_iff_witness:
  "\<exists>orp wp s'. portal_exec (\<lambda>i. 0) bridge_hash (\<lambda>x y. Inr 0) 3 (Finalize sample_l1_call sample_outputs sample_withdrawal 110 orp wp [] True)
     (new_portal 100 50) = Inr s'"
proof -
  have root: "trie_root bridge_hash sample_tree = 1"
    using node_enc_sample(1) [of bridge_hash] by (simp add: trie_root_def bridge_hash_values)
  have free: "collision_free bridge_hash ({[1], output_input 1 2 (trie_root bridge_hash sample_tree)} \<union> encode_withdrawal ` set (mp_initiated sample_passer))"
  proof -
    have v: "bridge_hash [1] = 2" "bridge_hash (output_input 1 2 1) = 8" "bridge_hash (encode_withdrawal sample_withdrawal) = 7"
      by (simp_all add: bridge_hash_values)
    show ?thesis by (simp add: collision_free_def sample_passer_initiated root v) (simp add: bridge_hash_values)
  qed
  have out: "getL2Output sample_outputs 110 = Inr \<lparr>op_outputRoot = 8, op_timestamp = 1000\<rparr>"
    by (simp add: getL2Output_def sample_outputs_def sample_l2oo_def)
  have "ComputeL2OutputRoot bridge_hash 0 1 2 (trie_root bridge_hash sample_tree) = 8"
    using bridge_hash_values(4) by (simp add: ComputeL2OutputRoot_def root output_input_def)
  then show ?thesis
    using withdrawal_finalizable_iff [OF sample_passer_reachable sample_passer_storage out _ free,
        of sample_withdrawal sample_l1_call "\<lambda>i. 0" "\<lambda>x y. Inr 0" 3 "[]" True "new_portal 100 50"]
    by (simp add: sample_passer_initiated) (simp add: sample_withdrawal_def sample_l1_call_def new_portal_def FINALIZE_GAS_BUFFER_def)
qed

end
