(* ===== verification/Messenger.thy ===== *)
theory Messenger
  imports Portal
begin

unbundle bit_operations_syntax

text \<open>
  The messengers under \<^verbatim>\<open>packages/contracts-bedrock/contracts\<close>: \<^verbatim>\<open>universal/CrossDomainMessenger.sol\<close> with its two children
  \<^verbatim>\<open>L1/L1CrossDomainMessenger.sol\<close> and \<^verbatim>\<open>L2/L2CrossDomainMessenger.sol\<close>, and the encodings of \<^verbatim>\<open>libraries/Encoding.sol\<close> and
  \<^verbatim>\<open>libraries/Hashing.sol\<close> they use. The virtual functions of the abstract contract are the record \<open>network\<close>; what is
  inherited from OpenZeppelin (ownership, pausing, the reentrancy guard) is the parameter \<open>inherited\<close>.
\<close>

section \<open>Encodings\<close>

definition encodeVersionedNonce :: "240 word \<Rightarrow> 16 word \<Rightarrow> uint256" where
  "encodeVersionedNonce nonce version = push_bit 240 (ucast version) OR ucast nonce"

definition decodeVersionedNonce :: "uint256 \<Rightarrow> 240 word \<times> 16 word" where
  "decodeVersionedNonce nonce =
     (ucast (nonce AND 0x0000ffffffffffffffffffffffffffffffffffffffffffffffffffffffffffff), ucast (drop_bit 240 nonce))"

text \<open>The selector of a function is the first four bytes of the hash of its signature.\<close>

definition selector :: "keccak \<Rightarrow> string \<Rightarrow> bytes" where
  "selector keccak256 sig = take 4 (word_bytes (keccak256 (string_bytes sig)))"

definition encodeCrossDomainMessageV0 :: "keccak \<Rightarrow> address \<Rightarrow> address \<Rightarrow> bytes \<Rightarrow> uint256 \<Rightarrow> bytes" where
  "encodeCrossDomainMessageV0 keccak256 target sender data nonce =
     selector keccak256 ''relayMessage(address,address,bytes,uint256)'' @ abi_address target @ abi_address sender @ be_bytes 32 128
     @ word_bytes nonce @ abi_bytes data"

definition encodeCrossDomainMessageV1 :: "keccak \<Rightarrow> uint256 \<Rightarrow> address \<Rightarrow> address \<Rightarrow> uint256 \<Rightarrow> uint256 \<Rightarrow> bytes \<Rightarrow> bytes" where
  "encodeCrossDomainMessageV1 keccak256 nonce sender target val gasLimit data =
     selector keccak256 ''relayMessage(uint256,address,address,uint256,uint256,bytes)''
     @ word_bytes nonce @ abi_address sender @ abi_address target @ word_bytes val @ word_bytes gasLimit @ be_bytes 32 192
     @ abi_bytes data"

definition encodeCrossDomainMessage :: "keccak \<Rightarrow> uint256 \<Rightarrow> address \<Rightarrow> address \<Rightarrow> uint256 \<Rightarrow> uint256 \<Rightarrow> bytes \<Rightarrow> cause + bytes" where
  "encodeCrossDomainMessage keccak256 nonce sender target val gasLimit data =
    (let version = snd (decodeVersionedNonce nonce) in
     if version = 0 then Inr (encodeCrossDomainMessageV0 keccak256 target sender data nonce)
     else if version = 1 then Inr (encodeCrossDomainMessageV1 keccak256 nonce sender target val gasLimit data)
     else Inl ''unknown cross domain message version'')"

definition hashCrossDomainMessageV0 :: "keccak \<Rightarrow> address \<Rightarrow> address \<Rightarrow> bytes \<Rightarrow> uint256 \<Rightarrow> hash" where
  "hashCrossDomainMessageV0 keccak256 target sender data nonce = keccak256 (encodeCrossDomainMessageV0 keccak256 target sender data nonce)"

definition hashCrossDomainMessageV1 :: "keccak \<Rightarrow> uint256 \<Rightarrow> address \<Rightarrow> address \<Rightarrow> uint256 \<Rightarrow> uint256 \<Rightarrow> bytes \<Rightarrow> hash" where
  "hashCrossDomainMessageV1 keccak256 nonce sender target val gasLimit data =
     keccak256 (encodeCrossDomainMessageV1 keccak256 nonce sender target val gasLimit data)"

definition hashCrossDomainMessage :: "keccak \<Rightarrow> uint256 \<Rightarrow> address \<Rightarrow> address \<Rightarrow> uint256 \<Rightarrow> uint256 \<Rightarrow> bytes \<Rightarrow> cause + hash" where
  "hashCrossDomainMessage keccak256 nonce sender target val gasLimit data =
    (let version = snd (decodeVersionedNonce nonce) in
     if version = 0 then Inr (hashCrossDomainMessageV0 keccak256 target sender data nonce)
     else if version = 1 then Inr (hashCrossDomainMessageV1 keccak256 nonce sender target val gasLimit data)
     else Inl ''unknown cross domain message version'')"

record user_deposit =
  ud_from :: address
  ud_to :: address
  ud_isCreation :: bool
  ud_value :: uint256
  ud_mint :: uint256
  ud_gasLimit :: u64
  ud_data :: bytes
  ud_l1BlockHash :: hash
  ud_logIndex :: uint256

fun collect :: "(cause + 'a) list \<Rightarrow> cause + 'a list" where
  "collect [] = Inr []"
| "collect (r # rs) = (case r of Inl e \<Rightarrow> Inl e | Inr a \<Rightarrow> map_sum id ((#) a) (collect rs))"

definition encodeDepositTransaction :: "memory \<Rightarrow> keccak \<Rightarrow> user_deposit \<Rightarrow> cause + bytes" where
  "encodeDepositTransaction beyond keccak256 tx =
    (let source = hashDepositSource keccak256 (ud_l1BlockHash tx) (ud_logIndex tx) in
     case collect [writeBytes (word_bytes source), writeAddress (ud_from tx),
         if ud_isCreation tx then writeBytes [] else writeAddress (ud_to tx),
         writeUint (unat (ud_mint tx)), writeUint (unat (ud_value tx)), writeUint (unat (ud_gasLimit tx)),
         Inr (writeBool False), writeBytes (ud_data tx)] of
       Inl e \<Rightarrow> Inl e
     | Inr raw \<Rightarrow> map_sum id (\<lambda>list. 0x7e # list) (writeList beyond raw))"

definition hashDepositTransaction :: "memory \<Rightarrow> keccak \<Rightarrow> user_deposit \<Rightarrow> cause + hash" where
  "hashDepositTransaction beyond keccak256 tx = map_sum id keccak256 (encodeDepositTransaction beyond keccak256 tx)"

section \<open>State\<close>

definition MESSAGE_VERSION :: "16 word" where "MESSAGE_VERSION = 1"
definition MIN_GAS_CONSTANT_OVERHEAD :: nat where "MIN_GAS_CONSTANT_OVERHEAD = 200000"
definition MIN_GAS_DYNAMIC_OVERHEAD_NUMERATOR :: nat where "MIN_GAS_DYNAMIC_OVERHEAD_NUMERATOR = 1016"
definition MIN_GAS_DYNAMIC_OVERHEAD_DENOMINATOR :: nat where "MIN_GAS_DYNAMIC_OVERHEAD_DENOMINATOR = 1000"
definition MIN_GAS_CALLDATA_OVERHEAD :: nat where "MIN_GAS_CALLDATA_OVERHEAD = 16"
definition RELAY_GAS_REQUIRED :: nat where "RELAY_GAS_REQUIRED = 45000"
definition DEFAULT_XDOMAIN_SENDER :: address where "DEFAULT_XDOMAIN_SENDER = 0x000000000000000000000000000000000000dEaD"

datatype messenger_event =
    SentMessage address address bytes uint256 uint256
  | SentMessageExtension1 address uint256
  | RelayedMessage hash
  | FailedRelayedMessage hash

record 'g messenger =
  xm_otherMessenger :: address
  xm_successfulMessages :: "hash \<Rightarrow> bool"
  xm_xDomainMsgSender :: address
  xm_msgNonce :: "240 word"
  xm_receivedMessages :: "hash \<Rightarrow> bool"
  xm_inherited :: 'g
  xm_balance :: nat
  xm_events :: "messenger_event list"

text \<open>
  The inherited contracts: entering and leaving a function guarded against reentrancy, whether the contract is paused, and
  pausing and unpausing by a caller. \<open>None\<close> is a revert.
\<close>

record 'g inherited =
  oz_enter :: "'g \<Rightarrow> 'g option"
  oz_leave :: "'g \<Rightarrow> 'g"
  oz_paused :: "'g \<Rightarrow> bool"
  oz_pause :: "address \<Rightarrow> 'g \<Rightarrow> 'g option"
  oz_unpause :: "address \<Rightarrow> 'g \<Rightarrow> 'g option"

text \<open>The virtual functions, over the state of the contract that carries messages to the other chain.\<close>

record 'c network =
  net_sendMessage :: "l1_call \<Rightarrow> address \<Rightarrow> u64 \<Rightarrow> uint256 \<Rightarrow> bytes \<Rightarrow> 'c \<Rightarrow> cause + 'c"
  net_isOtherMessenger :: "address \<Rightarrow> address \<Rightarrow> 'c \<Rightarrow> bool"
  net_isUnsafeTarget :: "address \<Rightarrow> bool"

definition new_messenger :: "address \<Rightarrow> 'g \<Rightarrow> 'g messenger" where
  "new_messenger otherMessenger g =
    \<lparr>xm_otherMessenger = otherMessenger, xm_successfulMessages = (\<lambda>h. False), xm_xDomainMsgSender = DEFAULT_XDOMAIN_SENDER,
     xm_msgNonce = 0, xm_receivedMessages = (\<lambda>h. False), xm_inherited = g, xm_balance = 0, xm_events = []\<rparr>"

section \<open>Operations\<close>

definition messenger_pause :: "'g inherited \<Rightarrow> address \<Rightarrow> 'g messenger \<Rightarrow> cause + 'g messenger" where
  "messenger_pause OZ sender s =
    (case oz_pause OZ sender (xm_inherited s) of None \<Rightarrow> Inl ''pause'' | Some g \<Rightarrow> Inr (s\<lparr>xm_inherited := g\<rparr>))"

definition messenger_unpause :: "'g inherited \<Rightarrow> address \<Rightarrow> 'g messenger \<Rightarrow> cause + 'g messenger" where
  "messenger_unpause OZ sender s =
    (case oz_unpause OZ sender (xm_inherited s) of None \<Rightarrow> Inl ''unpause'' | Some g \<Rightarrow> Inr (s\<lparr>xm_inherited := g\<rparr>))"

definition xDomainMessageSender :: "'g messenger \<Rightarrow> cause + address" where
  "xDomainMessageSender s =
    (if xm_xDomainMsgSender s = DEFAULT_XDOMAIN_SENDER then Inl ''xDomainMessageSender is not set'' else Inr (xm_xDomainMsgSender s))"

definition messageNonce :: "'g messenger \<Rightarrow> uint256" where
  "messageNonce s = encodeVersionedNonce (xm_msgNonce s) MESSAGE_VERSION"

definition checked32 :: "nat \<Rightarrow> cause + nat" where
  "checked32 n = (if n < 2 ^ 32 then Inr n else Inl ''arithmetic overflow'')"

text \<open>All of it is computed in 32 bits; the length of the message is cut to them.\<close>

definition baseGas :: "bytes \<Rightarrow> u32 \<Rightarrow> cause + u32" where
  "baseGas message minGasLimit =
    (case checked32 (unat minGasLimit * MIN_GAS_DYNAMIC_OVERHEAD_NUMERATOR) of Inl e \<Rightarrow> Inl e | Inr a \<Rightarrow>
     case checked32 (length message mod 2 ^ 32 * MIN_GAS_CALLDATA_OVERHEAD) of Inl e \<Rightarrow> Inl e | Inr b \<Rightarrow>
     case checked32 (a div MIN_GAS_DYNAMIC_OVERHEAD_DENOMINATOR + b) of Inl e \<Rightarrow> Inl e | Inr d \<Rightarrow>
     case checked32 (d + MIN_GAS_CONSTANT_OVERHEAD) of Inl e \<Rightarrow> Inl e | Inr gas \<Rightarrow> Inr (word_of_nat gas))"

definition sendMessage ::
    "keccak \<Rightarrow> 'c network \<Rightarrow> l1_call \<Rightarrow> address \<Rightarrow> bytes \<Rightarrow> u32 \<Rightarrow> 'g messenger \<times> 'c \<Rightarrow> cause + 'g messenger \<times> 'c" where
  "sendMessage keccak256 N msg target message minGasLimit = (\<lambda>(s, c).
     case baseGas message minGasLimit of Inl e \<Rightarrow> Inl e | Inr gas \<Rightarrow>
     case net_sendMessage N msg (xm_otherMessenger s) (ucast gas) (msg_value msg)
       (selector keccak256 ''relayMessage(uint256,address,address,uint256,uint256,bytes)''
        @ word_bytes (messageNonce s) @ abi_address (msg_sender msg) @ abi_address target @ word_bytes (msg_value msg)
        @ word_bytes (ucast minGasLimit :: uint256) @ be_bytes 32 192 @ abi_bytes message) c of
       Inl e \<Rightarrow> Inl e
     | Inr c \<Rightarrow>
         Inr (s\<lparr>xm_events := xm_events s
                 @ [SentMessage target (msg_sender msg) message (messageNonce s) (ucast minGasLimit),
                    SentMessageExtension1 (msg_sender msg) (msg_value msg)],
               xm_msgNonce := xm_msgNonce s + 1\<rparr>, c))"

text \<open>\<^verbatim>\<open>relayMessage\<close> up to the call of the target: the hash of the message, and the state inside the guard.\<close>

definition check_relay ::
    "keccak \<Rightarrow> 'c network \<Rightarrow> 'g inherited \<Rightarrow> 'x l1_call_scheme \<Rightarrow> uint256 \<Rightarrow> address \<Rightarrow> address \<Rightarrow> uint256 \<Rightarrow> uint256 \<Rightarrow> bytes
      \<Rightarrow> 'g messenger \<times> 'c \<Rightarrow> cause + hash \<times> 'g messenger" where
  "check_relay keccak256 N OZ msg nonce sender target val minGasLimit message = (\<lambda>(s, c).
    case oz_enter OZ (xm_inherited s) of None \<Rightarrow> Inl ''reentrant call'' | Some g \<Rightarrow>
    if oz_paused OZ g then Inl ''paused''
    else if snd (decodeVersionedNonce nonce) \<noteq> 1 then Inl ''only version 1 messages are supported after the Bedrock upgrade''
    else let versionedHash = hashCrossDomainMessageV1 keccak256 nonce sender target val minGasLimit message;
             other = net_isOtherMessenger N (msg_sender msg) (xm_otherMessenger s) c in
    if other \<and> msg_value msg \<noteq> val then Inl ''assertion failed''
    else if \<not> other \<and> msg_value msg \<noteq> 0 then Inl ''value must be zero unless message is from a system address''
    else if \<not> other \<and> \<not> xm_receivedMessages s versionedHash then Inl ''message cannot be replayed''
    else if net_isUnsafeTarget N target then Inl ''cannot send message to blocked system address''
    else if xm_successfulMessages s versionedHash then Inl ''message has already been relayed''
    else case checked (unat minGasLimit + RELAY_GAS_REQUIRED) of Inl e \<Rightarrow> Inl e | Inr gas \<Rightarrow>
    if \<not> gas_left msg \<ge> gas then Inl ''insufficient gas to relay message''
    else Inr (versionedHash, s\<lparr>xm_inherited := g, xm_balance := xm_balance s + unat (msg_value msg)\<rparr>))"

text \<open>What follows the call of the target, and the end of the guard.\<close>

definition finish_relay :: "'g inherited \<Rightarrow> hash \<Rightarrow> bool \<Rightarrow> 'g messenger \<Rightarrow> 'g messenger" where
  "finish_relay OZ versionedHash success s =
    (let s = s\<lparr>xm_xDomainMsgSender := DEFAULT_XDOMAIN_SENDER, xm_inherited := oz_leave OZ (xm_inherited s)\<rparr> in
     if success
     then s\<lparr>xm_successfulMessages := (xm_successfulMessages s)(versionedHash := True), xm_events := xm_events s @ [RelayedMessage versionedHash]\<rparr>
     else s\<lparr>xm_receivedMessages := (xm_receivedMessages s)(versionedHash := True), xm_events := xm_events s @ [FailedRelayedMessage versionedHash]\<rparr>)"

text \<open>
  A call of the messenger, with the calls that the target of a message makes in turn and whether the target succeeds. The state
  of the carrier may change in any way between the calls, by \<open>Elsewhere\<close>.
\<close>

datatype 'c messenger_call =
    Send l1_call address bytes u32
  | Relay l1_call uint256 address address uint256 uint256 bytes "'c messenger_call list" bool
  | Pause address
  | Unpause address
  | Elsewhere 'c

fun messenger_exec :: "keccak \<Rightarrow> 'c network \<Rightarrow> 'g inherited \<Rightarrow> 'c messenger_call \<Rightarrow> 'g messenger \<times> 'c \<Rightarrow> cause + 'g messenger \<times> 'c"
  and messenger_execs :: "keccak \<Rightarrow> 'c network \<Rightarrow> 'g inherited \<Rightarrow> 'c messenger_call list \<Rightarrow> 'g messenger \<times> 'c \<Rightarrow> 'g messenger \<times> 'c" where
  "messenger_exec keccak256 N OZ (Send msg target message minGasLimit) w = sendMessage keccak256 N msg target message minGasLimit w"
| "messenger_exec keccak256 N OZ (Relay msg nonce sender target val minGasLimit message nested ok) w =
    (case check_relay keccak256 N OZ msg nonce sender target val minGasLimit message w of
       Inl e \<Rightarrow> Inl e
     | Inr (versionedHash, s) \<Rightarrow>
         let s = s\<lparr>xm_xDomainMsgSender := sender\<rparr>;
             success = (ok \<and> unat val \<le> xm_balance s);
             w = (if success then messenger_execs keccak256 N OZ nested (s\<lparr>xm_balance := xm_balance s - unat val\<rparr>, snd w) else (s, snd w))
         in Inr (finish_relay OZ versionedHash success (fst w), snd w))"
| "messenger_exec keccak256 N OZ (Pause sender) w = map_sum id (\<lambda>s. (s, snd w)) (messenger_pause OZ sender (fst w))"
| "messenger_exec keccak256 N OZ (Unpause sender) w = map_sum id (\<lambda>s. (s, snd w)) (messenger_unpause OZ sender (fst w))"
| "messenger_exec keccak256 N OZ (Elsewhere c) w = Inr (fst w, c)"
| "messenger_execs keccak256 N OZ [] w = w"
| "messenger_execs keccak256 N OZ (a # as) w =
    (case messenger_exec keccak256 N OZ a w of
       Inl e \<Rightarrow> messenger_execs keccak256 N OZ as w
     | Inr w' \<Rightarrow> messenger_execs keccak256 N OZ as w')"

section \<open>The two messengers\<close>

definition L2_CROSS_DOMAIN_MESSENGER :: address where "L2_CROSS_DOMAIN_MESSENGER = 0x4200000000000000000000000000000000000007"
definition L2_TO_L1_MESSAGE_PASSER :: address where "L2_TO_L1_MESSAGE_PASSER = 0x4200000000000000000000000000000000000016"

text \<open>
  On L1 the carrier is the portal at address \<open>portal_addr\<close>; the messenger has the address \<open>this\<close>, and calls the portal in the
  transaction of its own caller, with the value it was sent.
\<close>

definition L1_network :: "(int \<Rightarrow> int \<Rightarrow> cause + int) \<Rightarrow> address \<Rightarrow> address \<Rightarrow> portal network" where
  "L1_network powWad portal_addr this =
    \<lparr>net_sendMessage = (\<lambda>msg to' gasLimit val data c.
       depositTransaction powWad (msg\<lparr>msg_sender := this, msg_value := val\<rparr>) to' val gasLimit False data c),
     net_isOtherMessenger = (\<lambda>sender other c. sender = portal_addr \<and> p_l2Sender c = other),
     net_isUnsafeTarget = (\<lambda>target. target = this \<or> target = portal_addr)\<rparr>"

definition L2_network :: "keccak \<Rightarrow> address \<Rightarrow> message_passer network" where
  "L2_network keccak256 this =
    \<lparr>net_sendMessage = (\<lambda>msg to' gasLimit val data c. Inr (initiateWithdrawal keccak256 this val to' (ucast gasLimit) data c)),
     net_isOtherMessenger = (\<lambda>sender other c. undoL1ToL2Alias sender = other),
     net_isUnsafeTarget = (\<lambda>target. target = this \<or> target = L2_TO_L1_MESSAGE_PASSER)\<rparr>"

section \<open>Encodings\<close>

lemma versioned_nonce: "decodeVersionedNonce (encodeVersionedNonce n v) = (n, v)"
proof -
  have m: "(0x0000ffffffffffffffffffffffffffffffffffffffffffffffffffffffffffff :: uint256) = mask 240"
    by (simp add: mask_eq_exp_minus_1)
  have high: "\<not> bit n (240 + i)" for i using bit_imp_le_length [of n "240 + i"] by auto
  show ?thesis
    unfolding decodeVersionedNonce_def encodeVersionedNonce_def m
    by (auto intro!: bit_word_eqI simp: bit_simps high)
qed

lemma encodeCrossDomainMessageV1_inject:
  assumes "length data < 2 ^ 256" "length data' < 2 ^ 256"
  shows "encodeCrossDomainMessageV1 K nonce sender target val gasLimit data
      = encodeCrossDomainMessageV1 K nonce' sender' target' val' gasLimit' data'
    \<longleftrightarrow> nonce = nonce' \<and> sender = sender' \<and> target = target' \<and> val = val' \<and> gasLimit = gasLimit' \<and> data = data'"
  using abi_bytes_inject [OF assms] by (auto simp: encodeCrossDomainMessageV1_def)

lemma hash_encode: "hashCrossDomainMessage K nonce sender target val gasLimit data
    = map_sum id K (encodeCrossDomainMessage K nonce sender target val gasLimit data)"
  by (simp add: hashCrossDomainMessage_def encodeCrossDomainMessage_def hashCrossDomainMessageV0_def hashCrossDomainMessageV1_def Let_def)

text \<open>The encoded deposit transaction is a list that the RLP reader splits into the fields again.\<close>

lemma collect_Inr: "map f xs = map Inr ys \<Longrightarrow> collect (map f xs) = Inr ys"
  by (induction xs arbitrary: ys) (auto simp: Cons_eq_map_conv)

lemma encodeDepositTransaction_read:
  assumes "length (ud_data tx) < 2 ^ 62"
  shows "\<exists>list items. encodeDepositTransaction beyond K tx = Inr (0x7e # list) \<and> readList (toRLPItem beyond' list) = Inr items
    \<and> map (readBytes beyond'') items = map Inr
      [word_bytes (hashDepositSource K (ud_l1BlockHash tx) (ud_logIndex tx)), word_bytes (ud_from tx),
       if ud_isCreation tx then [] else word_bytes (ud_to tx), toBinary (unat (ud_mint tx)), toBinary (unat (ud_value tx)),
       toBinary (unat (ud_gasLimit tx)), [], ud_data tx]"
proof -
  define fields where "fields = [word_bytes (hashDepositSource K (ud_l1BlockHash tx) (ud_logIndex tx)), word_bytes (ud_from tx),
       if ud_isCreation tx then [] else word_bytes (ud_to tx), toBinary (unat (ud_mint tx)), toBinary (unat (ud_value tx)),
       toBinary (unat (ud_gasLimit tx)), [], ud_data tx]"
  have small: "length (toBinary x) \<le> 32" for x using length_dropWhile_le [of "\<lambda>b. b = 0" "be_bytes 32 x"] by (simp add: toBinary_def)
  have "length fields \<le> MAX_LIST_LENGTH" by (simp add: fields_def MAX_LIST_LENGTH_def)
  moreover have "length (concat fields) < 2 ^ 63"
    using assms small [of "unat (ud_mint tx)"] small [of "unat (ud_value tx)"] small [of "unat (ud_gasLimit tx)"] by (simp add: fields_def)
  ultimately obtain es list items where es: "map writeBytes fields = map Inr es" "writeList beyond es = Inr list"
      "readList (toRLPItem beyond' list) = Inr items" "map (readBytes beyond'') items = map Inr fields"
    using rlp_list_read by blast
  have "writeBytes [] = Inr (writeBool False)" by (simp add: writeBytes_def writeLength_def writeBool_def)
  then have "map writeBytes fields = [writeBytes (word_bytes (hashDepositSource K (ud_l1BlockHash tx) (ud_logIndex tx))), writeAddress (ud_from tx),
         if ud_isCreation tx then writeBytes [] else writeAddress (ud_to tx),
         writeUint (unat (ud_mint tx)), writeUint (unat (ud_value tx)), writeUint (unat (ud_gasLimit tx)),
         Inr (writeBool False), writeBytes (ud_data tx)]"
    by (simp add: fields_def writeAddress_def writeUint_def)
  then have "encodeDepositTransaction beyond K tx = (case collect (map writeBytes fields) of Inl e \<Rightarrow> Inl e
      | Inr raw \<Rightarrow> map_sum id (\<lambda>list. 0x7e # list) (writeList beyond raw))"
    by (simp only: encodeDepositTransaction_def Let_def)
  then have "encodeDepositTransaction beyond K tx = Inr (0x7e # list)" using collect_Inr [OF es(1)] es(2) by simp
  with es(3,4) show ?thesis unfolding fields_def by blast
qed

section \<open>A message is relayed once\<close>

text \<open>
  What the reentrancy guard of OpenZeppelin promises: a guarded function that is running cannot be entered, and pausing does not
  change that.
\<close>

definition guard_laws :: "'g inherited \<Rightarrow> ('g \<Rightarrow> bool) \<Rightarrow> bool" where
  "guard_laws OZ entered \<longleftrightarrow>
     (\<forall>g. (entered g \<longrightarrow> oz_enter OZ g = None) \<and> (\<forall>g'. oz_enter OZ g = Some g' \<longrightarrow> entered g') \<and> \<not> entered (oz_leave OZ g)
        \<and> (\<forall>a g'. oz_pause OZ a g = Some g' \<longrightarrow> entered g' = entered g)
        \<and> (\<forall>a g'. oz_unpause OZ a g = Some g' \<longrightarrow> entered g' = entered g))"

fun relayed_hashes :: "messenger_event list \<Rightarrow> hash list" where
  "relayed_hashes [] = []"
| "relayed_hashes (RelayedMessage h # es) = h # relayed_hashes es"
| "relayed_hashes (e # es) = relayed_hashes es"

lemma relayed_hashes_append [simp]: "relayed_hashes (es @ es') = relayed_hashes es @ relayed_hashes es'"
  by (induction es rule: relayed_hashes.induct) simp_all

definition messenger_grows :: "('g \<Rightarrow> bool) \<Rightarrow> 'g messenger \<Rightarrow> 'g messenger \<Rightarrow> bool" where
  "messenger_grows entered s s' \<longleftrightarrow>
     (\<exists>new. xm_events s' = xm_events s @ new \<and> distinct (relayed_hashes new)
        \<and> (\<forall>h \<in> set (relayed_hashes new). \<not> xm_successfulMessages s h \<and> xm_successfulMessages s' h))
     \<and> (\<forall>h. xm_successfulMessages s h \<longrightarrow> xm_successfulMessages s' h)
     \<and> (entered (xm_inherited s) \<longrightarrow> xm_successfulMessages s' = xm_successfulMessages s \<and> xm_xDomainMsgSender s' = xm_xDomainMsgSender s)
     \<and> entered (xm_inherited s') = entered (xm_inherited s)
     \<and> ((\<not> entered (xm_inherited s) \<longrightarrow> xm_xDomainMsgSender s = DEFAULT_XDOMAIN_SENDER)
         \<longrightarrow> (\<not> entered (xm_inherited s') \<longrightarrow> xm_xDomainMsgSender s' = DEFAULT_XDOMAIN_SENDER))"

lemma messenger_grows_refl: "messenger_grows entered s s"
  by (simp add: messenger_grows_def)

lemma messenger_grows_trans:
  assumes "messenger_grows entered s s'" "messenger_grows entered s' s''"
  shows "messenger_grows entered s s''"
proof -
  obtain new new' where new: "xm_events s' = xm_events s @ new" "distinct (relayed_hashes new)"
      "\<forall>h \<in> set (relayed_hashes new). \<not> xm_successfulMessages s h \<and> xm_successfulMessages s' h"
    and new': "xm_events s'' = xm_events s' @ new'" "distinct (relayed_hashes new')"
      "\<forall>h \<in> set (relayed_hashes new'). \<not> xm_successfulMessages s' h \<and> xm_successfulMessages s'' h"
    using assms unfolding messenger_grows_def by blast
  have "xm_events s'' = xm_events s @ (new @ new')" "distinct (relayed_hashes (new @ new'))"
    "\<forall>h \<in> set (relayed_hashes (new @ new')). \<not> xm_successfulMessages s h \<and> xm_successfulMessages s'' h"
    using new new' assms by (auto simp: messenger_grows_def)
  then show ?thesis using assms unfolding messenger_grows_def by metis
qed

lemma sendMessage_effect:
  assumes "sendMessage K N msg target message minGasLimit (s, c) = Inr (s', c')"
  shows "\<exists>gas. baseGas message minGasLimit = Inr gas
    \<and> net_sendMessage N msg (xm_otherMessenger s) (ucast gas) (msg_value msg)
        (encodeCrossDomainMessageV1 K (messageNonce s) (msg_sender msg) target (msg_value msg) (ucast minGasLimit) message) c = Inr c'
    \<and> s' = s\<lparr>xm_events := xm_events s @ [SentMessage target (msg_sender msg) message (messageNonce s) (ucast minGasLimit),
          SentMessageExtension1 (msg_sender msg) (msg_value msg)], xm_msgNonce := xm_msgNonce s + 1\<rparr>"
  using assms by (auto simp: sendMessage_def encodeCrossDomainMessageV1_def split: sum.splits)

lemma check_relay_state:
  assumes "check_relay K N OZ msg nonce sender target val minGasLimit message (s, c) = Inr (h, s')"
  obtains g where "oz_enter OZ (xm_inherited s) = Some g" "\<not> oz_paused OZ g"
    "s' = s\<lparr>xm_inherited := g, xm_balance := xm_balance s + unat (msg_value msg)\<rparr>"
    "h = hashCrossDomainMessageV1 K nonce sender target val minGasLimit message" "\<not> xm_successfulMessages s h"
    "\<not> net_isOtherMessenger N (msg_sender msg) (xm_otherMessenger s) c \<longrightarrow> xm_receivedMessages s h"
  using assms by (auto simp: check_relay_def Let_def split: option.splits if_splits sum.splits)

text \<open>What relaying adds to what the target does inside the guard.\<close>

lemma finish_relay_grows:
  assumes "guard_laws OZ entered" "\<not> entered (xm_inherited s)" "entered g" "\<not> xm_successfulMessages s h"
    and "messenger_grows entered (s\<lparr>xm_inherited := g, xm_xDomainMsgSender := sender, xm_balance := b\<rparr>) t"
  shows "messenger_grows entered s (finish_relay OZ h success t)"
proof -
  obtain new where new: "xm_events t = xm_events s @ new" "\<forall>h \<in> set (relayed_hashes new). \<not> xm_successfulMessages s h \<and> xm_successfulMessages t h"
    using assms(5) by (auto simp: messenger_grows_def)
  have same: "xm_successfulMessages t = xm_successfulMessages s" using assms(3,5) by (simp add: messenger_grows_def)
  then have none: "relayed_hashes new = []" using new(2) by (cases "relayed_hashes new") auto
  have out: "\<not> entered (oz_leave OZ (xm_inherited t))" using assms(1) by (simp add: guard_laws_def)
  show ?thesis
  proof (cases success)
    case True
    then show ?thesis using new(1) none same out assms(2,4)
      unfolding messenger_grows_def finish_relay_def Let_def
      by (intro conjI exI [of _ "new @ [RelayedMessage h]"]) auto
  next
    case False
    then show ?thesis using new(1) none same out assms(2,4)
      unfolding messenger_grows_def finish_relay_def Let_def
      by (intro conjI exI [of _ "new @ [FailedRelayedMessage h]"]) auto
  qed
qed

lemma messenger_exec_grows:
  fixes a :: "'c messenger_call" and as :: "'c messenger_call list" and w :: "'g messenger \<times> 'c"
  assumes laws: "guard_laws OZ entered"
  shows "messenger_exec K N OZ a w = Inr w' \<Longrightarrow> messenger_grows entered (fst w) (fst w')"
    and "messenger_grows entered (fst w) (fst (messenger_execs K N OZ as w))"
  using laws
proof (induction K N OZ a w and K N OZ as w arbitrary: w' and rule: messenger_exec_messenger_execs.induct)
  case (1 K N OZ msg target message minGasLimit w)
  then show ?case using sendMessage_effect [of K N msg target message minGasLimit "fst w" "snd w" "fst w'" "snd w'"]
    by (auto simp: messenger_grows_def)
next
  case (2 K N OZ msg nonce sender target val minGasLimit message nested ok w)
  obtain h s where hs: "check_relay K N OZ msg nonce sender target val minGasLimit message w = Inr (h, s)"
    using 2(2) by (auto split: sum.splits)
  obtain s0 c where w: "w = (s0, c)" by fastforce
  obtain g where g: "oz_enter OZ (xm_inherited s0) = Some g" "s = s0\<lparr>xm_inherited := g, xm_balance := xm_balance s0 + unat (msg_value msg)\<rparr>"
      "\<not> xm_successfulMessages s0 h"
    using check_relay_state hs unfolding w by metis
  then have entered: "\<not> entered (xm_inherited s0)" "entered g" using 2(3) unfolding guard_laws_def by (metis option.distinct(1))+
  let ?s = "s\<lparr>xm_xDomainMsgSender := sender\<rparr>"
  show ?case
  proof (cases "ok \<and> unat val \<le> xm_balance s")
    case True
    let ?w = "(?s\<lparr>xm_balance := xm_balance s - unat val\<rparr>, c)"
    have "messenger_grows entered (fst ?w) (fst (messenger_execs K N OZ nested ?w))"
      using 2(1) [OF hs refl refl refl] True 2(3) w by simp
    then have "messenger_grows entered s0 (finish_relay OZ h True (fst (messenger_execs K N OZ nested ?w)))"
      using finish_relay_grows [OF 2(3) entered g(3), where b = "xm_balance s - unat val" and sender = sender] g(2) by simp
    then show ?thesis using 2(2) hs True w by (auto simp: Let_def)
  next
    case False
    have "messenger_grows entered (s0\<lparr>xm_inherited := g, xm_xDomainMsgSender := sender, xm_balance := xm_balance s\<rparr>) ?s"
      by (simp add: messenger_grows_def g(2))
    then have "messenger_grows entered s0 (finish_relay OZ h False ?s)" by (rule finish_relay_grows [OF 2(3) entered g(3)])
    then show ?thesis using 2(2) hs False w by (auto simp: Let_def)
  qed
next
  case (3 K N OZ sender w)
  then show ?case by (auto simp: messenger_pause_def messenger_grows_def guard_laws_def split: option.splits)
next
  case (4 K N OZ sender w)
  then show ?case by (auto simp: messenger_unpause_def messenger_grows_def guard_laws_def split: option.splits)
next
  case (7 K N OZ a as w)
  then show ?case by (auto intro: messenger_grows_trans split: sum.split)
qed (auto simp: messenger_grows_refl)

text \<open>
  C17. A message is relayed successfully at most once: whatever messages are relayed, replayed and sent, whatever their targets
  do, and however the carrier and the pausing change in between, if the inherited guard keeps a running function from being entered,
  no hash occurs in two of the events \<^verbatim>\<open>RelayedMessage\<close>, and the sender of the message is reset.
\<close>

theorem message_relayed_once:
  assumes "guard_laws OZ entered" and "\<not> entered g"
  shows "distinct (relayed_hashes (xm_events (fst (messenger_execs K N OZ calls (new_messenger other g, c)))))
    \<and> xm_xDomainMsgSender (fst (messenger_execs K N OZ calls (new_messenger other g, c))) = DEFAULT_XDOMAIN_SENDER"
  using messenger_exec_grows(2) [OF assms(1), of "(new_messenger other g, c)" K N calls] assms(2)
  by (auto simp: messenger_grows_def new_messenger_def)

definition sample_guard :: "(bool \<times> bool) inherited" where
  "sample_guard = \<lparr>oz_enter = (\<lambda>(e, p). if e then None else Some (True, p)), oz_leave = (\<lambda>(e, p). (False, p)), oz_paused = snd,
     oz_pause = (\<lambda>a (e, p). if a = 1 \<and> \<not> p then Some (e, True) else None),
     oz_unpause = (\<lambda>a (e, p). if a = 1 \<and> p then Some (e, False) else None)\<rparr>"

lemma sample_guard_laws: "guard_laws sample_guard fst"
  by (auto simp: guard_laws_def sample_guard_def split: if_splits)

definition sample_calls :: "message_passer messenger_call list" where
  "sample_calls = [Relay (sample_l1_call\<lparr>msg_sender := applyL1ToL2Alias 7\<rparr>) (encodeVersionedNonce 0 1) 5 33 9 50000 [] [Pause 1] True,
     Relay sample_l1_call (encodeVersionedNonce 0 1) 5 33 9 50000 [] [] True]"

theorem message_relayed_once_witness:
  "distinct (relayed_hashes (xm_events (fst (messenger_execs (\<lambda>b. 7) (L2_network (\<lambda>b. 7) 21) sample_guard sample_calls
      (new_messenger 7 (False, False), sample_passer)))))
    \<and> xm_xDomainMsgSender (fst (messenger_execs (\<lambda>b. 7) (L2_network (\<lambda>b. 7) 21) sample_guard sample_calls
      (new_messenger 7 (False, False), sample_passer))) = DEFAULT_XDOMAIN_SENDER"
  by (rule message_relayed_once [OF sample_guard_laws]) simp

section \<open>Gas of a message\<close>

lemmas gas_overheads = MIN_GAS_CONSTANT_OVERHEAD_def MIN_GAS_DYNAMIC_OVERHEAD_NUMERATOR_def
  MIN_GAS_DYNAMIC_OVERHEAD_DENOMINATOR_def MIN_GAS_CALLDATA_OVERHEAD_def

text \<open>
  The amount of gas, where the computation does not leave 32 bits. From a minimum of 4227331 on it does, and sending reverts.
\<close>

lemma baseGas_eq:
  assumes "unat minGasLimit < 4000000" "length message < 2 ^ 24"
  shows "baseGas message minGasLimit = Inr (word_of_nat (unat minGasLimit * 1016 div 1000 + length message * 16 + 200000))"
  using assms by (simp add: baseGas_def checked32_def gas_overheads)

lemma baseGas_reverts: "4227331 \<le> unat minGasLimit \<Longrightarrow> baseGas message minGasLimit = Inl ''arithmetic overflow''"
  by (simp add: baseGas_def checked32_def gas_overheads)

section \<open>Messages arrive\<close>

lemma network_other [simp]:
  "net_isOtherMessenger (L1_network powWad portal_addr this) sender other p \<longleftrightarrow> sender = portal_addr \<and> p_l2Sender p = other"
  "net_isOtherMessenger (L2_network K this) sender other m \<longleftrightarrow> undoL1ToL2Alias sender = other"
  by (simp_all add: L1_network_def L2_network_def)

text \<open>The messenger is not running another message and not paused, and the message can be relayed with the gas of the call.\<close>

definition ready_to_relay :: "'c network \<Rightarrow> 'g inherited \<Rightarrow> 'x l1_call_scheme \<Rightarrow> address \<Rightarrow> uint256 \<Rightarrow> hash \<Rightarrow> 'g messenger \<Rightarrow> bool" where
  "ready_to_relay N OZ msg target minGasLimit h s \<longleftrightarrow>
     (\<exists>g. oz_enter OZ (xm_inherited s) = Some g \<and> \<not> oz_paused OZ g) \<and> \<not> net_isUnsafeTarget N target
     \<and> \<not> xm_successfulMessages s h \<and> unat minGasLimit + RELAY_GAS_REQUIRED \<le> gas_left msg \<and> gas_left msg < 2 ^ 256"

lemma version_messageNonce [simp]: "snd (decodeVersionedNonce (messageNonce s)) = 1"
  by (simp add: messageNonce_def versioned_nonce MESSAGE_VERSION_def)

lemma delivery_accepted:
  assumes "net_isOtherMessenger N (msg_sender msg) (xm_otherMessenger s) c" "msg_value msg = val"
    "snd (decodeVersionedNonce nonce) = 1"
    "ready_to_relay N OZ msg target minGasLimit (K (encodeCrossDomainMessageV1 K nonce sender target val minGasLimit message)) s"
  shows "\<exists>s'. check_relay K N OZ msg nonce sender target val minGasLimit message (s, c)
    = Inr (K (encodeCrossDomainMessageV1 K nonce sender target val minGasLimit message), s')"
proof -
  have "unat minGasLimit + RELAY_GAS_REQUIRED < 2 ^ 256"
    using assms(4) unfolding ready_to_relay_def by (elim conjE) (rule le_less_trans)
  then have "checked (unat minGasLimit + RELAY_GAS_REQUIRED) = Inr (unat minGasLimit + RELAY_GAS_REQUIRED)" by (simp add: checked_def)
  then show ?thesis
    using assms unfolding check_relay_def hashCrossDomainMessageV1_def ready_to_relay_def by (auto simp: Let_def)
qed

text \<open>
  C16. A message sent on L2 arrives on L1: a successful \<^verbatim>\<open>sendMessage\<close> of the messenger on L2 initiates one withdrawal, to the
  messenger on L1, with the value sent and a call of \<^verbatim>\<open>relayMessage\<close> as data. While the portal runs that withdrawal, the messenger
  on L1 accepts the call, under the hash of that data, if it is ready and has not relayed the message.
\<close>

theorem message_l2_to_l1:
  assumes "sendMessage K (L2_network K l2m) msg target message minGasLimit (s, m) = Inr (s', m')"
  shows "\<exists>tx. mp_initiated m' = mp_initiated m @ [tx] \<and> wd_target tx = xm_otherMessenger s
    \<and> wd_data tx = encodeCrossDomainMessageV1 K (messageNonce s) (msg_sender msg) target (msg_value msg) (ucast minGasLimit) message
    \<and> (\<forall>t p msg1. xm_otherMessenger t = l2m \<longrightarrow> msg_sender msg1 = portal_addr \<longrightarrow> msg_value msg1 = wd_value tx
        \<longrightarrow> p_l2Sender p = wd_sender tx
        \<longrightarrow> ready_to_relay (L1_network powWad portal_addr (wd_target tx)) OZ msg1 target (ucast minGasLimit) (K (wd_data tx)) t
        \<longrightarrow> (\<exists>t'. check_relay K (L1_network powWad portal_addr (wd_target tx)) OZ msg1 (messageNonce s) (msg_sender msg) target
               (wd_value tx) (ucast minGasLimit) message (t, p) = Inr (K (wd_data tx), t')))"
proof -
  let ?data = "encodeCrossDomainMessageV1 K (messageNonce s) (msg_sender msg) target (msg_value msg) (ucast minGasLimit) message"
  obtain gas :: u32 where "m' = initiateWithdrawal K l2m (msg_value msg) (xm_otherMessenger s) (ucast (ucast gas :: u64)) ?data m"
    using sendMessage_effect [OF assms] by (auto simp: L2_network_def)
  then obtain tx where tx: "mp_initiated m' = mp_initiated m @ [tx]" "wd_target tx = xm_otherMessenger s" "wd_data tx = ?data"
      "wd_sender tx = l2m" "wd_value tx = msg_value msg"
    by (simp add: initiateWithdrawal_def Let_def)
  show ?thesis
    by (intro exI [of _ tx] conjI allI impI) (auto simp: tx intro!: delivery_accepted)
qed

theorem message_l2_to_l1_witness:
  "\<exists>s' m' tx t'. sendMessage (\<lambda>b. 7) (L2_network (\<lambda>b. 7) 21) sample_l1_call 33 [1] 50000 (new_messenger 22 (False, False), sample_passer) = Inr (s', m')
    \<and> mp_initiated m' = mp_initiated sample_passer @ [tx] \<and> wd_target tx = 22
    \<and> check_relay (\<lambda>b. 7) (L1_network (\<lambda>x y. Inr 0) 44 22) sample_guard (sample_l1_call\<lparr>msg_sender := 44\<rparr>) (messageNonce (new_messenger 22 (False, False)))
        5 33 9 50000 [1] (new_messenger 21 (False, False), (new_portal 10 100)\<lparr>p_l2Sender := 21\<rparr>) = Inr (7, t')"
proof -
  let ?s = "new_messenger 22 (False, False)"
  have "\<exists>s' m'. sendMessage (\<lambda>b. 7) (L2_network (\<lambda>b. 7) 21) sample_l1_call 33 [1] 50000 (?s, sample_passer) = Inr (s', m')"
    by (simp add: sendMessage_def baseGas_def checked32_def L2_network_def gas_overheads)
  then obtain s' m' where send: "sendMessage (\<lambda>b. 7) (L2_network (\<lambda>b. 7) 21) sample_l1_call 33 [1] 50000 (?s, sample_passer) = Inr (s', m')"
    by blast
  obtain gas :: u32 where "m' = initiateWithdrawal (\<lambda>b. 7) 21 9 22 (ucast (ucast gas :: u64))
      (encodeCrossDomainMessageV1 (\<lambda>b. 7) (messageNonce ?s) 5 33 9 50000 [1]) sample_passer"
    using sendMessage_effect [OF send] by (auto simp: L2_network_def new_messenger_def sample_l1_call_def)
  then have last: "wd_value (last (mp_initiated m')) = 9" "wd_sender (last (mp_initiated m')) = 21"
    by (simp_all add: initiateWithdrawal_def Let_def)
  have ready: "ready_to_relay (L1_network (\<lambda>x y. Inr 0) 44 22) sample_guard (sample_l1_call\<lparr>msg_sender := 44\<rparr>) 33 50000 7
      (new_messenger 21 (False, False))"
    by (simp add: ready_to_relay_def sample_guard_def new_messenger_def L1_network_def RELAY_GAS_REQUIRED_def sample_l1_call_def)
  from message_l2_to_l1 [OF send, of 44 "\<lambda>x y. Inr 0" sample_guard] obtain tx where tx: "mp_initiated m' = mp_initiated sample_passer @ [tx]" "wd_target tx = 22"
    and deliver: "\<forall>t p msg1. xm_otherMessenger t = 21 \<longrightarrow> msg_sender msg1 = 44 \<longrightarrow> msg_value msg1 = wd_value tx
        \<longrightarrow> p_l2Sender p = wd_sender tx
        \<longrightarrow> ready_to_relay (L1_network (\<lambda>x y. Inr 0) 44 22) sample_guard (msg1 :: l1_call) 33 50000 7 t
        \<longrightarrow> (\<exists>t'. check_relay (\<lambda>b. 7) (L1_network (\<lambda>x y. Inr 0) 44 22) sample_guard msg1 (messageNonce ?s) 5 33
               (wd_value tx) 50000 [1] (t, p) = Inr (7, t'))"
    by (auto simp: new_messenger_def sample_l1_call_def)
  have "wd_value tx = 9" "wd_sender tx = 21" using last tx(1) by simp_all
  then have "\<exists>t'. check_relay (\<lambda>b. 7) (L1_network (\<lambda>x y. Inr 0) 44 22) sample_guard (sample_l1_call\<lparr>msg_sender := 44\<rparr>) (messageNonce ?s)
        5 33 9 50000 [1] (new_messenger 21 (False, False), (new_portal 10 100)\<lparr>p_l2Sender := 21\<rparr>) = Inr (7, t')"
    using deliver [THEN spec, THEN spec, THEN spec, of "new_messenger 21 (False, False)" "sample_l1_call\<lparr>msg_sender := 44\<rparr>" "(new_portal 10 100)\<lparr>p_l2Sender := 21\<rparr>"] ready
    by (simp add: new_messenger_def sample_l1_call_def)
  with send tx show ?thesis by blast
qed

text \<open>
  C15. A message sent on L1 arrives on L2: a successful \<^verbatim>\<open>sendMessage\<close> of the messenger on L1 adds one event of the portal, which
  the rollup node decodes into a deposit to the messenger on L2, with the value sent and a call of \<^verbatim>\<open>relayMessage\<close> as data. The
  messenger on L2 recognises the sender of that deposit as the other messenger and accepts the call, under the hash of that data,
  if it is ready and has not relayed the message.
\<close>

theorem message_l1_to_l2:
  assumes "sendMessage K (L1_network powWad portal_addr l1m) msg target message minGasLimit (s, p) = Inr (s', p')"
    and "tx_origin msg \<noteq> l1m" and "length message < 2 ^ 62"
  shows "\<exists>e dep. p_events p' = p_events p @ [e] \<and> UnmarshalDepositLogEvent K (portal_log K portal_addr blockHash index e) = Inr dep
    \<and> dep_To dep = Some (xm_otherMessenger s) \<and> dep_Value dep = uint (msg_value msg)
    \<and> dep_Data dep = encodeCrossDomainMessageV1 K (messageNonce s) (msg_sender msg) target (msg_value msg) (ucast minGasLimit) message
    \<and> (\<forall>t m msg2. xm_otherMessenger t = l1m \<longrightarrow> msg_sender msg2 = dep_From dep \<longrightarrow> msg_value msg2 = msg_value msg
        \<longrightarrow> ready_to_relay (L2_network K (xm_otherMessenger s)) OZ msg2 target (ucast minGasLimit) (K (dep_Data dep)) t
        \<longrightarrow> (\<exists>t'. check_relay K (L2_network K (xm_otherMessenger s)) OZ msg2 (messageNonce s) (msg_sender msg) target
               (msg_value msg) (ucast minGasLimit) message (t, m) = Inr (K (dep_Data dep), t')))"
proof -
  let ?data = "encodeCrossDomainMessageV1 K (messageNonce s) (msg_sender msg) target (msg_value msg) (ucast minGasLimit) message"
  obtain gas :: u32 where deposit: "depositTransaction powWad (msg\<lparr>msg_sender := l1m\<rparr>) (xm_otherMessenger s) (msg_value msg) (ucast gas) False ?data p = Inr p'"
    using sendMessage_effect [OF assms(1)] by (auto simp: L1_network_def)
  have len: "length ?data < 2 ^ 63"
    using assms(3) length_pad32(3) [of message] by (simp add: encodeCrossDomainMessageV1_def abi_bytes_def selector_def)
  obtain e dep where e: "p_events p' = p_events p @ [e]" "UnmarshalDepositLogEvent K (portal_log K portal_addr blockHash index e) = Inr dep"
    and dep: "dep_From dep = applyL1ToL2Alias l1m" "dep_To dep = Some (xm_otherMessenger s)" "dep_Value dep = uint (msg_value msg)"
      "dep_Data dep = ?data"
    using deposit_event_decodes [OF deposit len, of K portal_addr blockHash index] assms(2) by auto
  show ?thesis
    by (intro exI [of _ e] exI [of _ dep] conjI allI impI) (auto simp: e dep intro!: delivery_accepted)
qed

theorem message_l1_to_l2_witness:
  "\<exists>s' p' e dep t'. sendMessage (\<lambda>b. 7) (L1_network (\<lambda>x y. Inr 0) 44 22) sample_l1_call 33 [1] 50000 (new_messenger 21 (False, False), new_portal 10 100) = Inr (s', p')
    \<and> p_events p' = [e] \<and> UnmarshalDepositLogEvent (\<lambda>b. 7) (portal_log (\<lambda>b. 7) 44 42 1 e) = Inr dep \<and> dep_To dep = Some 21
    \<and> check_relay (\<lambda>b. 7) (L2_network (\<lambda>b. 7) 21) sample_guard (sample_l1_call\<lparr>msg_sender := dep_From dep\<rparr>) (messageNonce (new_messenger 21 (False, False)))
        5 33 9 50000 [1] (new_messenger 22 (False, False), sample_passer) = Inr (7, t')"
proof -
  let ?s = "new_messenger 21 (False, False)"
  have "\<exists>s' p'. sendMessage (\<lambda>b. 7) (L1_network (\<lambda>x y. Inr 0) 44 22) sample_l1_call 33 [1] 50000 (?s, new_portal 10 100) = Inr (s', p')"
    by (simp add: sendMessage_def baseGas_def checked32_def L1_network_def gas_overheads depositTransaction_def metered_def update_params_def
        checked_minus_def new_portal_def sample_l1_call_def metering_constants Let_def)
  then obtain s' p' where send: "sendMessage (\<lambda>b. 7) (L1_network (\<lambda>x y. Inr 0) 44 22) sample_l1_call 33 [1] 50000 (?s, new_portal 10 100) = Inr (s', p')"
    by blast
  have ready: "ready_to_relay (L2_network (\<lambda>b. 7) 21) sample_guard (sample_l1_call\<lparr>msg_sender := a\<rparr>) 33 50000 7 (new_messenger 22 (False, False))" for a
    by (simp add: ready_to_relay_def sample_guard_def new_messenger_def L2_network_def L2_TO_L1_MESSAGE_PASSER_def RELAY_GAS_REQUIRED_def
        sample_l1_call_def)
  have "tx_origin sample_l1_call \<noteq> 22" by (simp add: sample_l1_call_def)
  from message_l1_to_l2 [OF send this, of 42 1 sample_guard] obtain e dep where e: "p_events p' = [e]" "UnmarshalDepositLogEvent (\<lambda>b. 7) (portal_log (\<lambda>b. 7) 44 42 1 e) = Inr dep"
      "dep_To dep = Some 21"
    and deliver: "\<forall>t m msg2. xm_otherMessenger t = 22 \<longrightarrow> msg_sender msg2 = dep_From dep \<longrightarrow> msg_value msg2 = 9
        \<longrightarrow> ready_to_relay (L2_network (\<lambda>b. 7) 21) sample_guard (msg2 :: l1_call) 33 50000 7 t
        \<longrightarrow> (\<exists>t'. check_relay (\<lambda>b. 7) (L2_network (\<lambda>b. 7) 21) sample_guard msg2 (messageNonce ?s) 5 33 9 50000 [1] (t, m) = Inr (7, t'))"
    by (auto simp: new_messenger_def sample_l1_call_def new_portal_def)
  have "\<exists>t'. check_relay (\<lambda>b. 7) (L2_network (\<lambda>b. 7) 21) sample_guard (sample_l1_call\<lparr>msg_sender := dep_From dep\<rparr>) (messageNonce ?s)
        5 33 9 50000 [1] (new_messenger 22 (False, False), sample_passer) = Inr (7, t')"
    using deliver [THEN spec, THEN spec, THEN spec, of "new_messenger 22 (False, False)" "sample_l1_call\<lparr>msg_sender := dep_From dep\<rparr>" sample_passer] ready
    by (simp add: new_messenger_def sample_l1_call_def)
  with send e show ?thesis by blast
qed

section \<open>A delivery that reverts\<close>

text \<open>No call of a sequence delivers the message with hash \<open>h\<close> from the carrier at address \<open>carrier\<close>.\<close>

fun undelivered :: "keccak \<Rightarrow> address \<Rightarrow> hash \<Rightarrow> 'c messenger_call \<Rightarrow> bool" where
  "undelivered K carrier h (Relay msg nonce sender target val minGasLimit message nested ok) \<longleftrightarrow>
     (hashCrossDomainMessageV1 K nonce sender target val minGasLimit message = h \<longrightarrow> msg_sender msg \<noteq> carrier)
     \<and> list_all (undelivered K carrier h) nested"
| "undelivered K carrier h (Send msg target message minGasLimit) \<longleftrightarrow> True"
| "undelivered K carrier h (Pause sender) \<longleftrightarrow> True"
| "undelivered K carrier h (Unpause sender) \<longleftrightarrow> True"
| "undelivered K carrier h (Elsewhere c) \<longleftrightarrow> True"

definition unknown_message :: "hash \<Rightarrow> 'g messenger \<Rightarrow> bool" where
  "unknown_message h s \<longleftrightarrow> \<not> xm_successfulMessages s h \<and> \<not> xm_receivedMessages s h"

lemma finish_relay_unknown: "unknown_message h s \<Longrightarrow> h' \<noteq> h \<Longrightarrow> unknown_message h (finish_relay OZ h' success s)"
  by (simp add: unknown_message_def finish_relay_def Let_def)

lemma undelivered_unknown:
  fixes a :: "portal messenger_call" and as :: "portal messenger_call list" and w :: "'g messenger \<times> portal"
  assumes N: "N = L1_network powWad carrier this"
  shows "messenger_exec K N OZ a w = Inr w' \<Longrightarrow> undelivered K carrier h a \<Longrightarrow> unknown_message h (fst w) \<Longrightarrow> unknown_message h (fst w')"
    and "list_all (undelivered K carrier h) as \<Longrightarrow> unknown_message h (fst w) \<Longrightarrow> unknown_message h (fst (messenger_execs K N OZ as w))"
  using N
proof (induction K N OZ a w and K N OZ as w arbitrary: w' and rule: messenger_exec_messenger_execs.induct)
  case (1 K N OZ msg target message minGasLimit w)
  then show ?case using sendMessage_effect [of K N msg target message minGasLimit "fst w" "snd w" "fst w'" "snd w'"]
    by (auto simp: unknown_message_def)
next
  case (2 K N OZ msg nonce sender target val minGasLimit message nested ok w)
  obtain h' s where hs: "check_relay K N OZ msg nonce sender target val minGasLimit message w = Inr (h', s)"
    using 2(2) by (auto split: sum.splits)
  obtain s0 c where w: "w = (s0, c)" by fastforce
  obtain g where g: "s = s0\<lparr>xm_inherited := g, xm_balance := xm_balance s0 + unat (msg_value msg)\<rparr>"
      "h' = hashCrossDomainMessageV1 K nonce sender target val minGasLimit message"
      "\<not> net_isOtherMessenger N (msg_sender msg) (xm_otherMessenger s0) c \<longrightarrow> xm_receivedMessages s0 h'"
    using check_relay_state hs unfolding w by metis
  have other: "h' \<noteq> h" using g(2,3) 2(3,4,5) w by (auto simp: unknown_message_def)
  let ?s = "s\<lparr>xm_xDomainMsgSender := sender\<rparr>" and ?w = "(s\<lparr>xm_xDomainMsgSender := sender, xm_balance := xm_balance s - unat val\<rparr>, c)"
  have unknown: "unknown_message h ?s" "unknown_message h (fst ?w)" using 2(4) g(1) w by (simp_all add: unknown_message_def)
  show ?case
  proof (cases "ok \<and> unat val \<le> xm_balance s")
    case True
    have "unknown_message h (fst (messenger_execs K N OZ nested ?w))"
      using 2(1) [OF hs refl refl refl] True 2(3,5) unknown(2) w by simp
    then show ?thesis using 2(2) hs True w finish_relay_unknown [OF _ other] by (auto simp: Let_def)
  next
    case False
    then show ?thesis using 2(2) hs w finish_relay_unknown [OF unknown(1) other] by (auto simp: Let_def)
  qed
next
  case (3 K N OZ sender w)
  then show ?case by (auto simp: messenger_pause_def unknown_message_def split: option.splits)
next
  case (4 K N OZ sender w)
  then show ?case by (auto simp: messenger_unpause_def unknown_message_def split: option.splits)
next
  case (7 K N OZ a as w)
  then show ?case by (auto split: sum.split)
qed auto



end
