(* ===== verification/Bridge.thy ===== *)
theory Bridge
  imports Messenger
begin

text \<open>
  The bridges for ether and tokens: \<^verbatim>\<open>universal/StandardBridge.sol\<close> of \<^verbatim>\<open>packages/contracts-bedrock/contracts\<close> with its children
  \<^verbatim>\<open>L1/L1StandardBridge.sol\<close> and \<^verbatim>\<open>L2/L2StandardBridge.sol\<close>, on top of the messenger. The tokens are arbitrary contracts; they
  are a parameter, and they may call the bridge while they are called.
\<close>

section \<open>State\<close>

datatype bridge_event =
    ETHBridgeInitiated address address uint256 bytes
  | ETHBridgeFinalized address address uint256 bytes
  | ERC20BridgeInitiated address address address address uint256 bytes
  | ERC20BridgeFinalized address address address address uint256 bytes
  | ETHDepositInitiated address address uint256 bytes
  | ETHWithdrawalFinalized address address uint256 bytes
  | ERC20DepositInitiated address address address address uint256 bytes
  | ERC20WithdrawalFinalized address address address address uint256 bytes
  | WithdrawalInitiated address address address address uint256 bytes
  | DepositFinalized address address address address uint256 bytes

record bridge =
  sb_messenger :: address
  sb_otherBridge :: address
  sb_deposits :: "address \<Rightarrow> address \<Rightarrow> nat"
  sb_events :: "bridge_event list"

datatype interface = ILegacyMintableERC20 | IOptimismMintableERC20

text \<open>
  The other contracts of the chain, in the state \<open>'w\<close>: whether an address has code, the interfaces a token supports, the token
  on L1 it stands for, and its operations, called by the bridge, with \<open>None\<close> for a revert.
\<close>

record 'w tokens =
  isContract :: "address \<Rightarrow> bool"
  supportsInterface :: "'w \<Rightarrow> address \<Rightarrow> interface \<Rightarrow> bool"
  l1Token :: "'w \<Rightarrow> address \<Rightarrow> address option"
  tok_mint :: "address \<Rightarrow> address \<Rightarrow> uint256 \<Rightarrow> 'w \<Rightarrow> 'w option"
  tok_burn :: "address \<Rightarrow> address \<Rightarrow> uint256 \<Rightarrow> 'w \<Rightarrow> 'w option"
  tok_transferFrom :: "address \<Rightarrow> address \<Rightarrow> address \<Rightarrow> uint256 \<Rightarrow> 'w \<Rightarrow> 'w option"
  tok_transfer :: "address \<Rightarrow> address \<Rightarrow> uint256 \<Rightarrow> 'w \<Rightarrow> 'w option"

section \<open>Operations\<close>

definition onlyOtherBridge :: "address \<Rightarrow> bridge \<Rightarrow> 'g messenger \<Rightarrow> cause option" where
  "onlyOtherBridge sender b m =
    (if sender \<noteq> sb_messenger b then Some ''function can only be called from the other bridge''
     else case xDomainMessageSender m of
         Inl e \<Rightarrow> Some e
       | Inr a \<Rightarrow> if a = sb_otherBridge b then None else Some ''function can only be called from the other bridge'')"

definition isOptimismMintableERC20 :: "'w tokens \<Rightarrow> 'w \<Rightarrow> address \<Rightarrow> bool" where
  "isOptimismMintableERC20 TK w token \<longleftrightarrow> supportsInterface TK w token ILegacyMintableERC20 \<or> supportsInterface TK w token IOptimismMintableERC20"

definition isCorrectTokenPair :: "'w tokens \<Rightarrow> 'w \<Rightarrow> address \<Rightarrow> address \<Rightarrow> cause + bool" where
  "isCorrectTokenPair TK w mintableToken otherToken =
    (case l1Token TK w mintableToken of None \<Rightarrow> Inl ''l1Token'' | Some t \<Rightarrow> Inr (otherToken = t))"

definition finalizeBridgeETH_calldata :: "keccak \<Rightarrow> address \<Rightarrow> address \<Rightarrow> uint256 \<Rightarrow> bytes \<Rightarrow> bytes" where
  "finalizeBridgeETH_calldata keccak256 from to' amount extraData =
     selector keccak256 ''finalizeBridgeETH(address,address,uint256,bytes)''
     @ abi_address from @ abi_address to' @ word_bytes amount @ be_bytes 32 128 @ abi_bytes extraData"

definition finalizeBridgeERC20_calldata :: "keccak \<Rightarrow> address \<Rightarrow> address \<Rightarrow> address \<Rightarrow> address \<Rightarrow> uint256 \<Rightarrow> bytes \<Rightarrow> bytes" where
  "finalizeBridgeERC20_calldata keccak256 localToken remoteToken from to' amount extraData =
     selector keccak256 ''finalizeBridgeERC20(address,address,address,address,uint256,bytes)''
     @ abi_address localToken @ abi_address remoteToken @ abi_address from @ abi_address to' @ word_bytes amount
     @ be_bytes 32 192 @ abi_bytes extraData"

definition emit :: "bridge_event list \<Rightarrow> bridge \<Rightarrow> bridge" where
  "emit es b = b\<lparr>sb_events := sb_events b @ es\<rparr>"

definition initiateBridgeETH ::
    "keccak \<Rightarrow> 'c network \<Rightarrow> address \<Rightarrow> l1_call \<Rightarrow> address \<Rightarrow> address \<Rightarrow> uint256 \<Rightarrow> u32 \<Rightarrow> bytes
      \<Rightarrow> bridge \<times> ('g messenger \<times> 'c) \<times> 'w \<Rightarrow> cause + bridge \<times> ('g messenger \<times> 'c) \<times> 'w" where
  "initiateBridgeETH keccak256 N this msg from to' amount minGasLimit extraData = (\<lambda>(b, x, w).
    if msg_value msg \<noteq> amount then Inl ''bridging ETH must include sufficient ETH value''
    else let b = emit [ETHBridgeInitiated from to' amount extraData] b in
    case sendMessage keccak256 N (msg\<lparr>msg_sender := this, msg_value := amount\<rparr>) (sb_otherBridge b)
      (finalizeBridgeETH_calldata keccak256 from to' amount extraData) minGasLimit x of
      Inl e \<Rightarrow> Inl e
    | Inr x \<Rightarrow> Inr (b, x, w))"

text \<open>
  \<^verbatim>\<open>_initiateBridgeERC20\<close> in two parts: the call of the token, which gives whether it is mintable, and what follows it.
\<close>

definition take_tokens :: "'w tokens \<Rightarrow> address \<Rightarrow> address \<Rightarrow> address \<Rightarrow> address \<Rightarrow> uint256 \<Rightarrow> 'w \<Rightarrow> cause + bool \<times> 'w" where
  "take_tokens TK this localToken remoteToken from amount w =
    (if isOptimismMintableERC20 TK w localToken then
       (case isCorrectTokenPair TK w localToken remoteToken of Inl e \<Rightarrow> Inl e | Inr ok \<Rightarrow>
        if \<not> ok then Inl ''wrong remote token for Optimism Mintable ERC20 local token''
        else case tok_burn TK localToken from amount w of None \<Rightarrow> Inl ''burn'' | Some w \<Rightarrow> Inr (True, w))
     else case tok_transferFrom TK localToken from this amount w of None \<Rightarrow> Inl ''transferFrom'' | Some w \<Rightarrow> Inr (False, w))"

definition finish_initiateBridgeERC20 ::
    "keccak \<Rightarrow> 'c network \<Rightarrow> address \<Rightarrow> l1_call \<Rightarrow> bool \<Rightarrow> address \<Rightarrow> address \<Rightarrow> address \<Rightarrow> address \<Rightarrow> uint256 \<Rightarrow> u32 \<Rightarrow> bytes
      \<Rightarrow> bridge \<times> ('g messenger \<times> 'c) \<times> 'w \<Rightarrow> cause + bridge \<times> ('g messenger \<times> 'c) \<times> 'w" where
  "finish_initiateBridgeERC20 keccak256 N this msg mintable localToken remoteToken from to' amount minGasLimit extraData = (\<lambda>(b, x, w).
    case (if mintable then Inr (sb_deposits b localToken remoteToken)
          else checked (sb_deposits b localToken remoteToken + unat amount)) of
      Inl e \<Rightarrow> Inl e
    | Inr d \<Rightarrow>
        let b = emit [ERC20BridgeInitiated localToken remoteToken from to' amount extraData]
              (b\<lparr>sb_deposits := (sb_deposits b)(localToken := (sb_deposits b localToken)(remoteToken := d))\<rparr>) in
        case sendMessage keccak256 N (msg\<lparr>msg_sender := this, msg_value := 0\<rparr>) (sb_otherBridge b)
          (finalizeBridgeERC20_calldata keccak256 remoteToken localToken from to' amount extraData) minGasLimit x of
          Inl e \<Rightarrow> Inl e
        | Inr x \<Rightarrow> Inr (b, x, w))"

text \<open>\<^verbatim>\<open>finalizeBridgeETH\<close> up to the call of the recipient.\<close>

definition begin_finalizeBridgeETH ::
    "address \<Rightarrow> 'x l1_call_scheme \<Rightarrow> address \<Rightarrow> address \<Rightarrow> uint256 \<Rightarrow> bytes \<Rightarrow> bridge \<Rightarrow> 'g messenger \<Rightarrow> cause + bridge" where
  "begin_finalizeBridgeETH this msg from to' amount extraData b m =
    (case onlyOtherBridge (msg_sender msg) b m of Some e \<Rightarrow> Inl e | None \<Rightarrow>
     if msg_value msg \<noteq> amount then Inl ''amount sent does not match amount required''
     else if to' = this then Inl ''cannot send to self''
     else if to' = sb_messenger b then Inl ''cannot send to messenger''
     else Inr (emit [ETHBridgeFinalized from to' amount extraData] b))"

text \<open>\<^verbatim>\<open>finalizeBridgeERC20\<close> with the call of the token; what is left is its event.\<close>

definition give_tokens ::
    "'w tokens \<Rightarrow> 'x l1_call_scheme \<Rightarrow> address \<Rightarrow> address \<Rightarrow> address \<Rightarrow> uint256 \<Rightarrow> bridge \<Rightarrow> 'g messenger \<Rightarrow> 'w \<Rightarrow> cause + bridge \<times> 'w" where
  "give_tokens TK msg localToken remoteToken to' amount b m w =
    (case onlyOtherBridge (msg_sender msg) b m of Some e \<Rightarrow> Inl e | None \<Rightarrow>
     if isOptimismMintableERC20 TK w localToken then
       (case isCorrectTokenPair TK w localToken remoteToken of Inl e \<Rightarrow> Inl e | Inr ok \<Rightarrow>
        if \<not> ok then Inl ''wrong remote token for Optimism Mintable ERC20 local token''
        else case tok_mint TK localToken to' amount w of None \<Rightarrow> Inl ''mint'' | Some w \<Rightarrow> Inr (b, w))
     else case checked_minus (sb_deposits b localToken remoteToken) (unat amount) of Inl e \<Rightarrow> Inl e | Inr d \<Rightarrow>
       case tok_transfer TK localToken to' amount w of None \<Rightarrow> Inl ''transfer'' | Some w \<Rightarrow>
       Inr (b\<lparr>sb_deposits := (sb_deposits b)(localToken := (sb_deposits b localToken)(remoteToken := d))\<rparr>, w))"

text \<open>
  A call of the bridge, with the events its entry point adds before and after, and the calls of the bridge that the token or the recipient
  makes in turn.
\<close>

datatype bridge_call =
    BridgeETH l1_call address uint256 u32 bytes "bridge_event list" "bridge_event list"
  | BridgeERC20 l1_call address address address uint256 u32 bytes "bridge_event list" "bridge_event list" "bridge_call list"
  | FinalizeETH l1_call address address uint256 bytes "bridge_event list" "bridge_event list" "bridge_call list" bool
  | FinalizeERC20 l1_call address address address address uint256 bytes "bridge_event list" "bridge_event list" "bridge_call list"

definition with_events :: "bridge_event list \<Rightarrow> cause + bridge \<times> 'b \<Rightarrow> cause + bridge \<times> 'b" where
  "with_events es r = map_sum id (apfst (emit es)) r"

fun bridge_exec :: "keccak \<Rightarrow> 'c network \<Rightarrow> 'w tokens \<Rightarrow> address \<Rightarrow> bridge_call \<Rightarrow> bridge \<times> ('g messenger \<times> 'c) \<times> 'w
      \<Rightarrow> cause + bridge \<times> ('g messenger \<times> 'c) \<times> 'w"
  and bridge_execs :: "keccak \<Rightarrow> 'c network \<Rightarrow> 'w tokens \<Rightarrow> address \<Rightarrow> bridge_call list \<Rightarrow> bridge \<times> ('g messenger \<times> 'c) \<times> 'w
      \<Rightarrow> bridge \<times> ('g messenger \<times> 'c) \<times> 'w" where
  "bridge_exec keccak256 N TK this (BridgeETH msg to' amount minGasLimit extraData before after) (b, x, w) =
     with_events after (initiateBridgeETH keccak256 N this msg (msg_sender msg) to' amount minGasLimit extraData (emit before b, x, w))"
| "bridge_exec keccak256 N TK this (BridgeERC20 msg localToken remoteToken to' amount minGasLimit extraData before after nested) (b, x, w) =
    (case take_tokens TK this localToken remoteToken (msg_sender msg) amount w of
       Inl e \<Rightarrow> Inl e
     | Inr (mintable, w) \<Rightarrow>
         with_events after (finish_initiateBridgeERC20 keccak256 N this msg mintable localToken remoteToken (msg_sender msg) to' amount
           minGasLimit extraData (bridge_execs keccak256 N TK this nested (emit before b, x, w))))"
| "bridge_exec keccak256 N TK this (FinalizeETH msg from to' amount extraData before after nested ok) (b, x, w) =
    (case begin_finalizeBridgeETH this msg from to' amount extraData (emit before b) (fst x) of
       Inl e \<Rightarrow> Inl e
     | Inr b \<Rightarrow> if \<not> ok then Inl ''ETH transfer failed''
         else with_events after (Inr (bridge_execs keccak256 N TK this nested (b, x, w))))"
| "bridge_exec keccak256 N TK this (FinalizeERC20 msg localToken remoteToken from to' amount extraData before after nested) (b, x, w) =
    (case give_tokens TK msg localToken remoteToken to' amount (emit before b) (fst x) w of
       Inl e \<Rightarrow> Inl e
     | Inr (b, w) \<Rightarrow>
         with_events (ERC20BridgeFinalized localToken remoteToken from to' amount extraData # after)
           (Inr (bridge_execs keccak256 N TK this nested (b, x, w))))"
| "bridge_execs keccak256 N TK this [] s = s"
| "bridge_execs keccak256 N TK this (a # as) s =
    (case bridge_exec keccak256 N TK this a s of
       Inl e \<Rightarrow> bridge_execs keccak256 N TK this as s
     | Inr s' \<Rightarrow> bridge_execs keccak256 N TK this as s')"

section \<open>Entry points\<close>

text \<open>Each gives the call it makes, or the reason it reverts.\<close>

definition onlyEOA :: "'w tokens \<Rightarrow> 'x l1_call_scheme \<Rightarrow> bridge_call \<Rightarrow> cause + bridge_call" where
  "onlyEOA TK msg call = (if isContract TK (msg_sender msg) then Inl ''function can only be called from an EOA'' else Inr call)"

definition bridge_receive :: "'w tokens \<Rightarrow> l1_call \<Rightarrow> cause + bridge_call" where
  "bridge_receive TK msg = onlyEOA TK msg (BridgeETH msg (msg_sender msg) (msg_value msg) 200000 [] [] [])"

definition bridgeETH :: "'w tokens \<Rightarrow> l1_call \<Rightarrow> u32 \<Rightarrow> bytes \<Rightarrow> cause + bridge_call" where
  "bridgeETH TK msg minGasLimit extraData = onlyEOA TK msg (BridgeETH msg (msg_sender msg) (msg_value msg) minGasLimit extraData [] [])"

definition bridgeETHTo :: "l1_call \<Rightarrow> address \<Rightarrow> u32 \<Rightarrow> bytes \<Rightarrow> cause + bridge_call" where
  "bridgeETHTo msg to' minGasLimit extraData = Inr (BridgeETH msg to' (msg_value msg) minGasLimit extraData [] [])"

definition bridgeERC20 :: "'w tokens \<Rightarrow> l1_call \<Rightarrow> address \<Rightarrow> address \<Rightarrow> uint256 \<Rightarrow> u32 \<Rightarrow> bytes \<Rightarrow> bridge_call list \<Rightarrow> cause + bridge_call" where
  "bridgeERC20 TK msg localToken remoteToken amount minGasLimit extraData nested =
     onlyEOA TK msg (BridgeERC20 msg localToken remoteToken (msg_sender msg) amount minGasLimit extraData [] [] nested)"

definition bridgeERC20To :: "l1_call \<Rightarrow> address \<Rightarrow> address \<Rightarrow> address \<Rightarrow> uint256 \<Rightarrow> u32 \<Rightarrow> bytes \<Rightarrow> bridge_call list \<Rightarrow> cause + bridge_call" where
  "bridgeERC20To msg localToken remoteToken to' amount minGasLimit extraData nested =
     Inr (BridgeERC20 msg localToken remoteToken to' amount minGasLimit extraData [] [] nested)"

definition initiateETHDeposit :: "l1_call \<Rightarrow> address \<Rightarrow> address \<Rightarrow> u32 \<Rightarrow> bytes \<Rightarrow> bridge_call" where
  "initiateETHDeposit msg from to' minGasLimit extraData =
     BridgeETH msg to' (msg_value msg) minGasLimit extraData [ETHDepositInitiated from to' (msg_value msg) extraData] []"

definition initiateERC20Deposit ::
    "l1_call \<Rightarrow> address \<Rightarrow> address \<Rightarrow> address \<Rightarrow> address \<Rightarrow> uint256 \<Rightarrow> u32 \<Rightarrow> bytes \<Rightarrow> bridge_call list \<Rightarrow> bridge_call" where
  "initiateERC20Deposit msg l1 l2 from to' amount minGasLimit extraData nested =
     BridgeERC20 msg l1 l2 to' amount minGasLimit extraData [ERC20DepositInitiated l1 l2 from to' amount extraData] [] nested"

definition depositETH :: "'w tokens \<Rightarrow> l1_call \<Rightarrow> u32 \<Rightarrow> bytes \<Rightarrow> cause + bridge_call" where
  "depositETH TK msg minGasLimit extraData =
     onlyEOA TK msg (initiateETHDeposit msg (msg_sender msg) (msg_sender msg) minGasLimit extraData)"

definition depositETHTo :: "l1_call \<Rightarrow> address \<Rightarrow> u32 \<Rightarrow> bytes \<Rightarrow> cause + bridge_call" where
  "depositETHTo msg to' minGasLimit extraData = Inr (initiateETHDeposit msg (msg_sender msg) to' minGasLimit extraData)"

definition depositERC20 :: "'w tokens \<Rightarrow> l1_call \<Rightarrow> address \<Rightarrow> address \<Rightarrow> uint256 \<Rightarrow> u32 \<Rightarrow> bytes \<Rightarrow> bridge_call list \<Rightarrow> cause + bridge_call" where
  "depositERC20 TK msg l1 l2 amount minGasLimit extraData nested =
     onlyEOA TK msg (initiateERC20Deposit msg l1 l2 (msg_sender msg) (msg_sender msg) amount minGasLimit extraData nested)"

definition depositERC20To :: "l1_call \<Rightarrow> address \<Rightarrow> address \<Rightarrow> address \<Rightarrow> uint256 \<Rightarrow> u32 \<Rightarrow> bytes \<Rightarrow> bridge_call list \<Rightarrow> cause + bridge_call" where
  "depositERC20To msg l1 l2 to' amount minGasLimit extraData nested =
     Inr (initiateERC20Deposit msg l1 l2 (msg_sender msg) to' amount minGasLimit extraData nested)"

definition finalizeETHWithdrawal :: "l1_call \<Rightarrow> address \<Rightarrow> address \<Rightarrow> uint256 \<Rightarrow> bytes \<Rightarrow> bridge_call list \<Rightarrow> bool \<Rightarrow> bridge_call" where
  "finalizeETHWithdrawal msg from to' amount extraData nested ok =
     FinalizeETH msg from to' amount extraData [ETHWithdrawalFinalized from to' amount extraData] [] nested ok"

definition finalizeERC20Withdrawal :: "l1_call \<Rightarrow> address \<Rightarrow> address \<Rightarrow> address \<Rightarrow> address \<Rightarrow> uint256 \<Rightarrow> bytes \<Rightarrow> bridge_call list \<Rightarrow> bridge_call" where
  "finalizeERC20Withdrawal msg l1 l2 from to' amount extraData nested =
     FinalizeERC20 msg l1 l2 from to' amount extraData [ERC20WithdrawalFinalized l1 l2 from to' amount extraData] [] nested"

definition LEGACY_ERC20_ETH :: address where "LEGACY_ERC20_ETH = 0xDeadDeAddeAddEAddeadDEaDDEAdDeaDDeAD0000"

definition L2_initiateWithdrawal ::
    "'w tokens \<Rightarrow> 'w \<Rightarrow> l1_call \<Rightarrow> address \<Rightarrow> address \<Rightarrow> uint256 \<Rightarrow> u32 \<Rightarrow> bytes \<Rightarrow> bridge_call list \<Rightarrow> cause + bridge_call" where
  "L2_initiateWithdrawal TK w msg l2 to' amount minGasLimit extraData nested =
    (case l1Token TK w l2 of None \<Rightarrow> Inl ''l1Token'' | Some l1 \<Rightarrow>
     let after = [WithdrawalInitiated l1 l2 (msg_sender msg) to' amount extraData] in
     if l2 = LEGACY_ERC20_ETH then Inr (BridgeETH msg to' amount minGasLimit extraData [] after)
     else Inr (BridgeERC20 msg l2 l1 to' amount minGasLimit extraData [] after nested))"

definition withdraw :: "'w tokens \<Rightarrow> 'w \<Rightarrow> l1_call \<Rightarrow> address \<Rightarrow> uint256 \<Rightarrow> u32 \<Rightarrow> bytes \<Rightarrow> bridge_call list \<Rightarrow> cause + bridge_call" where
  "withdraw TK w msg l2 amount minGasLimit extraData nested =
    (if isContract TK (msg_sender msg) then Inl ''function can only be called from an EOA''
     else L2_initiateWithdrawal TK w msg l2 (msg_sender msg) amount minGasLimit extraData nested)"

definition withdrawTo :: "'w tokens \<Rightarrow> 'w \<Rightarrow> l1_call \<Rightarrow> address \<Rightarrow> address \<Rightarrow> uint256 \<Rightarrow> u32 \<Rightarrow> bytes \<Rightarrow> bridge_call list \<Rightarrow> cause + bridge_call" where
  "withdrawTo TK w msg l2 to' amount minGasLimit extraData nested =
     L2_initiateWithdrawal TK w msg l2 to' amount minGasLimit extraData nested"

definition finalizeDeposit :: "l1_call \<Rightarrow> address \<Rightarrow> address \<Rightarrow> address \<Rightarrow> address \<Rightarrow> uint256 \<Rightarrow> bytes \<Rightarrow> bridge_call list \<Rightarrow> bool \<Rightarrow> bridge_call" where
  "finalizeDeposit msg l1 l2 from to' amount extraData nested ok =
    (let after = [DepositFinalized l1 l2 from to' amount extraData] in
     if l1 = 0 \<and> l2 = LEGACY_ERC20_ETH then FinalizeETH msg from to' amount extraData [] after nested ok
     else FinalizeERC20 msg l2 l1 from to' amount extraData [] after nested)"

definition new_bridge :: "address \<Rightarrow> address \<Rightarrow> bridge" where
  "new_bridge messenger otherBridge = \<lparr>sb_messenger = messenger, sb_otherBridge = otherBridge, sb_deposits = (\<lambda>l r. 0), sb_events = []\<rparr>"

section \<open>What a bridge asks of the other\<close>

lemma with_events_Inr [simp]: "with_events es r = Inr s' \<longleftrightarrow> (\<exists>s. r = Inr s \<and> s' = (emit es (fst s), snd s))"
  by (cases r) (auto simp: with_events_def apfst_def map_prod_def)

text \<open>
  A deposit of tokens on L1 is a message to the bridge on L2 to finalize it, with the two tokens exchanged; it is entered in the
  books of the bridge, unless the token is mintable.
\<close>

lemma depositERC20_effect:
  assumes "depositERC20 TK msg l1 l2 amount minGasLimit extraData [] = Inr call" "bridge_exec K N TK this call (b, x, w) = Inr (b', x', w')"
  shows "sendMessage K N (msg\<lparr>msg_sender := this, msg_value := 0\<rparr>) (sb_otherBridge b)
      (finalizeBridgeERC20_calldata K l2 l1 (msg_sender msg) (msg_sender msg) amount extraData) minGasLimit x = Inr x'"
    and "sb_deposits b' l1 l2 = sb_deposits b l1 l2 + (if isOptimismMintableERC20 TK w l1 then 0 else unat amount)"
    and "tok_transferFrom TK l1 (msg_sender msg) this amount w = Some w' \<or> tok_burn TK l1 (msg_sender msg) amount w = Some w'"
  using assms
  by (auto simp: depositERC20_def initiateERC20Deposit_def onlyEOA_def take_tokens_def finish_initiateBridgeERC20_def emit_def checked_def Let_def
      split: if_splits sum.splits option.splits)

text \<open>What the bridge on L2 does with such a message: it mints the amount of a mintable token for the recipient.\<close>

lemma finalizeDeposit_mints:
  assumes "isOptimismMintableERC20 TK w l2" "l1Token TK w l2 = Some l1" "l1 \<noteq> 0"
    "onlyOtherBridge (msg_sender msg) b (fst x) = None" "tok_mint TK l2 to' amount w = Some w'"
  shows "\<exists>b'. bridge_exec K N TK this (finalizeDeposit msg l1 l2 payer to' amount extraData [] ok) (b, x, w) = Inr (b', x, w')
    \<and> sb_deposits b' = sb_deposits b"
  using assms by (simp add: finalizeDeposit_def give_tokens_def isCorrectTokenPair_def emit_def with_events_def onlyOtherBridge_def
      xDomainMessageSender_def split: if_splits)

section \<open>The escrow of a token\<close>

text \<open>
  A token that keeps its promises: it is not mintable, a transfer to the bridge adds exactly its amount to the balance \<open>bal\<close>
  of the bridge, a transfer by the bridge takes at most its amount, and nothing else takes any.
\<close>

definition honest_token :: "'w tokens \<Rightarrow> address \<Rightarrow> address \<Rightarrow> ('w \<Rightarrow> nat) \<Rightarrow> bool" where
  "honest_token TK this t bal \<longleftrightarrow>
     (\<forall>w. \<not> isOptimismMintableERC20 TK w t)
     \<and> (\<forall>from amount w w'. from \<noteq> this \<longrightarrow> tok_transferFrom TK t from this amount w = Some w' \<longrightarrow> bal w' = bal w + unat amount)
     \<and> (\<forall>to' amount w w'. tok_transfer TK t to' amount w = Some w' \<longrightarrow> bal w \<le> bal w' + unat amount)
     \<and> (\<forall>t' a a' amount w w'. t' \<noteq> t \<longrightarrow>
          tok_transferFrom TK t' a a' amount w = Some w' \<or> tok_transfer TK t' a amount w = Some w'
          \<or> tok_mint TK t' a amount w = Some w' \<or> tok_burn TK t' a amount w = Some w' \<longrightarrow> bal w \<le> bal w')"

definition total_deposits :: "address \<Rightarrow> bridge \<Rightarrow> nat" where
  "total_deposits t b = (\<Sum>r \<in> UNIV. sb_deposits b t r)"

lemma total_deposits_update:
  "int (total_deposits t (b\<lparr>sb_deposits := (sb_deposits b)(l := (sb_deposits b l)(r := d))\<rparr>))
    = int (total_deposits t b) + (if l = t then int d - int (sb_deposits b t r) else 0)"
proof -
  have "(\<Sum>i \<in> UNIV. (f(r := d)) i) + f r = (\<Sum>i \<in> UNIV. f i) + d" for f :: "address \<Rightarrow> nat"
  proof -
    have "(\<Sum>i \<in> UNIV - {r}. (f(r := d)) i) = (\<Sum>i \<in> UNIV - {r}. f i)" by (rule sum.cong) auto
    then show ?thesis
      using sum.remove [of UNIV r f] sum.remove [of UNIV r "f(r := d)"] by simp
  qed
  then have "int (\<Sum>i \<in> UNIV. (f(r := d)) i) = int (\<Sum>i \<in> UNIV. f i) + (int d - int (f r))" for f :: "address \<Rightarrow> nat"
    by (simp only: of_nat_add [symmetric] eq_diff_eq diff_add_eq add_diff_eq)
  moreover have "sb_deposits (b\<lparr>sb_deposits := (sb_deposits b)(l := (sb_deposits b l)(r := d))\<rparr>) t
      = (if l = t then (sb_deposits b t)(r := d) else sb_deposits b t)" by simp
  ultimately show ?thesis unfolding total_deposits_def by (cases "l = t") (simp_all only: if_True if_False add_0_right simp_thms)
qed

lemma total_deposits_emit [simp]: "total_deposits t (emit es b) = total_deposits t b"
  by (simp add: total_deposits_def emit_def)

definition surplus :: "('w \<Rightarrow> nat) \<Rightarrow> address \<Rightarrow> bridge \<times> 'x \<times> 'w \<Rightarrow> int" where
  "surplus bal t s = int (bal (snd (snd s))) - int (total_deposits t (fst s))"

text \<open>The bridge is never the caller of its own functions.\<close>

fun foreign_callers :: "address \<Rightarrow> bridge_call \<Rightarrow> bool" where
  "foreign_callers this (BridgeETH msg to' amount minGasLimit extraData before after) \<longleftrightarrow> True"
| "foreign_callers this (BridgeERC20 msg l r to' amount minGasLimit extraData before after nested) \<longleftrightarrow>
     msg_sender msg \<noteq> this \<and> list_all (foreign_callers this) nested"
| "foreign_callers this (FinalizeETH msg from to' amount extraData before after nested ok) \<longleftrightarrow> list_all (foreign_callers this) nested"
| "foreign_callers this (FinalizeERC20 msg l r from to' amount extraData before after nested) \<longleftrightarrow> list_all (foreign_callers this) nested"

lemma surplus_emit [simp]: "surplus bal t (emit es b, xw) = surplus bal t (b, xw)"
  by (simp add: surplus_def)

lemma take_tokens_surplus:
  assumes "honest_token TK this t bal" "from \<noteq> this" "take_tokens TK this l r from amount w = Inr (mintable, w')"
  shows "surplus bal t (b, x, w) + (if l = t then int (unat amount) else 0) \<le> surplus bal t (b, x, w')" "l = t \<Longrightarrow> \<not> mintable"
  using assms unfolding honest_token_def surplus_def
  by (auto simp: take_tokens_def split: if_splits sum.splits option.splits)

lemma finish_initiateBridgeERC20_surplus:
  assumes "finish_initiateBridgeERC20 K N this msg mintable l r from to' amount minGasLimit extraData s = Inr s'"
  shows "surplus bal t s - (if l = t \<and> \<not> mintable then int (unat amount) else 0) = surplus bal t s'"
  using assms
  by (cases s) (auto simp: finish_initiateBridgeERC20_def surplus_def total_deposits_update checked_def Let_def split: if_splits sum.splits)

lemma give_tokens_surplus:
  assumes "honest_token TK this t bal" "give_tokens TK msg l r to' amount b m w = Inr (b', w')"
  shows "surplus bal t (b, x, w) \<le> surplus bal t (b', x, w')"
proof (cases "l = t")
  case True
  have paid: "int (bal w) \<le> int (bal w') + uint amount" if "tok_transfer TK t to' amount w = Some w'"
  proof -
    have "bal w \<le> bal w' + unat amount" using assms(1) that unfolding honest_token_def by blast
    then have "int (bal w) \<le> int (bal w' + unat amount)" by (simp only: of_nat_le_iff)
    then show ?thesis by simp
  qed
  have "\<not> isOptimismMintableERC20 TK w t" using assms(1) unfolding honest_token_def by blast
  with True paid assms(2) show ?thesis unfolding surplus_def
    by (auto simp: give_tokens_def total_deposits_update checked_minus_def split: if_splits sum.splits option.splits)
next
  case False
  then show ?thesis using assms unfolding honest_token_def surplus_def
    by (auto simp: give_tokens_def total_deposits_update split: if_splits sum.splits option.splits)
qed

lemma bridge_exec_surplus:
  fixes s :: "bridge \<times> ('g messenger \<times> 'c) \<times> 'w"
  assumes honest: "honest_token TK this t bal"
  shows "bridge_exec K N TK this a s = Inr s' \<Longrightarrow> foreign_callers this a \<Longrightarrow> surplus bal t s \<le> surplus bal t s'"
    and "list_all (foreign_callers this) as \<Longrightarrow> surplus bal t s \<le> surplus bal t (bridge_execs K N TK this as s)"
  using honest
proof (induction K N TK this a s and K N TK this as s arbitrary: s' and rule: bridge_exec_bridge_execs.induct)
  case (1 K N TK this msg to' amount minGasLimit extraData before after b x w)
  then show ?case by (auto simp: initiateBridgeETH_def surplus_def Let_def split: if_splits sum.splits)
next
  case (2 K N TK this msg l r to' amount minGasLimit extraData before after nested b x w)
  obtain mintable w1 where taken: "take_tokens TK this l r (msg_sender msg) amount w = Inr (mintable, w1)"
    using 2(2) by (auto split: sum.splits)
  let ?s = "bridge_execs K N TK this nested (emit before b, x, w1)"
  obtain s1 where s1: "finish_initiateBridgeERC20 K N this msg mintable l r (msg_sender msg) to' amount minGasLimit extraData ?s = Inr s1"
      "s' = (emit after (fst s1), snd s1)"
    using 2(2) taken by auto
  have "surplus bal t (emit before b, x, w1) \<le> surplus bal t ?s" using 2(1) [OF taken refl] 2(3,4) by simp
  with take_tokens_surplus(1) [OF 2(4) _ taken, of b x] take_tokens_surplus(2) [OF 2(4) _ taken] 2(3) finish_initiateBridgeERC20_surplus [OF s1(1), of bal t] s1(2)
  show ?case by (auto split: if_splits)
next
  case (3 K N TK this msg payer to' amount extraData before after nested ok b x w)
  then show ?case by (auto simp: begin_finalizeBridgeETH_def split: sum.splits if_splits option.splits)
next
  case (4 K N TK this msg l r payer to' amount extraData before after nested b x w)
  obtain b1 w1 where given: "give_tokens TK msg l r to' amount (emit before b) (fst x) w = Inr (b1, w1)"
    using 4(2) by (auto split: sum.splits)
  have "surplus bal t (b1, x, w1) \<le> surplus bal t (bridge_execs K N TK this nested (b1, x, w1))"
    using 4(1) [OF given refl] 4(3,4) by simp
  with give_tokens_surplus [OF 4(4) given, of x] show ?case using 4(2) given by auto
next
  case (6 K N TK this a as s)
  show ?case
  proof (cases "bridge_exec K N TK this a s")
    case (Inr s1)
    then have "surplus bal t s \<le> surplus bal t s1" "surplus bal t s1 \<le> surplus bal t (bridge_execs K N TK this as s1)"
      using 6(1) 6(3) [OF Inr] 6(4,5) by simp_all
    then show ?thesis using Inr by simp
  qed (use 6 in simp)
qed simp

text \<open>
  C18. The bridge can pay what it owes: for a token that keeps its promises, after any sequence of calls of the bridge, with any
  calls that other tokens and recipients make in turn, the bridge holds at least the sum of all deposits recorded for the token.
\<close>

theorem escrow_covers_deposits:
  assumes "honest_token TK this t bal" and "list_all (foreign_callers this) calls"
  shows "total_deposits t (fst (bridge_execs K N TK this calls (new_bridge messenger otherBridge, x, w)))
    \<le> bal (snd (snd (bridge_execs K N TK this calls (new_bridge messenger otherBridge, x, w))))"
proof -
  let ?s = "bridge_execs K N TK this calls (new_bridge messenger otherBridge, x, w)"
  have "total_deposits t (new_bridge messenger otherBridge) = 0" by (simp add: total_deposits_def new_bridge_def)
  then have "0 \<le> int (bal (snd (snd ?s))) - int (total_deposits t (fst ?s))"
    using bridge_exec_surplus(2) [OF assms, of "(new_bridge messenger otherBridge, x, w)" K N] by (simp only: surplus_def fst_conv snd_conv)
  then show ?thesis by simp
qed

text \<open>Tokens without code that mints, whose state is the balance of the bridge in each of them.\<close>

definition sample_tokens :: "(address \<Rightarrow> nat) tokens" where
  "sample_tokens = \<lparr>isContract = (\<lambda>a. False), supportsInterface = (\<lambda>w t i. False), l1Token = (\<lambda>w t. None),
     tok_mint = (\<lambda>t a amount w. None), tok_burn = (\<lambda>t a amount w. None),
     tok_transferFrom = (\<lambda>t a a' amount w. Some (w(t := w t + unat amount))),
     tok_transfer = (\<lambda>t a amount w. if unat amount \<le> w t then Some (w(t := w t - unat amount)) else None)\<rparr>"

theorem escrow_covers_deposits_witness:
  "total_deposits 8 (fst (bridge_execs (\<lambda>b. 7) (L1_network (\<lambda>x y. Inr 0) 44 22) sample_tokens 50
      [BridgeERC20 sample_l1_call 8 9 5 100 50000 [] [] [] []]
      (new_bridge 22 51, (new_messenger 21 (False, False), new_portal 10 100), \<lambda>t. 0)))
    \<le> snd (snd (bridge_execs (\<lambda>b. 7) (L1_network (\<lambda>x y. Inr 0) 44 22) sample_tokens 50
      [BridgeERC20 sample_l1_call 8 9 5 100 50000 [] [] [] []]
      (new_bridge 22 51, (new_messenger 21 (False, False), new_portal 10 100), \<lambda>t. 0))) 8"
proof (rule escrow_covers_deposits [where bal = "\<lambda>w. w 8"])
  show "honest_token sample_tokens 50 8 (\<lambda>w. w 8)"
    by (auto simp: honest_token_def sample_tokens_def isOptimismMintableERC20_def split: if_splits)
qed (simp add: sample_l1_call_def)

end
