(* ===== verification/Legacy_Batches.thy ===== *)
theory Legacy_Batches
  imports Rollup_Types "HOL-Library.Sublist"
begin

text \<open>
  The batch submitter of the legacy system, \<^verbatim>\<open>batch-submitter/drivers/sequencer\<close>: the batches of \<^verbatim>\<open>batch.go\<close>, their encoding
  for the contract on L1 in \<^verbatim>\<open>encoding.go\<close>, the transactions of \<^verbatim>\<open>cached_tx.go\<close> and the crafting of a batch in \<^verbatim>\<open>driver.go\<close>. The
  transactions of l2geth, zlib and the clients are parameters.
\<close>

section \<open>Transactions\<close>

text \<open>
  A reader is the list of the chunks that are still to come: one call of \<^verbatim>\<open>Read\<close> takes bytes from the first chunk only, as
  \<^verbatim>\<open>bytes.Reader\<close> does with all of its data and \<^verbatim>\<open>bufio.Reader\<close> with what it has buffered.
\<close>

type_synonym reader = "bytes list"

fun Read :: "nat \<Rightarrow> reader \<Rightarrow> derr + bytes \<times> reader" where
  "Read n [] = Inl EOF"
| "Read n (c # cs) = (if c = [] then Read n cs else Inr (take n c, drop n c # cs))"

text \<open>What the batch submitter uses of the type of transactions.\<close>

record 't tx_ops =
  tx_L1BlockNumber :: "'t \<Rightarrow> nat"
  tx_isSequencer :: "'t \<Rightarrow> bool"
  tx_EncodeRLP :: "'t \<Rightarrow> derr + bytes"
  tx_DecodeRLP :: "u64 \<Rightarrow> reader \<Rightarrow> derr + 't \<times> reader"

record 't cached_tx =
  ct_tx :: 't
  ct_rawTx :: bytes

definition NewCachedTx :: "'t tx_ops \<Rightarrow> 't \<Rightarrow> derr + 't cached_tx" where
  "NewCachedTx T tx =
    (case tx_EncodeRLP T tx of
       Inl e \<Rightarrow> Inl (Panic ''Unable to encode tx'')
     | Inr raw \<Rightarrow> Inr \<lparr>ct_tx = tx, ct_rawTx = raw\<rparr>)"

definition CachedTx_Size :: "'t cached_tx \<Rightarrow> nat" where
  "CachedTx_Size t = length (ct_rawTx t)"

section \<open>Encoding\<close>

definition TxLenSize :: nat where "TxLenSize = 3"

record batch_context =
  bc_NumSequencedTxs :: u64
  bc_NumSubsequentQueueTxs :: u64
  bc_Timestamp :: u64
  bc_BlockNumber :: u64

datatype batch_type = BatchTypeLegacy | BatchTypeZlib

definition IsMarkerContext :: "batch_context \<Rightarrow> bool" where
  "IsMarkerContext c \<longleftrightarrow> bc_Timestamp c = 0"

definition MarkerBatchType :: "batch_context \<Rightarrow> batch_type" where
  "MarkerBatchType c = (if bc_BlockNumber c = 0 then BatchTypeZlib else BatchTypeLegacy)"

fun MarkerContext :: "batch_type \<Rightarrow> batch_context option" where
  "MarkerContext BatchTypeLegacy = None"
| "MarkerContext BatchTypeZlib =
     Some \<lparr>bc_NumSequencedTxs = 0, bc_NumSubsequentQueueTxs = 0, bc_Timestamp = 0, bc_BlockNumber = 0\<rparr>"

definition BatchTypeFromString :: "string \<Rightarrow> batch_type" where
  "BatchTypeFromString s = (if s = ''zlib'' \<or> s = ''ZLIB'' then BatchTypeZlib else BatchTypeLegacy)"

fun BatchType_String :: "batch_type \<Rightarrow> string" where
  "BatchType_String BatchTypeLegacy = ''LEGACY''"
| "BatchType_String BatchTypeZlib = ''ZLIB''"

definition writeUint64 :: "u64 \<Rightarrow> nat \<Rightarrow> derr + bytes" where
  "writeUint64 val n =
    (if n < 1 \<or> n > 8 then Inl (Panic ''invalid number of bytes'')
     else if val > drop_bit (8 * (8 - n)) (- 1) then Inl (Panic ''cannot encode'')
     else Inr (drop (8 - n) (word_bytes val)))"

text \<open>A short read leaves the rest of the buffer zero.\<close>

definition readUint64 :: "nat \<Rightarrow> reader \<Rightarrow> derr + u64 \<times> reader" where
  "readUint64 n r =
    (case Read n r of
       Inl e \<Rightarrow> Inl e
     | Inr (b, r) \<Rightarrow> Inr (bytes_word (replicate (8 - n) 0 @ b @ replicate (n - length b) 0), r))"

definition BatchContext_Write :: "batch_context \<Rightarrow> derr + bytes" where
  "BatchContext_Write c =
    (case writeUint64 (bc_NumSequencedTxs c) 3 of Inl e \<Rightarrow> Inl e | Inr b1 \<Rightarrow>
     case writeUint64 (bc_NumSubsequentQueueTxs c) 3 of Inl e \<Rightarrow> Inl e | Inr b2 \<Rightarrow>
     case writeUint64 (bc_Timestamp c) 5 of Inl e \<Rightarrow> Inl e | Inr b3 \<Rightarrow>
     case writeUint64 (bc_BlockNumber c) 5 of Inl e \<Rightarrow> Inl e | Inr b4 \<Rightarrow> Inr (b1 @ b2 @ b3 @ b4))"

definition BatchContext_Read :: "reader \<Rightarrow> derr + batch_context \<times> reader" where
  "BatchContext_Read r =
    (case readUint64 3 r of Inl e \<Rightarrow> Inl e | Inr (a, r) \<Rightarrow>
     case readUint64 3 r of Inl e \<Rightarrow> Inl e | Inr (b, r) \<Rightarrow>
     case readUint64 5 r of Inl e \<Rightarrow> Inl e | Inr (t, r) \<Rightarrow>
     case readUint64 5 r of Inl e \<Rightarrow> Inl e | Inr (n, r) \<Rightarrow>
       Inr (\<lparr>bc_NumSequencedTxs = a, bc_NumSubsequentQueueTxs = b, bc_Timestamp = t, bc_BlockNumber = n\<rparr>, r))"

record 't batch_params =
  bp_ShouldStartAtElement :: u64
  bp_TotalElementsToAppend :: u64
  bp_Contexts :: "batch_context list"
  bp_Txs :: "'t cached_tx list"

definition ErrMalformedBatch :: derr where "ErrMalformedBatch = Plain ''malformed batch''"

fun write_all :: "('a \<Rightarrow> derr + bytes) \<Rightarrow> 'a list \<Rightarrow> derr + bytes" where
  "write_all f [] = Inr []"
| "write_all f (x # xs) = (case f x of Inl e \<Rightarrow> Inl e | Inr b \<Rightarrow> map_sum id ((@) b) (write_all f xs))"

definition write_tx :: "'t cached_tx \<Rightarrow> derr + bytes" where
  "write_tx tx = map_sum id (\<lambda>len. len @ ct_rawTx tx) (writeUint64 (word_of_nat (CachedTx_Size tx)) TxLenSize)"

text \<open>
  zlib: what the writer makes of the bytes written until it is closed, and for the reader of such bytes the chunks
  in which its buffered output comes, with the result of closing it. The buffer of \<^verbatim>\<open>bufio.Reader\<close> has 4096 bytes.
\<close>

record zlib =
  zlib_compress :: "bytes \<Rightarrow> derr + bytes"
  zlib_reader :: "reader \<Rightarrow> derr + reader \<times> derr option"

definition BatchParams_Write :: "zlib \<Rightarrow> 't batch_params \<Rightarrow> batch_type \<Rightarrow> derr + bytes" where
  "BatchParams_Write Z p batchType =
    (case writeUint64 (bp_ShouldStartAtElement p) 5 of Inl e \<Rightarrow> Inl e | Inr start \<Rightarrow>
     case writeUint64 (bp_TotalElementsToAppend p) 3 of Inl e \<Rightarrow> Inl e | Inr tot \<Rightarrow>
     if bp_Contexts p = [] \<and> bp_Txs p \<noteq> [] then Inl ErrMalformedBatch
     else let contexts = (case MarkerContext batchType of None \<Rightarrow> [] | Some m \<Rightarrow> [m]) @ bp_Contexts p in
     case writeUint64 (word_of_nat (length contexts)) 3 of Inl e \<Rightarrow> Inl e | Inr num \<Rightarrow>
     case write_all BatchContext_Write contexts of Inl e \<Rightarrow> Inl e | Inr cs \<Rightarrow>
     case write_all write_tx (bp_Txs p) of Inl e \<Rightarrow> Inl e | Inr txs \<Rightarrow>
     case (case batchType of BatchTypeLegacy \<Rightarrow> Inr txs | BatchTypeZlib \<Rightarrow> zlib_compress Z txs) of Inl e \<Rightarrow> Inl e | Inr txs \<Rightarrow>
       Inr (start @ tot @ num @ cs @ txs))"

fun read_contexts :: "nat \<Rightarrow> nat \<Rightarrow> batch_type \<Rightarrow> batch_context list \<Rightarrow> reader \<Rightarrow> derr + (batch_type \<times> batch_context list) \<times> reader" where
  "read_contexts 0 i batchType contexts r = Inr ((batchType, contexts), r)"
| "read_contexts (Suc n) i batchType contexts r =
    (case BatchContext_Read r of Inl e \<Rightarrow> Inl e | Inr (c, r) \<Rightarrow>
     if i = 0 \<and> IsMarkerContext c then read_contexts n (i + 1) (MarkerBatchType c) contexts r
     else read_contexts n (i + 1) batchType (contexts @ [c]) r)"

text \<open>The transactions, until the end of the stream; \<open>None\<close> if the loop does not end.\<close>

partial_function (option) read_txs :: "'t tx_ops \<Rightarrow> 't cached_tx list \<Rightarrow> reader \<Rightarrow> (derr + 't cached_tx list) option" where
  "read_txs T txs r =
    (case readUint64 TxLenSize r of
       Inl e \<Rightarrow> Some (if e = EOF then Inr txs else Inl e)
     | Inr (txLen, r) \<Rightarrow>
         (case tx_DecodeRLP T txLen r of
            Inl e \<Rightarrow> Some (Inl e)
          | Inr (tx, r) \<Rightarrow>
              (case NewCachedTx T tx of
                 Inl e \<Rightarrow> Some (Inl e)
               | Inr tx \<Rightarrow> read_txs T (txs @ [tx]) r)))"

text \<open>Called on a new structure, which has no transactions yet.\<close>

definition BatchParams_Read :: "zlib \<Rightarrow> 't tx_ops \<Rightarrow> reader \<Rightarrow> (derr + 't batch_params) option" where
  "BatchParams_Read Z T r =
    (case readUint64 5 r of Inl e \<Rightarrow> Some (Inl e) | Inr (start, r) \<Rightarrow>
     case readUint64 3 r of Inl e \<Rightarrow> Some (Inl e) | Inr (tot, r) \<Rightarrow>
     case readUint64 3 r of Inl e \<Rightarrow> Some (Inl e) | Inr (numContexts, r) \<Rightarrow>
     case read_contexts (unat numContexts) 0 BatchTypeLegacy [] r of Inl e \<Rightarrow> Some (Inl e) | Inr ((batchType, contexts), r) \<Rightarrow>
     case (case batchType of BatchTypeLegacy \<Rightarrow> Inr (r, None) | BatchTypeZlib \<Rightarrow> zlib_reader Z r) of
       Inl e \<Rightarrow> Some (Inl e)
     | Inr (r, closed) \<Rightarrow>
         (case read_txs T [] r of
            None \<Rightarrow> None
          | Some (Inl e) \<Rightarrow> Some (Inl e)
          | Some (Inr txs) \<Rightarrow>
              if contexts = [] \<and> txs \<noteq> [] then Some (Inl ErrMalformedBatch)
              else (case closed of Some e \<Rightarrow> Some (Inl e)
                | None \<Rightarrow> Some (Inr \<lparr>bp_ShouldStartAtElement = start, bp_TotalElementsToAppend = tot, bp_Contexts = contexts, bp_Txs = txs\<rparr>))))"

section \<open>Batches\<close>

record 't batch_element =
  be_Timestamp :: u64
  be_BlockNumber :: u64
  be_Tx :: "'t cached_tx option"

definition IsSequencerTx :: "'t batch_element \<Rightarrow> bool" where
  "IsSequencerTx el \<longleftrightarrow> be_Tx el \<noteq> None"

record 't l2_block =
  bl_Time :: u64
  bl_Transactions :: "'t list"

definition BatchElementFromBlock :: "'t tx_ops \<Rightarrow> 't l2_block \<Rightarrow> derr + 't batch_element" where
  "BatchElementFromBlock T block =
    (if length (bl_Transactions block) \<noteq> 1 then Inl (Panic ''attempting to create batch element from block'')
     else let tx = hd (bl_Transactions block) in
     case (if tx_isSequencer T tx then map_sum id Some (NewCachedTx T tx) else Inr None) of
       Inl e \<Rightarrow> Inl e
     | Inr cachedTx \<Rightarrow>
         Inr \<lparr>be_Timestamp = bl_Time block, be_BlockNumber = word_of_nat (tx_L1BlockNumber T tx), be_Tx = cachedTx\<rparr>)"

record 't grouped_block =
  gb_sequenced :: "'t batch_element list"
  gb_queued :: "'t batch_element list"

text \<open>The loop that groups the elements; the arguments are its variables.\<close>

fun group_blocks :: "'t grouped_block list \<Rightarrow> bool \<Rightarrow> u64 \<Rightarrow> u64 \<Rightarrow> 't batch_element list \<Rightarrow> 't grouped_block list" where
  "group_blocks groupedBlocks lastBlockIsSequencerTx lastTimestamp lastBlockNumber [] = groupedBlocks"
| "group_blocks groupedBlocks lastBlockIsSequencerTx lastTimestamp lastBlockNumber (el # els) =
    (let needsNewGroupOnSequencerTx = (\<not> lastBlockIsSequencerTx \<or> be_BlockNumber el \<noteq> lastBlockNumber);
         groupedBlocks = (if groupedBlocks = [] \<or> be_Timestamp el \<noteq> lastTimestamp \<or> (IsSequencerTx el \<and> needsNewGroupOnSequencerTx)
           then groupedBlocks @ [\<lparr>gb_sequenced = [], gb_queued = []\<rparr>] else groupedBlocks);
         cur = last groupedBlocks;
         cur = (if IsSequencerTx el then cur\<lparr>gb_sequenced := gb_sequenced cur @ [el]\<rparr> else cur\<lparr>gb_queued := gb_queued cur @ [el]\<rparr>)
     in group_blocks (butlast groupedBlocks @ [cur]) (IsSequencerTx el) (be_Timestamp el) (be_BlockNumber el) els)"

definition block_context :: "'t grouped_block \<Rightarrow> derr + batch_context" where
  "block_context block =
    (if gb_sequenced block = [] \<and> gb_queued block = []
     then Inl (Plain ''attempted to generate batch context with 0 queued and 0 sequenced txs'')
     else let first = (if gb_sequenced block \<noteq> [] then hd (gb_sequenced block) else hd (gb_queued block)) in
       Inr \<lparr>bc_NumSequencedTxs = word_of_nat (length (gb_sequenced block)),
            bc_NumSubsequentQueueTxs = word_of_nat (length (gb_queued block)),
            bc_Timestamp = be_Timestamp first, bc_BlockNumber = be_BlockNumber first\<rparr>)"

fun block_contexts :: "'t grouped_block list \<Rightarrow> derr + batch_context list" where
  "block_contexts [] = Inr []"
| "block_contexts (b # bs) = (case block_context b of Inl e \<Rightarrow> Inl e | Inr c \<Rightarrow> map_sum id ((#) c) (block_contexts bs))"

definition GenSequencerBatchParams :: "u64 \<Rightarrow> u64 \<Rightarrow> 't batch_element list \<Rightarrow> derr + 't batch_params" where
  "GenSequencerBatchParams shouldStartAtElement blockOffset batch =
     map_sum id (\<lambda>contexts. \<lparr>bp_ShouldStartAtElement = shouldStartAtElement - blockOffset,
       bp_TotalElementsToAppend = word_of_nat (length batch), bp_Contexts = contexts, bp_Txs = List.map_filter be_Tx batch\<rparr>)
       (block_contexts (group_blocks [] False 0 0 batch))"

section \<open>The driver\<close>

record sequencer_config =
  sq_BlockOffset :: u64
  sq_MinTxSize :: nat
  sq_MaxTxSize :: nat
  sq_MaxPlaintextBatchSize :: nat
  sq_BatchType :: batch_type

text \<open>The end is exclusive; the counters are big integers.\<close>

definition GetBatchBlockRange :: "sequencer_config \<Rightarrow> derr + nat \<Rightarrow> derr + nat \<Rightarrow> derr + nat \<times> nat" where
  "GetBatchBlockRange cfg getTotalElements latestHeader =
    (case getTotalElements of Inl e \<Rightarrow> Inl e | Inr tot \<Rightarrow>
     case latestHeader of Inl e \<Rightarrow> Inl e | Inr latest \<Rightarrow>
     let start = tot + unat (sq_BlockOffset cfg); end' = latest + 1 in
     if start > end' then Inl (Plain ''invalid range'') else Inr (start, end'))"

text \<open>
  The elements of the blocks from \<open>i\<close> on, \<open>n\<close> of them, until the size limit: the elements, and whether the next transaction
  is large.
\<close>

fun gather_elements ::
    "'t tx_ops \<Rightarrow> sequencer_config \<Rightarrow> (nat \<Rightarrow> derr + 't l2_block) \<Rightarrow> nat \<Rightarrow> nat \<Rightarrow> nat \<Rightarrow> derr + 't batch_element list \<times> bool" where
  "gather_elements T cfg blockByNumber i 0 totalTxSize = Inr ([], False)"
| "gather_elements T cfg blockByNumber i (Suc n) totalTxSize =
    (case blockByNumber i of Inl e \<Rightarrow> Inl e | Inr block \<Rightarrow>
     case BatchElementFromBlock T block of Inl e \<Rightarrow> Inl e | Inr el \<Rightarrow>
     let size = (case be_Tx el of None \<Rightarrow> 0 | Some tx \<Rightarrow> TxLenSize + CachedTx_Size tx) in
     if IsSequencerTx el \<and> totalTxSize + size > sq_MaxPlaintextBatchSize cfg then Inr ([], totalTxSize < sq_MinTxSize cfg)
     else map_sum id (\<lambda>(els, large). (el # els, large)) (gather_elements T cfg blockByNumber (i + 1) n (totalTxSize + size)))"

text \<open>The calldata is the method's identifier and the encoded batch.\<close>

definition batch_calldata :: "zlib \<Rightarrow> sequencer_config \<Rightarrow> bytes \<Rightarrow> nat \<Rightarrow> 't batch_element list \<Rightarrow> derr + bytes" where
  "batch_calldata Z cfg methodID start els =
    (case GenSequencerBatchParams (word_of_nat start) (sq_BlockOffset cfg) els of Inl e \<Rightarrow> Inl e | Inr p \<Rightarrow>
     map_sum id ((@) methodID) (BatchParams_Write Z p (sq_BatchType cfg)))"

text \<open>The pruning loop: the elements and the calldata of the batch, or nothing if it is below the minimum size.\<close>

partial_function (option) prune_batch ::
    "zlib \<Rightarrow> sequencer_config \<Rightarrow> bytes \<Rightarrow> nat \<Rightarrow> bool \<Rightarrow> nat \<Rightarrow> 't batch_element list
      \<Rightarrow> (derr + ('t batch_element list \<times> bytes) option) option" where
  "prune_batch Z cfg methodID start hasLargeNextTx pruneCount els =
    (case batch_calldata Z cfg methodID start els of
       Inl e \<Rightarrow> Some (Inl e)
     | Inr calldata \<Rightarrow>
         if length calldata > sq_MaxTxSize cfg
         then prune_batch Z cfg methodID start hasLargeNextTx (pruneCount + 1) (take (length els * 9 div 10) els)
         else if \<not> (pruneCount > 0 \<or> hasLargeNextTx) \<and> length calldata < sq_MinTxSize cfg then Some (Inr None)
         else Some (Inr (Some (els, calldata))))"

text \<open>Up to the signing of the transaction.\<close>

definition CraftBatchTx ::
    "'t tx_ops \<Rightarrow> zlib \<Rightarrow> sequencer_config \<Rightarrow> (nat \<Rightarrow> derr + 't l2_block) \<Rightarrow> bytes \<Rightarrow> nat \<Rightarrow> nat
      \<Rightarrow> (derr + ('t batch_element list \<times> bytes) option) option" where
  "CraftBatchTx T Z cfg blockByNumber methodID start end' =
    (case gather_elements T cfg blockByNumber start (end' - start) 0 of
       Inl e \<Rightarrow> Some (Inl e)
     | Inr (els, hasLargeNextTx) \<Rightarrow> prune_batch Z cfg methodID start hasLargeNextTx 0 els)"

section \<open>Reading what was written\<close>

lemma write_all_Cons [simp]:
  "write_all f (x # xs) = Inr b \<longleftrightarrow> (\<exists>b1 b2. f x = Inr b1 \<and> write_all f xs = Inr b2 \<and> b = b1 @ b2)"
  by (cases "f x"; cases "write_all f xs") auto

lemma write_tx_Inr: "write_tx t = Inr b
    \<longleftrightarrow> (\<exists>len. writeUint64 (word_of_nat (length (ct_rawTx t))) TxLenSize = Inr len \<and> b = len @ ct_rawTx t)"
  by (cases "writeUint64 (word_of_nat (length (ct_rawTx t))) TxLenSize") (auto simp: write_tx_def CachedTx_Size_def)

declare write_all.simps(2) [simp del]

lemma pred_div: "0 < a \<Longrightarrow> 0 < b \<Longrightarrow> (a * b - 1) div b = a - (1 :: nat)"
proof (rule div_nat_eqI)
  assume ab: "0 < a" "0 < b"
  show "b * (a - 1) \<le> a * b - 1" using ab by (cases a) (simp_all add: algebra_simps)
  show "a * b - 1 < b * Suc (a - 1)" using ab by (simp add: mult.commute)
qed

text \<open>The largest value of \<open>n\<close> bytes.\<close>

lemma max_uint:
  assumes "n \<le> 8"
  shows "val \<le> (drop_bit (8 * (8 - n)) (- 1) :: u64) \<longleftrightarrow> unat val < 256 ^ n"
proof -
  have e: "8 * n + 8 * (8 - n) = 64" using assms by simp
  then have p: "(2 :: nat) ^ (8 * n) * 2 ^ (8 * (8 - n)) = 2 ^ 64" by (simp only: power_add [symmetric])
  have "unat (- 1 :: u64) = 2 ^ 64 - 1" by transfer (simp add: take_bit_minus_one_eq_mask mask_eq_exp_minus_1)
  then have "unat (drop_bit (8 * (8 - n)) (- 1 :: u64)) = (2 ^ 64 - 1) div 2 ^ (8 * (8 - n))"
    unfolding unat_drop_bit_eq by (simp only: drop_bit_eq_div)
  also have "\<dots> = 2 ^ (8 * n) - 1"
    unfolding p [symmetric] by (rule pred_div) simp_all
  finally have "val \<le> (drop_bit (8 * (8 - n)) (- 1) :: u64) \<longleftrightarrow> unat val \<le> 2 ^ (8 * n) - 1"
    by (simp only: word_le_nat_alt)
  also have "\<dots> \<longleftrightarrow> unat val < 2 ^ (8 * n)"
    using zero_less_power [of "2 :: nat" "8 * n"] by linarith
  also have "(2 :: nat) ^ (8 * n) = 256 ^ n" by (simp add: power_mult)
  finally show ?thesis .
qed

lemma writeUint64_small:
  "1 \<le> n \<Longrightarrow> n \<le> 8 \<Longrightarrow> unat val < 256 ^ n \<Longrightarrow> writeUint64 val n = Inr (drop (8 - n) (word_bytes val))"
  using max_uint [of n val] by (simp add: writeUint64_def)

lemma writeUint64_bytes:
  assumes "writeUint64 val n = Inr b"
  shows "1 \<le> n" "n \<le> 8" "length b = n" "replicate (8 - n) 0 @ b = word_bytes val"
proof -
  from assms have n: "1 \<le> n" "n \<le> 8" and b: "b = drop (8 - n) (word_bytes val)" and small: "val \<le> drop_bit (8 * (8 - n)) (- 1)"
    by (auto simp: writeUint64_def split: if_splits)
  have "be_bytes (8 - n + n) (unat val) = replicate (8 - n) 0 @ be_bytes n (unat val)"
    by (rule be_bytes_pad) (rule max_uint [OF n(2), THEN iffD1, OF small])
  then have w: "word_bytes val = replicate (8 - n) 0 @ be_bytes n (unat val)" using n by (simp add: word_bytes_def)
  show "1 \<le> n" "n \<le> 8" by fact+
  show "length b = n" "replicate (8 - n) 0 @ b = word_bytes val" using n by (simp_all add: b w)
qed

lemma readUint64_written:
  assumes "writeUint64 val n = Inr b"
  shows "readUint64 n ((b @ rest) # cs) = Inr (val, rest # cs)"
  using writeUint64_bytes [OF assms] by (auto simp: readUint64_def) 

lemma BatchContext_Read_written:
  assumes "BatchContext_Write c = Inr b"
  shows "BatchContext_Read ((b @ rest) # cs) = Inr (c, rest # cs)"
  using assms by (cases c) (auto simp: BatchContext_Write_def BatchContext_Read_def readUint64_written split: sum.splits)

lemma read_contexts_written:
  assumes "write_all BatchContext_Write cs = Inr b" "0 < i \<or> cs = [] \<or> \<not> IsMarkerContext (hd cs)"
  shows "read_contexts (length cs) i ty acc ((b @ rest) # r) = Inr ((ty, acc @ cs), rest # r)"
  using assms
proof (induction cs arbitrary: b i acc)
  case (Cons c cs)
  then obtain b1 b2 where b: "BatchContext_Write c = Inr b1" "write_all BatchContext_Write cs = Inr b2" "b = b1 @ b2"
    by auto
  show ?case using Cons.IH [OF b(2), of "i + 1" "acc @ [c]"] Cons.prems(2) BatchContext_Read_written [OF b(1), of "b2 @ rest" r]
    by (auto simp: b(3))
qed simp

text \<open>The transactions of l2geth are decoded from their own encoding, with its length as limit.\<close>

definition tx_laws :: "'t tx_ops \<Rightarrow> bool" where
  "tx_laws T \<longleftrightarrow> (\<forall>tx raw rest r. tx_EncodeRLP T tx = Inr raw \<longrightarrow>
     tx_DecodeRLP T (word_of_nat (length raw)) ((raw @ rest) # r) = Inr (tx, rest # r))"

lemma read_txs_written:
  assumes "tx_laws T" "list_all (\<lambda>t. tx_EncodeRLP T (ct_tx t) = Inr (ct_rawTx t)) txs" "write_all write_tx txs = Inr b"
  shows "read_txs T acc [b] = Some (Inr (acc @ txs))"
  using assms(2,3)
proof (induction txs arbitrary: acc b)
  case Nil
  then show ?case by (simp add: read_txs.simps readUint64_def)
next
  case (Cons t txs)
  obtain len b2 where b: "writeUint64 (word_of_nat (length (ct_rawTx t))) TxLenSize = Inr len" "write_all write_tx txs = Inr b2"
      "b = len @ ct_rawTx t @ b2"
    using Cons.prems(2) by (auto simp: write_tx_Inr)
  have "tx_DecodeRLP T (word_of_nat (length (ct_rawTx t))) [ct_rawTx t @ b2] = Inr (ct_tx t, [b2])"
    using assms(1) Cons.prems(1) by (simp add: tx_laws_def)
  then show ?case
    using readUint64_written [OF b(1), of "ct_rawTx t @ b2" "[]"] Cons.IH [OF _ b(2), of "acc @ [t]"] Cons.prems(1)
    by (subst read_txs.simps) (cases t, simp add: b(3) NewCachedTx_def)
qed

text \<open>What is compressed is decompressed; what fits into the buffer comes in one chunk.\<close>

definition zlib_laws :: "zlib \<Rightarrow> bool" where
  "zlib_laws Z \<longleftrightarrow> (\<forall>x y. zlib_compress Z x = Inr y \<longrightarrow>
     (\<exists>cs. zlib_reader Z [y] = Inr (cs, None) \<and> concat cs = x \<and> (length x \<le> 4096 \<longrightarrow> cs = [x])))"

definition plain_size :: "'t cached_tx list \<Rightarrow> nat" where
  "plain_size txs = sum_list (map (\<lambda>t. TxLenSize + CachedTx_Size t) txs)"

lemma length_write_txs: "write_all write_tx txs = Inr b \<Longrightarrow> length b = plain_size txs"
proof (induction txs arbitrary: b)
  case (Cons t txs)
  then obtain len b2 where "writeUint64 (word_of_nat (length (ct_rawTx t))) TxLenSize = Inr len" "write_all write_tx txs = Inr b2"
      "b = len @ ct_rawTx t @ b2"
    by (auto simp: write_tx_Inr)
  with Cons.IH [of b2] writeUint64_bytes(3) [of _ TxLenSize len] show ?case by (simp add: plain_size_def CachedTx_Size_def)
qed (simp add: plain_size_def)


definition sample_tx_ops :: "byte tx_ops" where
  "sample_tx_ops = \<lparr>tx_L1BlockNumber = (\<lambda>t. 5), tx_isSequencer = (\<lambda>t. t \<noteq> 0), tx_EncodeRLP = (\<lambda>t. Inr [t]),
     tx_DecodeRLP = (\<lambda>n r. case Read 1 r of Inl e \<Rightarrow> Inl e | Inr (b, r) \<Rightarrow> Inr (hd b, r))\<rparr>"

definition sample_zlib :: zlib where
  "sample_zlib = \<lparr>zlib_compress = Inr, zlib_reader = (\<lambda>r. Inr (r, None))\<rparr>"

definition sample_params :: "byte batch_params" where
  "sample_params = \<lparr>bp_ShouldStartAtElement = 7, bp_TotalElementsToAppend = 3,
     bp_Contexts = [\<lparr>bc_NumSequencedTxs = 2, bc_NumSubsequentQueueTxs = 1, bc_Timestamp = 100, bc_BlockNumber = 5\<rparr>],
     bp_Txs = [\<lparr>ct_tx = 8, ct_rawTx = [8]\<rparr>, \<lparr>ct_tx = 9, ct_rawTx = [9]\<rparr>]\<rparr>"


text \<open>
  A length that lies across the end of a chunk is misread: the bytes that are missing count as zeros. So a batch whose
  transactions exceed the buffer can be written and not be read.
\<close>

lemma readUint64_short:
  assumes "c \<noteq> []" "length c < n" "n \<le> 8"
  shows "readUint64 n (c # cs) = Inr (bytes_word (replicate (8 - n) 0 @ c @ replicate (n - length c) 0), [] # cs)"
  using assms by (simp add: readUint64_def)

section \<open>The contexts of a batch\<close>

text \<open>
  What L1 reconstructs from a context: so many transactions of the sequencer with its time and block number, and then so many of
  the queue with its time. The last component is the L1 block number, which for the queue is kept on L1.
\<close>

definition expand_context :: "batch_context \<Rightarrow> (bool \<times> u64 \<times> u64 option) list" where
  "expand_context c = replicate (unat (bc_NumSequencedTxs c)) (True, bc_Timestamp c, Some (bc_BlockNumber c))
     @ replicate (unat (bc_NumSubsequentQueueTxs c)) (False, bc_Timestamp c, None)"

definition element_view :: "'t batch_element \<Rightarrow> bool \<times> u64 \<times> u64 option" where
  "element_view el = (IsSequencerTx el, be_Timestamp el, if IsSequencerTx el then Some (be_BlockNumber el) else None)"

definition group_elements :: "'t grouped_block \<Rightarrow> 't batch_element list" where
  "group_elements g = gb_sequenced g @ gb_queued g"

definition good_group :: "'t grouped_block \<Rightarrow> bool" where
  "good_group g \<longleftrightarrow> group_elements g \<noteq> []
     \<and> (\<exists>t n. list_all (\<lambda>el. element_view el = (True, t, Some n)) (gb_sequenced g) \<and> list_all (\<lambda>el. element_view el = (False, t, None)) (gb_queued g))"

text \<open>What the variables of the loop say of the last group.\<close>

definition last_group :: "'t grouped_block list \<Rightarrow> bool \<Rightarrow> u64 \<Rightarrow> u64 \<Rightarrow> bool" where
  "last_group gs isSeq t n \<longleftrightarrow> (gs \<noteq> [] \<longrightarrow>
     list_all (\<lambda>el. be_Timestamp el = t) (group_elements (last gs))
     \<and> (isSeq \<longrightarrow> gb_queued (last gs) = [] \<and> list_all (\<lambda>el. be_BlockNumber el = n) (gb_sequenced (last gs))))"

lemma element_view_eq [simp]:
  "element_view el = (True, t, Some n) \<longleftrightarrow> IsSequencerTx el \<and> be_Timestamp el = t \<and> be_BlockNumber el = n"
  "element_view el = (False, t, None) \<longleftrightarrow> \<not> IsSequencerTx el \<and> be_Timestamp el = t"
  by (auto simp: element_view_def)

text \<open>One turn of the loop, as a function of its own.\<close>

definition add_element :: "'t grouped_block list \<Rightarrow> bool \<Rightarrow> u64 \<Rightarrow> u64 \<Rightarrow> 't batch_element \<Rightarrow> 't grouped_block list" where
  "add_element gs isSeq t n el =
    (let fresh = (gs = [] \<or> be_Timestamp el \<noteq> t \<or> (IsSequencerTx el \<and> (\<not> isSeq \<or> be_BlockNumber el \<noteq> n)));
         g = (if fresh then \<lparr>gb_sequenced = [], gb_queued = []\<rparr> else last gs)
     in (if fresh then gs else butlast gs)
        @ [if IsSequencerTx el then g\<lparr>gb_sequenced := gb_sequenced g @ [el]\<rparr> else g\<lparr>gb_queued := gb_queued g @ [el]\<rparr>])"

lemma group_blocks_Cons:
  "group_blocks gs isSeq t n (el # els)
    = group_blocks (add_element gs isSeq t n el) (IsSequencerTx el) (be_Timestamp el) (be_BlockNumber el) els"
  by (simp add: add_element_def Let_def)

declare group_blocks.simps(2) [simp del]

lemma good_group_single: "good_group (if IsSequencerTx el then \<lparr>gb_sequenced = [el], gb_queued = []\<rparr> else \<lparr>gb_sequenced = [], gb_queued = [el]\<rparr>)"
  by (auto simp: good_group_def group_elements_def)

lemma good_group_extend:
  assumes "good_group g" "list_all (\<lambda>x. be_Timestamp x = be_Timestamp el) (group_elements g)"
    and "IsSequencerTx el \<Longrightarrow> gb_queued g = [] \<and> list_all (\<lambda>x. be_BlockNumber x = be_BlockNumber el) (gb_sequenced g)"
  shows "good_group (if IsSequencerTx el then g\<lparr>gb_sequenced := gb_sequenced g @ [el]\<rparr> else g\<lparr>gb_queued := gb_queued g @ [el]\<rparr>)"
proof -
  obtain t n where g: "list_all (\<lambda>x. IsSequencerTx x \<and> be_Timestamp x = t \<and> be_BlockNumber x = n) (gb_sequenced g)"
      "list_all (\<lambda>x. \<not> IsSequencerTx x \<and> be_Timestamp x = t) (gb_queued g)" "group_elements g \<noteq> []"
    using assms(1) by (auto simp: good_group_def)
  then have t: "t = be_Timestamp el" using assms(2) by (cases "gb_sequenced g"; cases "gb_queued g") (auto simp: group_elements_def)
  show ?thesis
  proof (cases "IsSequencerTx el")
    case True
    then have "list_all (\<lambda>x. IsSequencerTx x \<and> be_Timestamp x = t \<and> be_BlockNumber x = be_BlockNumber el) (gb_sequenced g)"
      using assms(3) g(1) by (auto simp: list_all_iff)
    then show ?thesis using True assms(3) t by (auto simp: good_group_def group_elements_def)
  next
    case False
    then show ?thesis using g t by (auto simp: good_group_def group_elements_def)
  qed
qed

lemma add_element_ok:
  assumes "list_all good_group gs" "last_group gs isSeq t n"
  shows "list_all good_group (add_element gs isSeq t n el)"
    and "last_group (add_element gs isSeq t n el) (IsSequencerTx el) (be_Timestamp el) (be_BlockNumber el)"
    and "concat (map group_elements (add_element gs isSeq t n el)) = concat (map group_elements gs) @ [el]"
proof -
  let ?fresh = "gs = [] \<or> be_Timestamp el \<noteq> t \<or> (IsSequencerTx el \<and> (\<not> isSeq \<or> be_BlockNumber el \<noteq> n))"
  have "list_all good_group (add_element gs isSeq t n el)
    \<and> last_group (add_element gs isSeq t n el) (IsSequencerTx el) (be_Timestamp el) (be_BlockNumber el)
    \<and> concat (map group_elements (add_element gs isSeq t n el)) = concat (map group_elements gs) @ [el]"
  proof (cases ?fresh)
    case True
    then have "add_element gs isSeq t n el
        = gs @ [if IsSequencerTx el then \<lparr>gb_sequenced = [el], gb_queued = []\<rparr> else \<lparr>gb_sequenced = [], gb_queued = [el]\<rparr>]"
      unfolding add_element_def Let_def by (simp only: if_True) simp
    then show ?thesis using assms(1) good_group_single [of el] by (simp add: last_group_def group_elements_def split: if_splits)
  next
    case False
    then obtain gs' g where gs: "gs = gs' @ [g]" by (meson rev_exhaust)
    have g: "list_all (\<lambda>x. be_Timestamp x = be_Timestamp el) (group_elements g)"
      "IsSequencerTx el \<Longrightarrow> gb_queued g = [] \<and> list_all (\<lambda>x. be_BlockNumber x = be_BlockNumber el) (gb_sequenced g)"
      using False assms(2) gs by (auto simp: last_group_def)
    have "add_element gs isSeq t n el
        = gs' @ [if IsSequencerTx el then g\<lparr>gb_sequenced := gb_sequenced g @ [el]\<rparr> else g\<lparr>gb_queued := gb_queued g @ [el]\<rparr>]"
      using False gs unfolding add_element_def Let_def by (simp only: if_False) simp
    then show ?thesis using assms(1) gs good_group_extend [OF _ g] g by (auto simp: last_group_def group_elements_def split: if_splits)
  qed
  then show "list_all good_group (add_element gs isSeq t n el)"
    "last_group (add_element gs isSeq t n el) (IsSequencerTx el) (be_Timestamp el) (be_BlockNumber el)"
    "concat (map group_elements (add_element gs isSeq t n el)) = concat (map group_elements gs) @ [el]" by auto
qed

lemma group_blocks_ok:
  "list_all good_group gs \<Longrightarrow> last_group gs isSeq t n \<Longrightarrow>
    list_all good_group (group_blocks gs isSeq t n els)
    \<and> concat (map group_elements (group_blocks gs isSeq t n els)) = concat (map group_elements gs) @ els"
proof (induction els arbitrary: gs isSeq t n)
  case (Cons el els)
  show ?case unfolding group_blocks_Cons
    using Cons.IH [OF add_element_ok(1,2) [OF Cons.prems]] add_element_ok(3) [OF Cons.prems, of el] by simp
qed simp

lemma map_const_replicate: "list_all (\<lambda>x. f x = y) xs \<Longrightarrow> map f xs = replicate (length xs) y"
  by (induction xs) simp_all

lemma block_context_expand:
  assumes "good_group g" "length (group_elements g) < 2 ^ 64"
  shows "\<exists>c. block_context g = Inr c \<and> expand_context c = map element_view (group_elements g) \<and> expand_context c \<noteq> []"
proof -
  obtain t n where g: "list_all (\<lambda>el. element_view el = (True, t, Some n)) (gb_sequenced g)"
      "list_all (\<lambda>el. element_view el = (False, t, None)) (gb_queued g)" "group_elements g \<noteq> []"
    using assms(1) by (auto simp: good_group_def simp del: element_view_eq)
  have len: "unat (word_of_nat (length (gb_sequenced g)) :: u64) = length (gb_sequenced g)"
    "unat (word_of_nat (length (gb_queued g)) :: u64) = length (gb_queued g)"
    using assms(2) by (simp_all add: unat_of_nat group_elements_def)
  note views = map_const_replicate [OF g(1)] map_const_replicate [OF g(2)]
  show ?thesis
  proof (cases "gb_sequenced g")
    case Nil
    then have "hd (gb_queued g) \<in> set (gb_queued g)" using g(3) by (simp add: group_elements_def)
    then have "be_Timestamp (hd (gb_queued g)) = t" using g(2) by (simp add: list_all_iff)
    then show ?thesis using Nil g(3) views len by (simp add: block_context_def expand_context_def group_elements_def)
  next
    case (Cons el els)
    then have "be_Timestamp el = t" "be_BlockNumber el = n" using g(1) by simp_all
    moreover have "map element_view (group_elements g)
        = replicate (length (gb_sequenced g)) (True, t, Some n) @ replicate (length (gb_queued g)) (False, t, None)"
      by (simp add: group_elements_def views)
    ultimately show ?thesis using Cons len g(3)
      unfolding block_context_def expand_context_def Let_def by (simp add: group_elements_def element_view_def)
  qed
qed

lemma block_contexts_expand:
  assumes "list_all good_group gs" "length (concat (map group_elements gs)) < 2 ^ 64"
  shows "\<exists>cs. block_contexts gs = Inr cs \<and> concat (map expand_context cs) = map element_view (concat (map group_elements gs))
    \<and> list_all (\<lambda>c. expand_context c \<noteq> []) cs"
  using assms
proof (induction gs)
  case (Cons g gs)
  then obtain cs where cs: "block_contexts gs = Inr cs" "concat (map expand_context cs) = map element_view (concat (map group_elements gs))"
      "list_all (\<lambda>c. expand_context c \<noteq> []) cs"
    by auto
  obtain c where "block_context g = Inr c" "expand_context c = map element_view (group_elements g)" "expand_context c \<noteq> []"
    using block_context_expand [of g] Cons.prems by auto
  with cs show ?case by simp
qed simp


definition sample_elements :: "byte batch_element list" where
  "sample_elements = [\<lparr>be_Timestamp = 100, be_BlockNumber = 5, be_Tx = Some \<lparr>ct_tx = 8, ct_rawTx = [8]\<rparr>\<rparr>,
     \<lparr>be_Timestamp = 100, be_BlockNumber = 4, be_Tx = None\<rparr>, \<lparr>be_Timestamp = 100, be_BlockNumber = 5, be_Tx = Some \<lparr>ct_tx = 9, ct_rawTx = [9]\<rparr>\<rparr>]"


section \<open>Pruning ends\<close>

text \<open>
  The loop of \<^verbatim>\<open>CraftBatchTx\<close> ends if an empty batch is within the size limit, and what it returns is a prefix of
  the elements within the limit.
\<close>

lemma prune_batch_returns:
  assumes "\<And>calldata. batch_calldata Z cfg methodID start ([] :: 't batch_element list) = Inr calldata \<Longrightarrow> length calldata \<le> sq_MaxTxSize cfg"
  shows "\<exists>r. prune_batch Z cfg methodID start large pruned (els :: 't batch_element list) = Some r
    \<and> (\<forall>els' calldata. r = Inr (Some (els', calldata)) \<longrightarrow>
        prefix els' els \<and> length calldata \<le> sq_MaxTxSize cfg \<and> batch_calldata Z cfg methodID start els' = Inr calldata)"
proof (induction "length els" arbitrary: els pruned rule: less_induct)
  case less
  show ?case
  proof (cases "\<exists>calldata. batch_calldata Z cfg methodID start els = Inr calldata \<and> length calldata > sq_MaxTxSize cfg")
    case True
    then have "els \<noteq> []" using assms by fastforce
    then have "0 < length els" by simp
    then have "length els * 9 div 10 < length els" by linarith
    then have "length (take (length els * 9 div 10) els) < length els" by simp
    moreover have "prefix x els" if "prefix x (take m els)" for x m using that take_is_prefix by (rule prefix_order.trans)
    ultimately show ?thesis using less [of "take (length els * 9 div 10) els" "pruned + 1"] True
      by (subst prune_batch.simps) auto
  next
    case False
    then show ?thesis
      by (subst prune_batch.simps) (auto split: sum.split)
  qed
qed

end
